(* ===== verification/Xyco_Prelude.thy ===== *)
theory Xyco_Prelude
  imports Main "HOL-Library.Word" "HOL-Library.Multiset" "HOL-Library.Signed_Division"
begin

text \<open>
  What every component of the development shares: the ways a C++ call can end other than by
  returning, the sequencing of calls that may end so, the standard-library idioms the sources use
  on vectors (erase of a found element, sequences of calls over a range), truncating division,
  and the collections of facts the component proofs draw on.
\<close>

named_theorems outcome_simps \<open>unfolding of sequenced calls\<close>
named_theorems frame_simps \<open>fields an operation leaves alone\<close>

section \<open>Outcomes of calls\<close>

text \<open>
  A call returns a value (\<^const>\<open>Inr\<close>) or ends abnormally (\<^const>\<open>Inl\<close>): with an exception
  of the standard library, with an exception of the program, or in one of the undefined behaviours
  the sources can run into (dereference of a null pointer, of an end iterator, of an
  \<open>std::expected\<close> that holds an error or of an empty \<open>std::optional\<close>).
\<close>

datatype abnormal =
    Out_of_range
  | Length_error
  | Runtime_error string
  | Null_deref
  | End_deref
  | Bad_expected
  | Bad_optional

type_synonym 'a outcome = "abnormal + 'a"

fun and_then :: "'a outcome \<Rightarrow> ('a \<Rightarrow> 'b outcome) \<Rightarrow> 'b outcome" where
  "and_then (Inl e) f = Inl e"
| "and_then (Inr x) f = f x"

lemma and_then_Inr_iff [outcome_simps]:
  "and_then m f = Inr y \<longleftrightarrow> (\<exists>x. m = Inr x \<and> f x = Inr y)"
  by (cases m) auto

lemma and_then_assoc: "and_then (and_then m f) g = and_then m (\<lambda>x. and_then (f x) g)"
  by (cases m) auto

text \<open>A range-based \<open>for\<close> loop whose body may end abnormally.\<close>

fun for_each :: "('x \<Rightarrow> 's \<Rightarrow> 's outcome) \<Rightarrow> 'x list \<Rightarrow> 's \<Rightarrow> 's outcome" where
  "for_each f [] s = Inr s"
| "for_each f (x # xs) s = and_then (f x s) (for_each f xs)"

lemma for_each_append:
  "for_each f (xs @ ys) s = and_then (for_each f xs s) (for_each f ys)"
proof (induction xs arbitrary: s)
  case (Cons x xs)
  then show ?case by (cases "f x s") simp_all
qed simp

text \<open>The loop rule: an invariant indexed by the elements still to come.\<close>

lemma for_each_rule:
  assumes "P xs s"
    and "\<And>x ys s. P (x # ys) s \<Longrightarrow> \<exists>s'. f x s = Inr s' \<and> P ys s'"
  shows "\<exists>s'. for_each f xs s = Inr s' \<and> P [] s'"
  using assms(1)
proof (induction xs arbitrary: s)
  case Nil
  then show ?case by simp
next
  case (Cons x xs)
  from assms(2) [OF Cons.prems] obtain s' where "f x s = Inr s'" "P xs s'" by blast
  with Cons.IH show ?case by simp
qed

section \<open>Pointers\<close>

text \<open>
  Objects are named by addresses. A pointer that may be null is an \<^typ>\<open>'a option\<close> of one.
\<close>

type_synonym event_ptr = nat
type_synonym future_ptr = nat
type_synonym handle = nat

section \<open>Arithmetic\<close>

text \<open>
  \<open>std::chrono::duration_cast\<close> truncates towards zero, which is \<open>sdiv\<close>. On a
  non-negative dividend and a positive divisor it is \<open>div\<close>.
\<close>

lemma sdiv_nonneg: "0 \<le> a \<Longrightarrow> 0 < b \<Longrightarrow> a sdiv b = a div b" for a b :: int
  by (auto simp: signed_divide_int_def sgn_if)

lemma sdiv_le_0: "a \<le> 0 \<Longrightarrow> 0 < b \<Longrightarrow> a sdiv b \<le> 0" for a b :: int
  by (auto simp: signed_divide_int_def sgn_if pos_imp_zdiv_nonneg_iff)

lemma sdiv_pos_iff: "0 < b \<Longrightarrow> 0 < a sdiv b \<longleftrightarrow> b \<le> a" for a b :: int
proof (cases "0 \<le> a")
  case True
  assume "0 < b"
  with True show ?thesis by (simp add: sdiv_nonneg pos_imp_zdiv_pos_iff)
next
  case False
  assume "0 < b"
  with False sdiv_le_0 [of a b] show ?thesis by linarith
qed

section \<open>Vectors\<close>

text \<open>
  \<open>v.erase(std::find(v.begin(), v.end(), x))\<close>: removes the first occurrence. Where \<open>x\<close>
  does not occur, \<open>find\<close> gives the end iterator, which \<open>erase\<close> may not take.
\<close>

definition erase_found :: "'a \<Rightarrow> 'a list \<Rightarrow> 'a list outcome" where
  "erase_found x xs = (if x \<in> set xs then Inr (remove1 x xs) else Inl End_deref)"

lemma erase_found_Inr: "erase_found x xs = Inr ys \<longleftrightarrow> x \<in> set xs \<and> ys = remove1 x xs"
  by (auto simp: erase_found_def)

lemma mset_erase_found: "erase_found x xs = Inr ys \<Longrightarrow> mset xs = add_mset x (mset ys)"
  by (auto simp: erase_found_Inr)

lemma mset_concat_update:
  "i < length xss \<Longrightarrow> mset (concat (xss[i := ys])) + mset (xss ! i) = mset (concat xss) + mset ys"
proof (induction xss arbitrary: i)
  case (Cons xs xss)
  then show ?case by (cases i) (auto simp: ac_simps)
qed simp

lemma mset_exchange:
  assumes "a + c = d + e" "e + f = c + g"
  shows "a + f = d + (g :: 'a multiset)"
proof -
  have "(a + c) + (e + f) = (d + e) + (c + g)" using assms by simp
  then show ?thesis by (simp add: ac_simps)
qed

lemma filter_mset_all: "(\<And>x. x \<in># M \<Longrightarrow> P x) \<Longrightarrow> filter_mset P M = M"
  by (induction M) auto

lemma filter_mset_none: "(\<And>x. x \<in># M \<Longrightarrow> \<not> P x) \<Longrightarrow> filter_mset P M = {#}"
  by (induction M) auto

section \<open>First-in first-out queues\<close>

text \<open>
  What the clients of a queue rely on, whatever end of a vector it grows at: an element put in
  comes out after all that were there before. A run of a queue is a list of puts (Some) and gets
  (None); its result lists what the gets gave.
\<close>

fun queue_run :: "('a \<Rightarrow> 'q \<Rightarrow> 'q) \<Rightarrow> ('q \<Rightarrow> ('a \<times> 'q) option) \<Rightarrow> 'a option list \<Rightarrow> 'q \<Rightarrow> 'a list \<times> 'q" where
  "queue_run put get [] q = ([], q)"
| "queue_run put get (Some x # ops) q = queue_run put get ops (put x q)"
| "queue_run put get (None # ops) q = (case get q of
     None \<Rightarrow> queue_run put get ops q
   | Some (x, q') \<Rightarrow> (let (out, q'') = queue_run put get ops q' in (x # out, q'')))"

locale fifo_queue =
  fixes put :: "'a \<Rightarrow> 'q \<Rightarrow> 'q"
    and get :: "'q \<Rightarrow> ('a \<times> 'q) option"
    and waiting :: "'q \<Rightarrow> 'a list"
  assumes put_waiting: "waiting (put x q) = waiting q @ [x]"
    and get_None: "get q = None \<longleftrightarrow> waiting q = []"
    and get_Some: "get q = Some (x, q') \<Longrightarrow> waiting q = x # waiting q'"
begin

lemma run_in_order:
  "queue_run put get ops q = (out, q') \<Longrightarrow> waiting q @ List.map_filter id ops = out @ waiting q'"
proof (induction ops arbitrary: q out)
  case Nil
  then show ?case by (simp add: List.map_filter_simps)
next
  case (Cons a ops)
  show ?case
  proof (cases a)
    case (Some x)
    with Cons.IH [of "put x q" out] Cons.prems show ?thesis
      by (simp add: List.map_filter_simps put_waiting)
  next
    case None
    with Cons show ?thesis
      by (cases "get q") (auto simp: List.map_filter_simps dest: get_Some split: prod.splits)
  qed
qed

end

text \<open>
  \<open>v.emplace(v.begin(), x)\<close> with \<open>v.back()\<close>, \<open>v.pop_back()\<close>; and \<open>std::queue\<close>.
\<close>

definition emplace_begin :: "'a \<Rightarrow> 'a list \<Rightarrow> 'a list" where
  "emplace_begin x xs = x # xs"

definition pop_back :: "'a list \<Rightarrow> ('a \<times> 'a list) option" where
  "pop_back xs = (if xs = [] then None else Some (last xs, butlast xs))"

definition queue_push :: "'a \<Rightarrow> 'a list \<Rightarrow> 'a list" where
  "queue_push x xs = xs @ [x]"

definition queue_pop :: "'a list \<Rightarrow> ('a \<times> 'a list) option" where
  "queue_pop xs = (case xs of [] \<Rightarrow> None | x # xs \<Rightarrow> Some (x, xs))"

interpretation vector_queue: fifo_queue emplace_begin pop_back rev
  by unfold_locales (auto simp: emplace_begin_def pop_back_def split: if_splits
      intro: append_butlast_last_id [THEN arg_cong [where f = rev], symmetric, THEN trans])

interpretation std_queue: fifo_queue queue_push queue_pop "\<lambda>xs. xs"
  by unfold_locales (auto simp: queue_push_def queue_pop_def split: list.splits)

section \<open>Bounded runs\<close>

text \<open>A relation whose runs are bounded reaches a point where it stops.\<close>

lemma bounded_runs_stop:
  assumes "\<forall>n y. (r ^^ n) x y \<longrightarrow> n \<le> (b::nat)"
  shows "\<exists>y. r\<^sup>*\<^sup>* x y \<and> (\<nexists>z. r y z)"
  using assms
proof (induction b arbitrary: x)
  case 0
  have "\<not> r x z" for z
  proof
    assume "r x z"
    then have "(r ^^ 1) x z" by (simp only: relpowp_1)
    from 0 [rule_format, OF this] show False by simp
  qed
  then have "r\<^sup>*\<^sup>* x x \<and> (\<nexists>z. r x z)" by simp
  then show ?case ..
next
  case (Suc b)
  show ?case
  proof (cases "\<exists>z. r x z")
    case True
    then obtain z where z: "r x z" ..
    have "n \<le> b" if "(r ^^ n) z y" for n y
      using Suc.prems [rule_format, OF relpowp_Suc_I2 [of r, OF z that]] by simp
    then have "\<forall>n y. (r ^^ n) z y \<longrightarrow> n \<le> b" by (intro allI impI)
    from Suc.IH [OF this] obtain y where y: "r\<^sup>*\<^sup>* z y" "\<nexists>z. r y z" by (elim exE conjE)
    from converse_rtranclp_into_rtranclp [of r, OF z y(1)] y(2) show ?thesis by (intro exI conjI)
  next
    case False
    then have "r\<^sup>*\<^sup>* x x \<and> (\<nexists>z. r x z)" by simp
    then show ?thesis ..
  qed
qed

end
