(* ===== verification/Xyco_Error.thy ===== *)
theory Xyco_Error
  imports Xyco_Prelude
begin

text \<open>
  The error values of \<open>include/xyco/utils/error.ccm\<close> and \<open>src/utils/error.cc\<close>, and
  \<open>utils::panic\<close>. A \<open>utils::Result<T>\<close> is a sum whose left side is the error. The global
  \<open>errno\<close> of the C library is an argument.
\<close>

abbreviation (input) EINTR :: int where "EINTR \<equiv> 4"
abbreviation (input) EAGAIN :: int where "EAGAIN \<equiv> 11"
abbreviation (input) EWOULDBLOCK :: int where "EWOULDBLOCK \<equiv> 11"
abbreviation (input) EINVAL :: int where "EINVAL \<equiv> 22"

record err =
  err_no :: int
  err_info :: string

type_synonym 'a result = "err + 'a"

datatype ErrorKind = Uncategorized | Unsupported

fun to_underlying :: "ErrorKind \<Rightarrow> int" where
  "to_underlying Uncategorized = -2"
| "to_underlying Unsupported = -1"

definition from_sys_error :: "int \<Rightarrow> err" where
  "from_sys_error errno = \<lparr>err_no = errno, err_info = []\<rparr>"

definition into_sys_result :: "int \<Rightarrow> int \<Rightarrow> int result" where
  "into_sys_result errno return_value =
     (if return_value = -1 then Inl (from_sys_error errno) else Inr return_value)"

text \<open>The macro of \<open>include/xyco/utils/result.h\<close>: an error leaves the coroutine, a value is used.\<close>

fun ASYNC_TRY :: "'a result \<Rightarrow> ('a \<Rightarrow> 'b result) \<Rightarrow> 'b result" where
  "ASYNC_TRY (Inl err) k = Inl err"
| "ASYNC_TRY (Inr x) k = k x"

definition panic :: "string \<Rightarrow> string \<Rightarrow> 'a outcome" where
  "panic stacktrace info =
     Inl (Runtime_error (''Panic:'' @ info @ ''
'' @ stacktrace))"

lemma into_sys_result_Inr: "into_sys_result errno r = Inr n \<longleftrightarrow> n = r \<and> r \<noteq> -1"
  by (auto simp: into_sys_result_def)

lemma into_sys_result_Inl: "into_sys_result errno r = Inl e \<longleftrightarrow> r = -1 \<and> e = from_sys_error errno"
  by (auto simp: into_sys_result_def)

end
