(* ===== verification/Xyco_Event.thy ===== *)
theory Xyco_Event
  imports Xyco_Error
begin

text \<open>
  Events and the registry interface of \<open>include/xyco/runtime/registry.ccm\<close>. An \<open>Event\<close> is a
  heap object shared by a future and a registry; its \<open>extra_\<close> is an object of one of the
  subclasses of \<open>Extra\<close>, which are the constructors of \<open>extra\<close> here:
  \<open>time::TimeExtra\<close>, \<open>task::BlockingExtra\<close>, \<open>io::epoll::IoExtra\<close> and
  \<open>io::uring::IoExtra\<close>. A \<open>dynamic_cast\<close> is a partial function on it. The locale
  \<open>event_registry\<close> states what the runtime relies on when it drives a registry.
\<close>

section \<open>The subclasses of Extra\<close>

datatype Interest = Interest_Read | Interest_Write | Interest_All

record epoll_extra =
  ep_state :: "8 word"
  ep_interest :: Interest
  ep_fd :: int

datatype Shutdown = Shutdown_Read | Shutdown_Write | Shutdown_All

text \<open>The operation an \<open>io_uring\<close> event asks for; buffers and addresses are opaque pointers.\<close>

datatype uring_args =
    Args_Read nat "32 word" "64 word"
  | Args_Write nat "32 word" "64 word"
  | Args_Close
  | Args_Accept nat nat int
  | Args_Connect nat nat
  | Args_Shutdown Shutdown

record uring_extra =
  ur_args :: uring_args
  ur_fd :: int
  ur_return :: int
  ur_state :: "8 word"

text \<open>
  The only closure ever stored in \<open>before_extra_\<close> is the one \<open>BlockingTask\<close> builds: it runs
  the user's function, allocates the result and stores its address in the \<open>after_extra_\<close> of the
  task's event. It is kept as the captured event and the address of that result.
\<close>

datatype closure = Fill_after event_ptr nat

datatype extra =
    TimeExtra int
  | BlockingExtra closure "nat option"
  | EpollExtra epoll_extra
  | UringExtra uring_extra

record event =
  ev_future :: "future_ptr option"
  ev_extra :: "extra option"

type_synonym heap = "event_ptr \<Rightarrow> event"

fun as_time :: "extra option \<Rightarrow> int option" where
  "as_time (Some (TimeExtra t)) = Some t"
| "as_time _ = None"

fun as_blocking :: "extra option \<Rightarrow> (closure \<times> nat option) option" where
  "as_blocking (Some (BlockingExtra f a)) = Some (f, a)"
| "as_blocking _ = None"

fun as_epoll :: "extra option \<Rightarrow> epoll_extra option" where
  "as_epoll (Some (EpollExtra x)) = Some x"
| "as_epoll _ = None"

fun as_uring :: "extra option \<Rightarrow> uring_extra option" where
  "as_uring (Some (UringExtra x)) = Some x"
| "as_uring _ = None"

lemma as_time_Some [simp]: "as_time x = Some t \<longleftrightarrow> x = Some (TimeExtra t)"
  by (induction x rule: as_time.induct) auto

lemma as_blocking_Some [simp]: "as_blocking x = Some (f, a) \<longleftrightarrow> x = Some (BlockingExtra f a)"
  by (induction x rule: as_blocking.induct) auto

lemma as_epoll_Some [simp]: "as_epoll x = Some y \<longleftrightarrow> x = Some (EpollExtra y)"
  by (induction x rule: as_epoll.induct) auto

lemma as_uring_Some [simp]: "as_uring x = Some y \<longleftrightarrow> x = Some (UringExtra y)"
  by (induction x rule: as_uring.induct) auto

definition set_extra :: "event_ptr \<Rightarrow> extra \<Rightarrow> heap \<Rightarrow> heap" where
  "set_extra e x h = h(e := (h e)\<lparr>ev_extra := Some x\<rparr>)"

definition set_future :: "event_ptr \<Rightarrow> future_ptr option \<Rightarrow> heap \<Rightarrow> heap" where
  "set_future e f h = h(e := (h e)\<lparr>ev_future := f\<rparr>)"

lemma set_extra_simps [simp]:
  "ev_future (set_extra e x h a) = ev_future (h a)"
  "ev_extra (set_extra e x h a) = (if a = e then Some x else ev_extra (h a))"
  "a \<noteq> e \<Longrightarrow> set_extra e x h a = h a"
  by (auto simp: set_extra_def)

lemma set_future_simps [simp]:
  "ev_extra (set_future e f h a) = ev_extra (h a)"
  "ev_future (set_future e f h a) = (if a = e then f else ev_future (h a))"
  "a \<noteq> e \<Longrightarrow> set_future e f h a = h a"
  by (auto simp: set_future_def)

section \<open>The registry interface\<close>

text \<open>
  \<open>reg\<close> is \<open>Register\<close>, \<open>sel\<close> is \<open>select\<close>, whose \<open>events\<close> argument is extended in
  place; its first argument is what the outside world gives to that call (the time, what
  \<open>epoll_wait\<close> returns). \<open>tracked\<close> are the events a registry holds a reference to and has not
  handed out. The laws say that registering adds exactly the event (and, failing, nothing), that
  selecting moves events from the registry to the caller and neither loses nor invents one, and
  that a registry writes to no event but those it tracks or is given.
\<close>

locale event_registry =
  fixes reg :: "event_ptr \<Rightarrow> heap \<times> 's \<Rightarrow> (unit result \<times> heap \<times> 's) outcome"
    and sel :: "'i \<Rightarrow> event_ptr list \<Rightarrow> heap \<times> 's \<Rightarrow> (unit result \<times> event_ptr list \<times> heap \<times> 's) outcome"
    and tracked :: "'s \<Rightarrow> event_ptr multiset"
    and invar :: "heap \<Rightarrow> 's \<Rightarrow> bool"
    and wakeable :: "heap \<Rightarrow> 's \<Rightarrow> event_ptr \<Rightarrow> bool"
  assumes reg_invar:
      "invar h s \<Longrightarrow> wakeable h s e \<Longrightarrow> reg e (h, s) = Inr (r, h', s') \<Longrightarrow> invar h' s'"
    and reg_tracked:
      "invar h s \<Longrightarrow> wakeable h s e \<Longrightarrow> reg e (h, s) = Inr (r, h', s') \<Longrightarrow>
         tracked s' = (case r of Inl _ \<Rightarrow> tracked s | Inr _ \<Rightarrow> add_mset e (tracked s))"
    and reg_frame:
      "reg e (h, s) = Inr (r, h', s') \<Longrightarrow> a \<noteq> e \<Longrightarrow> h' a = h a"
    and reg_future:
      "reg e (h, s) = Inr (r, h', s') \<Longrightarrow> ev_future (h' a) = ev_future (h a)"
    and sel_invar:
      "invar h s \<Longrightarrow> sel i evs (h, s) = Inr (r, evs', h', s') \<Longrightarrow> invar h' s'"
    and sel_tracked:
      "invar h s \<Longrightarrow> sel i evs (h, s) = Inr (r, evs', h', s') \<Longrightarrow>
         \<exists>new. evs' = evs @ new \<and> tracked s = tracked s' + mset new"
    and sel_frame:
      "invar h s \<Longrightarrow> sel i evs (h, s) = Inr (r, evs', h', s') \<Longrightarrow> a \<notin># tracked s \<Longrightarrow> h' a = h a"
    and sel_future:
      "sel i evs (h, s) = Inr (r, evs', h', s') \<Longrightarrow> ev_future (h' a) = ev_future (h a)"
    and invar_local:
      "invar h s \<Longrightarrow> (\<And>e. e \<in># tracked s \<Longrightarrow> ev_extra (h' e) = ev_extra (h e)) \<Longrightarrow> invar h' s"

end
