(* ===== verification/Time_Wheel_Proofs.thy ===== *)
theory Time_Wheel_Proofs
  imports Time_Wheel
begin

text \<open>
  Correctness of the timing wheel. The cursors are the digits of the wheel's position; the loops
  of \<open>insert_event\<close> and \<open>walk\<close> are additions with carry on it; the invariant
  \<open>wheel_inv\<close> says where the events may be and bounds their expiry from the slot they are in.
\<close>

section \<open>The position of the wheel\<close>

fun position :: "level list \<Rightarrow> int" where
  "position [] = 0"
| "position (l # ls) = int (lv_current l) + 60 * position ls"

definition cursors_ok :: "level list \<Rightarrow> bool" where
  "cursors_ok ls \<longleftrightarrow> (\<forall>l \<in> set ls. lv_current l < slot_num)"

lemma cursors_ok_simps [simp]:
  "cursors_ok []"
  "cursors_ok (l # ls) \<longleftrightarrow> lv_current l < 60 \<and> cursors_ok ls"
  by (auto simp: cursors_ok_def)

lemma cursors_ok_nth: "cursors_ok ls \<Longrightarrow> k < length ls \<Longrightarrow> lv_current (ls ! k) < 60"
  by (simp add: cursors_ok_def)

lemma position_nonneg: "0 \<le> position ls"
  by (induction ls) auto

lemma position_less: "cursors_ok ls \<Longrightarrow> position ls < 60 ^ length ls"
  by (induction ls) (auto simp: )

lemma position_div: "cursors_ok ls \<Longrightarrow> k \<le> length ls \<Longrightarrow> position ls div 60 ^ k = position (drop k ls)"
proof (induction k arbitrary: ls)
  case (Suc k)
  then obtain l ls' where ls: "ls = l # ls'" by (cases ls) auto
  with Suc.prems have "position ls div 60 = position ls'" by auto
  then have "position ls div 60 ^ Suc k = position ls' div 60 ^ k"
    by (simp add: zdiv_zmult2_eq)
  with Suc ls show ?case by simp
qed simp

lemma cursor_digit:
  assumes "cursors_ok ls" "k < length ls"
  shows "int (lv_current (ls ! k)) = position ls div 60 ^ k mod 60"
proof -
  have "drop k ls = ls ! k # drop (Suc k) ls" using assms by (simp add: Cons_nth_drop_Suc)
  with assms cursors_ok_nth [OF assms] show ?thesis by (simp add: position_div)
qed

text \<open>One round of the carry loops is one digit of an addition.\<close>

lemma carry_step:
  "(v - p) div 60 + of_bool (60 - p mod 60 \<le> (v - p) mod 60) = v div 60 - p div 60" for v p :: int
proof -
  have "v div 60 = p div 60 + (v - p) div 60 + (p mod 60 + (v - p) mod 60) div 60"
    using div_add1_eq [of p "v - p" 60] by simp
  moreover have "(p mod 60 + (v - p) mod 60) div 60 = of_bool (60 - p mod 60 \<le> (v - p) mod 60)"
  proof -
    let ?x = "p mod 60 + (v - p) mod 60"
    have "0 \<le> p mod 60" "p mod 60 < 60" "0 \<le> (v - p) mod 60" "(v - p) mod 60 < 60"
      by simp_all
    then have "0 \<le> ?x" "?x < 120" by linarith+
    then show ?thesis by auto
  qed
  ultimately show ?thesis by simp
qed

lemma div_power_Suc: "x div 60 ^ Suc k = x div 60 ^ k div 60" for x :: int
  by (simp add: zdiv_zmult2_eq power_Suc2 del: power_Suc)

lemma carry_step_power:
  "(V div 60 ^ k - P div 60 ^ k) div 60
     + of_bool (60 - P div 60 ^ k mod 60 \<le> (V div 60 ^ k - P div 60 ^ k) mod 60)
   = V div 60 ^ Suc k - P div 60 ^ Suc k" for V P :: int
  unfolding div_power_Suc by (rule carry_step)

lemma insert_loop_step:
  assumes "cursors_ok ls" "k < length ls" "P = position ls" "P div 60 ^ k < V div 60 ^ k"
  shows "insert_loop ls k st (V div 60 ^ k - P div 60 ^ k)
       = insert_loop ls (Suc k) ((V div 60 ^ k - P div 60 ^ k) mod 60) (V div 60 ^ Suc k - P div 60 ^ Suc k)"
proof -
  have "to_end (ls ! k) = 60 - P div 60 ^ k mod 60"
    using cursor_digit [OF assms(1,2)] assms(3) by (simp add: to_end_def)
  with assms carry_step_power [of V k P] show ?thesis
    by (subst insert_loop.simps) (simp add: Let_def)
qed

lemma walk_loop_step:
  assumes "cursors_ok ls" "k < length ls" "k < length ds" "P = position ls" "P div 60 ^ k < V div 60 ^ k"
  shows "walk_loop ls k ds (V div 60 ^ k - P div 60 ^ k)
       = walk_loop ls (Suc k) (ds[k := (V div 60 ^ k - P div 60 ^ k) mod 60]) (V div 60 ^ Suc k - P div 60 ^ Suc k)"
proof -
  have "to_end (ls ! k) = 60 - P div 60 ^ k mod 60"
    using cursor_digit [OF assms(1,2)] assms(4) by (simp add: to_end_def)
  with assms carry_step_power [of V k P] show ?thesis
    by (subst walk_loop.simps) (simp add: Let_def)
qed

text \<open>
  Both loops stop at the first digit from which \<open>V\<close> and the position agree; they run out of
  levels exactly when there is none.
\<close>

lemma div_power_eq_mono: "V div 60 ^ n = P div 60 ^ n \<Longrightarrow> n \<le> m \<Longrightarrow> V div 60 ^ m = P div 60 ^ m"
  for V P :: int
proof -
  assume *: "V div 60 ^ n = P div 60 ^ n" and "n \<le> m"
  then obtain d where m: "m = n + d" by (auto simp: le_iff_add)
  have "x div 60 ^ m = x div 60 ^ n div 60 ^ d" for x :: int
    by (simp add: m power_add zdiv_zmult2_eq)
  with * show ?thesis by simp
qed

lemma insert_loop_result:
  assumes "cursors_ok ls" "P = position ls" "P \<le> V" "V < 60 ^ length ls" "k \<le> length ls"
  shows "\<exists>n s. insert_loop ls k st (V div 60 ^ k - P div 60 ^ k) = Inr (n, s)
    \<and> k \<le> n \<and> n \<le> length ls \<and> V div 60 ^ n = P div 60 ^ n
    \<and> (\<forall>i. k \<le> i \<longrightarrow> i < n \<longrightarrow> P div 60 ^ i < V div 60 ^ i)
    \<and> s = (if n = k then st else (V div 60 ^ (n - 1) - P div 60 ^ (n - 1)) mod 60)"
  using assms(5)
proof (induction "length ls - k" arbitrary: k st)
  case 0
  then have k: "k = length ls" by simp
  have "V div 60 ^ k = 0" "P div 60 ^ k = 0"
    using assms position_nonneg [of ls] position_less [of ls] by (auto simp: k)
  then show ?case by (intro exI [of _ k] exI [of _ st]) (auto simp: insert_loop.simps k)
next
  case (Suc m)
  then have k: "k < length ls" by simp
  show ?case
  proof (cases "V div 60 ^ k = P div 60 ^ k")
    case True
    with k show ?thesis
      by (intro exI [of _ k] exI [of _ st]) (auto simp: insert_loop.simps)
  next
    case False
    with assms(3) have gt: "P div 60 ^ k < V div 60 ^ k"
      using zdiv_mono1 [of P V "60 ^ k"] by simp
    have m: "m = length ls - Suc k" using Suc.hyps(2) by simp
    obtain n s where *: "insert_loop ls (Suc k) ((V div 60 ^ k - P div 60 ^ k) mod 60)
          (V div 60 ^ Suc k - P div 60 ^ Suc k) = Inr (n, s)" "Suc k \<le> n" "n \<le> length ls"
        "V div 60 ^ n = P div 60 ^ n" "\<forall>i. Suc k \<le> i \<longrightarrow> i < n \<longrightarrow> P div 60 ^ i < V div 60 ^ i"
        "s = (if n = Suc k then (V div 60 ^ k - P div 60 ^ k) mod 60
              else (V div 60 ^ (n - 1) - P div 60 ^ (n - 1)) mod 60)"
      using Suc.hyps(1) [OF m Suc_leI [OF k], of "(V div 60 ^ k - P div 60 ^ k) mod 60"] by auto
    show ?thesis
    proof (intro exI conjI allI impI)
      show "insert_loop ls k st (V div 60 ^ k - P div 60 ^ k) = Inr (n, s)"
        using insert_loop_step [OF assms(1) k assms(2) gt] *(1) by simp
      show "P div 60 ^ i < V div 60 ^ i" if "k \<le> i" "i < n" for i
        using that *(5) gt by (cases "i = k") auto
    qed (use * in auto)
  qed
qed

lemma overflow_digits:
  assumes "cursors_ok ls" "P = position ls" "60 ^ length ls \<le> V" "k \<le> length ls"
  shows "P div 60 ^ k < V div 60 ^ k"
proof -
  have "P < V" using assms position_less [of ls] by simp
  moreover have "V div 60 ^ length ls \<noteq> P div 60 ^ length ls"
    using assms position_nonneg [of ls] position_less [of ls]
      pos_imp_zdiv_pos_iff [of "60 ^ length ls" V] by (auto simp del: pos_imp_zdiv_pos_iff)
  ultimately show ?thesis
    using div_power_eq_mono [of V k P "length ls"] zdiv_mono1 [of P V "60 ^ k"] assms(4)
    by (metis less_imp_le order_le_less zero_less_numeral zero_less_power)
qed

lemma insert_loop_overflow:
  assumes "cursors_ok ls" "P = position ls" "60 ^ length ls \<le> V" "k \<le> length ls"
  shows "insert_loop ls k st (V div 60 ^ k - P div 60 ^ k) = Inl Out_of_range"
  using assms(4)
proof (induction "length ls - k" arbitrary: k st)
  case 0
  then have k: "k = length ls" by simp
  have "P div 60 ^ k = 0"
    using assms position_nonneg [of ls] position_less [of ls] by (auto simp: k)
  moreover have "0 < V div 60 ^ k"
    using assms(3) by (simp add: k pos_imp_zdiv_pos_iff)
  ultimately show ?case by (simp add: insert_loop.simps k)
next
  case (Suc m)
  then have k: "k < length ls" by simp
  have gt: "P div 60 ^ k < V div 60 ^ k" using overflow_digits [OF assms(1-3)] k by simp
  have "m = length ls - Suc k" using Suc.hyps(2) by simp
  from Suc.hyps(1) [OF this Suc_leI [OF k]] show ?case
    by (simp only: insert_loop_step [OF assms(1) k assms(2) gt])
qed

lemma walk_loop_result:
  assumes "cursors_ok ls" "P = position ls" "P \<le> V" "V < 60 ^ length ls" "k \<le> length ls"
    "length ls \<le> length ds"
  shows "\<exists>n ds'. walk_loop ls k ds (V div 60 ^ k - P div 60 ^ k) = Inr (n, ds')
    \<and> k \<le> n \<and> n \<le> length ls \<and> V div 60 ^ n = P div 60 ^ n
    \<and> (\<forall>i. k \<le> i \<longrightarrow> i < n \<longrightarrow> P div 60 ^ i < V div 60 ^ i) \<and> length ds' = length ds
    \<and> (\<forall>i < length ds. ds' ! i = (if k \<le> i \<and> i < n
         then (V div 60 ^ i - P div 60 ^ i) mod 60 else ds ! i))"
  using assms(5,6)
proof (induction "length ls - k" arbitrary: k ds)
  case 0
  then have k: "k = length ls" by simp
  have "V div 60 ^ k = 0" "P div 60 ^ k = 0"
    using assms position_nonneg [of ls] position_less [of ls] by (auto simp: k)
  then show ?case by (intro exI [of _ k] exI [of _ ds]) (auto simp: walk_loop.simps k)
next
  case (Suc m)
  then have k: "k < length ls" by simp
  show ?case
  proof (cases "V div 60 ^ k = P div 60 ^ k")
    case True
    with k show ?thesis
      by (intro exI [of _ k] exI [of _ ds]) (auto simp: walk_loop.simps)
  next
    case False
    with assms(3) have gt: "P div 60 ^ k < V div 60 ^ k"
      using zdiv_mono1 [of P V "60 ^ k"] by simp
    let ?d = "(V div 60 ^ k - P div 60 ^ k) mod 60"
    have m: "m = length ls - Suc k" using Suc.hyps(2) by simp
    obtain n ds' where *: "walk_loop ls (Suc k) (ds[k := ?d])
          (V div 60 ^ Suc k - P div 60 ^ Suc k) = Inr (n, ds')" "Suc k \<le> n" "n \<le> length ls"
        "V div 60 ^ n = P div 60 ^ n" "\<forall>i. Suc k \<le> i \<longrightarrow> i < n \<longrightarrow> P div 60 ^ i < V div 60 ^ i"
        "length ds' = length ds"
        "\<forall>i < length ds. ds' ! i = (if Suc k \<le> i \<and> i < n
           then (V div 60 ^ i - P div 60 ^ i) mod 60 else ds[k := ?d] ! i)"
      using Suc.hyps(1) [OF m Suc_leI [OF k], of "ds[k := ?d]"] Suc.prems by auto
    show ?thesis
    proof (intro exI conjI allI impI)
      show "walk_loop ls k ds (V div 60 ^ k - P div 60 ^ k) = Inr (n, ds')"
        using walk_loop_step [OF assms(1) k _ assms(2) gt] *(1) k Suc.prems by simp
      show "P div 60 ^ i < V div 60 ^ i" if "k \<le> i" "i < n" for i
        using that *(5) gt by (cases "i = k") auto
      show "ds' ! i = (if k \<le> i \<and> i < n then (V div 60 ^ i - P div 60 ^ i) mod 60 else ds ! i)"
        if "i < length ds" for i
        using that *(2,7) by (cases "i = k") (auto simp: nth_list_update)
    qed (use * in auto)
  qed
qed

section \<open>Shape and contents\<close>

abbreviation pos :: "wheel \<Rightarrow> int" where
  "pos w \<equiv> position (wh_levels w)"

definition level_ok :: "level \<Rightarrow> bool" where
  "level_ok l \<longleftrightarrow> length (lv_events l) = slot_num \<and> lv_current l < slot_num"

definition shape :: "wheel \<Rightarrow> bool" where
  "shape w \<longleftrightarrow> length (wh_levels w) = level_num \<and> (\<forall>l \<in> set (wh_levels w). level_ok l)"

definition contents :: "wheel \<Rightarrow> event_ptr multiset" where
  "contents w = mset (concat (map (\<lambda>l. concat (lv_events l)) (wh_levels w)))"

lemma shapeD [simp]:
  "shape w \<Longrightarrow> length (wh_levels w) = 5"
  "shape w \<Longrightarrow> cursors_ok (wh_levels w)"
  "shape w \<Longrightarrow> i < 5 \<Longrightarrow> length (lv_events (wh_levels w ! i)) = 60"
  "shape w \<Longrightarrow> i < 5 \<Longrightarrow> lv_current (wh_levels w ! i) < 60"
  by (auto simp: shape_def level_ok_def cursors_ok_def)

lemma shape_pos: "shape w \<Longrightarrow> 0 \<le> pos w" "shape w \<Longrightarrow> pos w < 60 ^ 5"
  using position_nonneg position_less [of "wh_levels w"] by (auto simp del: position.simps)

lemma cursor_pos: "shape w \<Longrightarrow> i < 5 \<Longrightarrow> int (lv_current (wh_levels w ! i)) = pos w div 60 ^ i mod 60"
  by (simp add: cursor_digit)

lemma position_cong: "map lv_current ls = map lv_current ls' \<Longrightarrow> position ls = position ls'"
proof (induction ls arbitrary: ls')
  case (Cons l ls)
  then obtain l' ls'' where "ls' = l' # ls''" by (cases ls') simp_all
  with Cons.prems Cons.IH [of ls''] show ?case by simp
qed simp

lemma map_lv_current_update:
  "lv_current l = lv_current (ls ! i) \<Longrightarrow> map lv_current (ls[i := l]) = map lv_current ls"
proof (cases "i < length ls")
  case True
  assume "lv_current l = lv_current (ls ! i)"
  with True list_update_id [of "map lv_current ls" i] show ?thesis by (simp add: map_update)
qed (simp add: list_update_beyond)

lemma set_slot_frame [simp]:
  "wh_now (set_slot L j es w) = wh_now w"
  "pos (set_slot L j es w) = pos w"
  "length (wh_levels (set_slot L j es w)) = length (wh_levels w)"
  by (auto simp: set_slot_def map_lv_current_update intro!: position_cong)

lemma set_slot_shape: "shape w \<Longrightarrow> L < 5 \<Longrightarrow> shape (set_slot L j es w)"
  by (auto simp: shape_def set_slot_def level_ok_def dest!: subsetD [OF set_update_subset_insert])

lemma slot_events_set_slot:
  "shape w \<Longrightarrow> L < 5 \<Longrightarrow> j < 60 \<Longrightarrow>
     slot_events (set_slot L j es w) L' j' = (if L' = L \<and> j' = j then es else slot_events w L' j')"
  by (auto simp: slot_events_def set_slot_def nth_list_update)

lemma set_slot_current [simp]:
  "L < 5 \<Longrightarrow> i < 5 \<Longrightarrow> shape w \<Longrightarrow>
     lv_current (wh_levels (set_slot L j es w) ! i) = lv_current (wh_levels w ! i)"
  by (simp add: set_slot_def nth_list_update)

lemma contents_set_slot:
  assumes "shape w" "L < 5" "j < 60"
  shows "contents (set_slot L j es w) + mset (slot_events w L j) = contents w + mset es"
proof -
  let ?ls = "wh_levels w" and ?f = "\<lambda>l. concat (lv_events l)"
  let ?slots = "lv_events (wh_levels w ! L)"
  have "contents (set_slot L j es w) = mset (concat ((map ?f ?ls)[L := concat (?slots[j := es])]))"
    by (simp add: contents_def set_slot_def map_update)
  then have "contents (set_slot L j es w) + mset (concat ?slots) = contents w + mset (concat (?slots[j := es]))"
    using mset_concat_update [of L "map ?f ?ls"] assms by (simp add: contents_def)
  moreover have "mset (concat (?slots[j := es])) + mset (?slots ! j) = mset (concat ?slots) + mset es"
    using mset_concat_update [of j ?slots] assms by simp
  ultimately show ?thesis
    unfolding slot_events_def by (rule mset_exchange)
qed

section \<open>Where an event is filed\<close>

text \<open>
  The due position of an event, the level of the most significant digit in which a position
  differs from the current one, and the slot of that digit.
\<close>

definition due :: "wheel \<Rightarrow> int \<Rightarrow> int" where
  "due w expire_time = pos w + max 0 ((expire_time - wh_now w) sdiv ticks_per_ms)"

definition home_level :: "int \<Rightarrow> int \<Rightarrow> nat" where
  "home_level V P = (LEAST L. V div 60 ^ Suc L = P div 60 ^ Suc L)"

definition home_slot :: "int \<Rightarrow> int \<Rightarrow> nat" where
  "home_slot V P = nat (V div 60 ^ home_level V P mod 60)"

lemma home_slot_less: "home_slot V P < 60"
  by (simp add: home_slot_def nat_less_iff)

lemma home_level_eq:
  assumes "V div 60 ^ n = P div 60 ^ n" "\<And>i. i < n \<Longrightarrow> P div 60 ^ i < V div 60 ^ i"
  shows "home_level V P = n - 1"
  unfolding home_level_def
proof (rule Least_equality)
  show "V div 60 ^ Suc (n - 1) = P div 60 ^ Suc (n - 1)"
    using assms(1) by (rule div_power_eq_mono) simp
  show "n - 1 \<le> L" if "V div 60 ^ Suc L = P div 60 ^ Suc L" for L
    using assms(2) [of "Suc L"] that by (cases "Suc L < n") auto
qed

lemma same_block:
  fixes v p :: int
  assumes "v div 60 = p div 60" "p \<le> v"
  shows "(v - p) mod 60 = v mod 60 - p mod 60"
proof -
  have "v - p = v mod 60 - p mod 60"
    using mult_div_mod_eq [of 60 v] mult_div_mod_eq [of 60 p] assms(1) by linarith
  moreover have "0 \<le> v mod 60 - p mod 60" "v mod 60 - p mod 60 < 60"
    using assms(2) \<open>v - p = _\<close> pos_mod_bound [of 60 v] pos_mod_sign [of 60 p] by linarith+
  ultimately show ?thesis by simp
qed

lemma home_levelI:
  assumes "P \<le> V" "V < 60 ^ 5" "0 \<le> P"
  shows "home_level V P < 5" "V div 60 ^ Suc (home_level V P) = P div 60 ^ Suc (home_level V P)"
proof -
  have "V div 60 ^ Suc 4 = P div 60 ^ Suc 4" using assms by simp
  then have "home_level V P \<le> 4" "V div 60 ^ Suc (home_level V P) = P div 60 ^ Suc (home_level V P)"
    unfolding home_level_def by - (erule Least_le, erule LeastI)
  then show "home_level V P < 5" "V div 60 ^ Suc (home_level V P) = P div 60 ^ Suc (home_level V P)"
    by auto
qed

lemma insert_loop_home:
  assumes "shape w" "T \<le> 0 \<and> V = pos w \<or> 0 < T \<and> V = pos w + T" "V < 60 ^ 5"
  shows "\<exists>n. insert_loop (wh_levels w) 0 0 T
    = Inr (n, int (home_slot V (pos w)) - int (lv_current (wh_levels w ! home_level V (pos w))))
      \<and> n - 1 = home_level V (pos w)"
proof (cases "0 < T")
  case True
  let ?P = "pos w"
  from True assms have V: "V - ?P = T" "?P < V" "?P \<le> V" by auto
  obtain n s where *: "insert_loop (wh_levels w) 0 0 (V - ?P) = Inr (n, s)" "n \<le> 5"
      "V div 60 ^ n = ?P div 60 ^ n" "\<forall>i. i < n \<longrightarrow> ?P div 60 ^ i < V div 60 ^ i"
      "s = (if n = 0 then 0 else (V div 60 ^ (n - 1) - ?P div 60 ^ (n - 1)) mod 60)"
    using insert_loop_result [OF _ refl V(3), of 0 0] assms(1,3) by auto
  let ?L = "n - 1"
  from *(3) V(2) have n: "0 < n" by (cases n) auto
  have L: "home_level V ?P = ?L" using *(3,4) by (intro home_level_eq) auto
  have "V div 60 ^ ?L div 60 = ?P div 60 ^ ?L div 60"
    using *(3) n div_power_Suc [of _ ?L] by simp
  moreover have "?P div 60 ^ ?L \<le> V div 60 ^ ?L" using *(4) n by (simp add: less_imp_le)
  ultimately have "(V div 60 ^ ?L - ?P div 60 ^ ?L) mod 60 = V div 60 ^ ?L mod 60 - ?P div 60 ^ ?L mod 60"
    by (rule same_block)
  with *(5) n have "s = V div 60 ^ ?L mod 60 - ?P div 60 ^ ?L mod 60" by (metis less_irrefl)
  with *(1,2) n L assms(1) V(1) show ?thesis
    by (intro exI [of _ n]) (simp add: home_slot_def cursor_pos)
next
  case False
  with assms have "V = pos w" by auto
  moreover have "home_level (pos w) (pos w) = 0" by (rule home_level_eq [of _ 0, simplified]) simp
  ultimately show ?thesis
    using False assms(1) by (auto simp: insert_loop.simps home_slot_def cursor_pos)
qed

lemma insert_event_home:
  assumes "shape w" "as_time (ev_extra (h e)) = Some t" "due w t < 60 ^ 5"
  defines "L \<equiv> home_level (due w t) (pos w)" and "j \<equiv> home_slot (due w t) (pos w)"
  shows "insert_event h e w = Inr (set_slot L j (slot_events w L j @ [e]) w)" "L < 5" "j < 60"
proof -
  let ?T = "(t - wh_now w) sdiv ticks_per_ms"
  have P: "0 \<le> pos w" "pos w \<le> due w t" using shape_pos assms(1) by (auto simp: due_def)
  show L: "L < 5" using home_levelI(1) [OF P(2) assms(3) P(1)] by (simp add: L_def)
  show j: "j < 60" by (simp add: j_def home_slot_less)
  have T: "?T \<le> 0 \<and> due w t = pos w \<or> 0 < ?T \<and> due w t = pos w + ?T" by (auto simp: due_def)
  obtain n where n: "insert_loop (wh_levels w) 0 0 ?T = Inr (n, int j - int (lv_current (wh_levels w ! L)))"
      "n - 1 = L"
    using insert_loop_home [OF assms(1) T assms(3)] unfolding L_def j_def by auto
  show "insert_event h e w = Inr (set_slot L j (slot_events w L j @ [e]) w)"
    using assms(1,2) n L j by (simp add: insert_event_def push_slot_def to_end_def)
qed

lemma insert_event_overflow:
  assumes "shape w" "as_time (ev_extra (h e)) = Some t" "60 ^ 5 \<le> due w t"
  shows "insert_event h e w = Inl Out_of_range"
proof -
  let ?T = "(t - wh_now w) sdiv ticks_per_ms"
  have "0 < ?T" "due w t - pos w = ?T"
    using assms(3) shape_pos(2) [OF assms(1)] by (auto simp: due_def max_def split: if_splits)
  moreover have "insert_loop (wh_levels w) 0 0 (due w t - pos w) = Inl Out_of_range"
    using insert_loop_overflow [of "wh_levels w" "pos w" "due w t" 0 0] assms(1,3) by simp
  ultimately show ?thesis using assms(2) by (simp add: insert_event_def)
qed

section \<open>The invariant\<close>

text \<open>
  Slot \<open>j\<close> of level \<open>L\<close> stands for the positions from \<open>slot_start\<close> up to
  \<open>slot_end\<close>; the wheel reads position \<open>p\<close> as the time \<open>base w + 1000 * p\<close>. The base
  grows by the fraction of a millisecond that every \<open>expire\<close> drops; \<open>b\<close> is a lower bound
  of it. An event expires before the end of its slot, read with the current base, and not before
  its start, read with \<open>b\<close>, unless it is in the slot under the lowest cursor. Events are in
  front of the cursor of their level, but for the slots of \<open>X\<close>.
\<close>

definition base :: "wheel \<Rightarrow> int" where
  "base w = wh_now w - 1000 * pos w"

definition slot_start :: "int \<Rightarrow> nat \<Rightarrow> nat \<Rightarrow> int" where
  "slot_start P L j = (60 * (P div 60 ^ Suc L) + int j) * 60 ^ L"

definition slot_end :: "int \<Rightarrow> nat \<Rightarrow> nat \<Rightarrow> int" where
  "slot_end P L j = slot_start P L j + 60 ^ L"

definition filed :: "int \<Rightarrow> nat \<Rightarrow> nat \<Rightarrow> bool" where
  "filed P L j \<longleftrightarrow> P div 60 ^ L mod 60 < int j \<or> L = 0 \<and> int j = P mod 60"

definition event_ok :: "heap \<Rightarrow> int \<Rightarrow> wheel \<Rightarrow> nat \<Rightarrow> nat \<Rightarrow> event_ptr \<Rightarrow> bool" where
  "event_ok h b w L j e \<longleftrightarrow> (\<exists>t. as_time (ev_extra (h e)) = Some t
     \<and> t < base w + 1000 * slot_end (pos w) L j
     \<and> (b + 1000 * slot_start (pos w) L j \<le> t \<or> L = 0 \<and> int j = pos w mod 60))"

definition wheel_inv :: "heap \<Rightarrow> int \<Rightarrow> (nat \<times> nat) set \<Rightarrow> wheel \<Rightarrow> bool" where
  "wheel_inv h b X w \<longleftrightarrow> shape w \<and> b \<le> base w
     \<and> (\<forall>L<5. \<forall>j<60. \<forall>e \<in> set (slot_events w L j).
          event_ok h b w L j e \<and> (filed (pos w) L j \<or> (L, j) \<in> X))"

lemma home_slot_bounds:
  assumes "P \<le> V" "V < 60 ^ 5" "0 \<le> P"
  defines "L \<equiv> home_level V P" and "j \<equiv> home_slot V P"
  shows "slot_start P L j \<le> V" "V < slot_end P L j" "filed P L j"
proof -
  let ?v = "V div 60 ^ L" and ?p = "P div 60 ^ L"
  have same: "?v div 60 = ?p div 60"
    using home_levelI(2) [OF assms(1-3)] by (simp add: L_def div_power_Suc del: power_Suc)
  have start: "slot_start P L j = ?v * 60 ^ L"
    by (simp add: slot_start_def j_def home_slot_def L_def [symmetric] div_power_Suc same [symmetric]
        del: power_Suc)
  have V: "V = ?v * 60 ^ L + V mod 60 ^ L" "0 \<le> V mod 60 ^ L" "V mod 60 ^ L < 60 ^ L"
    by (simp_all add: div_mult_mod_eq)
  from start V show "slot_start P L j \<le> V" "V < slot_end P L j"
    unfolding slot_end_def by linarith+
  have "?p \<le> ?v" using assms(1) by (simp add: zdiv_mono1)
  moreover have "?p \<noteq> ?v" if "0 < L"
  proof
    assume "?p = ?v"
    with that have "V div 60 ^ Suc (L - 1) = P div 60 ^ Suc (L - 1)" by simp
    then have "L \<le> L - 1" unfolding L_def home_level_def by (rule Least_le)
    with that show False by simp
  qed
  moreover have "?v - ?p = ?v mod 60 - ?p mod 60"
    using same mult_div_mod_eq [of 60 ?v] mult_div_mod_eq [of 60 ?p] by linarith
  moreover have "int j = ?v mod 60" by (simp add: j_def home_slot_def L_def)
  ultimately show "filed P L j"
    unfolding filed_def by (cases "L = 0") auto
qed

lemma wheel_inv_shape: "wheel_inv h b X w \<Longrightarrow> shape w" and wheel_inv_base: "wheel_inv h b X w \<Longrightarrow> b \<le> base w"
  by (simp_all add: wheel_inv_def)

lemma wheel_invD:
  assumes "wheel_inv h b X w" "L < 5" "j < 60" "e \<in> set (slot_events w L j)"
  shows "event_ok h b w L j e" "filed (pos w) L j \<or> (L, j) \<in> X"
  using assms by (auto simp: wheel_inv_def)

lemma set_slot_base [simp]: "base (set_slot L j es w) = base w"
  by (simp add: base_def)

lemma event_ok_set_slot [simp]: "event_ok h b (set_slot L' j' es w) L j e = event_ok h b w L j e"
  by (simp add: event_ok_def)

text \<open>Replacing the events of one slot by ones that fit there.\<close>

lemma wheel_inv_set_slot:
  assumes "wheel_inv h b X w" "L < 5" "j < 60"
    and "\<And>e. e \<in> set es \<Longrightarrow> event_ok h b w L j e \<and> (filed (pos w) L j \<or> (L, j) \<in> Y)"
    and "X \<subseteq> insert (L, j) Y"
  shows "wheel_inv h b Y (set_slot L j es w)"
proof -
  have "event_ok h b w L' j' e \<and> (filed (pos w) L' j' \<or> (L', j') \<in> Y)"
    if "L' < 5" "j' < 60" "e \<in> set (slot_events (set_slot L j es w) L' j')" for L' j' e
  proof (cases "L' = L \<and> j' = j")
    case True
    with that assms wheel_inv_shape [OF assms(1)] show ?thesis by (simp add: slot_events_set_slot)
  next
    case False
    with that assms wheel_inv_shape [OF assms(1)] have "e \<in> set (slot_events w L' j')"
      by (auto simp: slot_events_set_slot)
    with wheel_invD [OF assms(1) that(1,2)] assms(5) False show ?thesis by auto
  qed
  with assms set_slot_shape [of w L j es] show ?thesis by (simp add: wheel_inv_def)
qed

lemma sdiv_bounds:
  fixes x :: int
  shows "x < 1000 * (max 0 (x sdiv 1000) + 1)" "0 < x sdiv 1000 \<Longrightarrow> 1000 * (x sdiv 1000) \<le> x"
proof -
  have "x < 1000 * (x sdiv 1000 + 1) \<and> 1000 * (x sdiv 1000) \<le> x" if "0 \<le> x"
    using mult_div_mod_eq [of 1000 x] pos_mod_bound [of 1000 x] pos_mod_sign [of 1000 x]
    unfolding sdiv_nonneg [OF that zero_less_numeral] by auto
  moreover have "x sdiv 1000 \<le> 0" if "x < 0" using that sdiv_le_0 [of x 1000] by simp
  ultimately show "x < 1000 * (max 0 (x sdiv 1000) + 1)" "0 < x sdiv 1000 \<Longrightarrow> 1000 * (x sdiv 1000) \<le> x"
    by (cases "0 \<le> x"; auto)+
qed

lemma due_bounds:
  shows "t < base w + 1000 * (due w t + 1)"
    and "due w t \<noteq> pos w \<Longrightarrow> base w + 1000 * due w t \<le> t"
  using sdiv_bounds [of "t - wh_now w"] by (auto simp: due_def base_def max_def split: if_splits)

lemma home_event_ok:
  assumes "shape w" "as_time (ev_extra (h e)) = Some t" "due w t < 60 ^ 5" "b \<le> base w"
  defines "L \<equiv> home_level (due w t) (pos w)" and "j \<equiv> home_slot (due w t) (pos w)"
  shows "event_ok h b w L j e" "filed (pos w) L j"
proof -
  have P: "pos w \<le> due w t" "0 \<le> pos w" using shape_pos [OF assms(1)] by (auto simp: due_def)
  note * = home_slot_bounds [OF P(1) assms(3) P(2), folded L_def j_def]
  show "filed (pos w) L j" by (rule *(3))
  have lo: "b + 1000 * slot_start (pos w) L j \<le> t \<or> L = 0 \<and> int j = pos w mod 60"
  proof (cases "due w t = pos w")
    case True
    then have "L = 0" unfolding L_def by (simp add: home_level_def Least_eq_0)
    with True show ?thesis by (simp add: j_def home_slot_def L_def)
  next
    case False
    with due_bounds(2) [of w t] *(1) assms(4) show ?thesis by auto
  qed
  have "t < base w + 1000 * slot_end (pos w) L j" using due_bounds(1) [of t w] *(2) by auto
  with assms(2) lo show "event_ok h b w L j e" by (auto simp: event_ok_def)
qed

lemma insert_event_inv:
  assumes "wheel_inv h b X w" "as_time (ev_extra (h e)) = Some t" "due w t < 60 ^ 5"
  shows "\<exists>w'. insert_event h e w = Inr w' \<and> wheel_inv h b X w' \<and> wh_now w' = wh_now w
           \<and> pos w' = pos w \<and> contents w' = add_mset e (contents w)"
proof -
  note shape = wheel_inv_shape [OF assms(1)]
  let ?L = "home_level (due w t) (pos w)" and ?j = "home_slot (due w t) (pos w)"
  let ?w' = "set_slot ?L ?j (slot_events w ?L ?j @ [e]) w"
  note home = insert_event_home [where h = h and e = e, OF shape assms(2,3)]
  have "wheel_inv h b X ?w'"
    using assms(1) home(2,3) home_event_ok [where h = h and e = e, OF shape assms(2,3) wheel_inv_base [OF assms(1)]]
      wheel_invD [OF assms(1) home(2,3)]
    by (intro wheel_inv_set_slot) auto
  moreover have "contents ?w' = add_mset e (contents w)"
    using contents_set_slot [OF shape home(2,3), of "slot_events w ?L ?j @ [e]"] by simp
  ultimately show ?thesis using home(1) by simp
qed

section \<open>Moving slots out\<close>

lemma drain_add: "drain (m + n) s slots ev = (case drain m s slots ev of (s', slots', ev') \<Rightarrow> drain n s' slots' ev')"
  by (induction m arbitrary: s slots ev) auto

lemma drain_straight:
  assumes "length slots = 60" "s < 60" "s + n \<le> 60"
  shows "\<exists>slots' new. drain n s slots ev = ((s + n) mod 60, slots', ev @ new) \<and> length slots' = 60
    \<and> (\<forall>j<60. slots' ! j = (if s \<le> j \<and> j < s + n then [] else slots ! j))
    \<and> mset new + mset (concat slots') = mset (concat slots)
    \<and> (\<forall>e \<in> set new. \<exists>j. s \<le> j \<and> j < s + n \<and> e \<in> set (slots ! j))"
  using assms
proof (induction n arbitrary: s slots ev)
  case (Suc n)
  show ?case
  proof (cases n)
    case 0
    have "mset (slots ! s) + mset (concat (slots[s := []])) = mset (concat slots)"
      using mset_concat_update [of s slots "[]"] Suc.prems by (simp add: ac_simps)
    with 0 Suc.prems show ?thesis
      by (intro exI [of _ "slots[s := []]"] exI [of _ "slots ! s"])
        (auto simp: next_slot_def nth_list_update)
  next
    case (Suc m)
    with Suc.prems have s: "next_slot s = Suc s" "Suc s < 60" by (auto simp: next_slot_def)
    obtain slots' new where *: "drain n (Suc s) (slots[s := []]) (ev @ slots ! s)
          = ((Suc s + n) mod 60, slots', (ev @ slots ! s) @ new)" "length slots' = 60"
        "\<forall>j<60. slots' ! j = (if Suc s \<le> j \<and> j < Suc s + n then [] else slots[s := []] ! j)"
        "mset new + mset (concat slots') = mset (concat (slots[s := []]))"
        "\<forall>e \<in> set new. \<exists>j. Suc s \<le> j \<and> j < Suc s + n \<and> e \<in> set (slots[s := []] ! j)"
      using Suc.IH [of "slots[s := []]" "Suc s" "ev @ slots ! s"] Suc.prems s by auto
    show ?thesis
    proof (rule exI, rule exI, intro conjI allI ballI impI)
      show "drain (Suc n) s slots ev = ((s + Suc n) mod 60, slots', ev @ (slots ! s @ new))"
        using *(1) s by simp
      show "slots' ! j = (if s \<le> j \<and> j < s + Suc n then [] else slots ! j)" if "j < 60" for j
        using that *(3) Suc.prems by (auto simp: nth_list_update)
      show "mset (slots ! s @ new) + mset (concat slots') = mset (concat slots)"
        using mset_concat_update [of s slots "[]"] Suc.prems unfolding *(4) [symmetric]
        by (simp add: ac_simps)
      show "\<exists>j. s \<le> j \<and> j < s + Suc n \<and> e \<in> set (slots ! j)" if "e \<in> set (slots ! s @ new)" for e
      proof (cases "e \<in> set (slots ! s)")
        case True
        then show ?thesis by (intro exI [of _ s]) simp
      next
        case False
        with that *(5) obtain j where "Suc s \<le> j" "j < Suc s + n" "e \<in> set (slots ! j)" by auto
        then show ?thesis by (intro exI [of _ j]) simp
      qed
    qed (rule *(2))
  qed
qed auto

lemma drain_all:
  assumes "length slots = 60" "s < 60"
  shows "\<exists>new. drain 60 s slots ev = (s, replicate 60 [], ev @ new) \<and> mset new = mset (concat slots)"
proof -
  obtain slots1 new1 where 1: "drain (60 - s) s slots ev = (0, slots1, ev @ new1)" "length slots1 = 60"
      "\<forall>j<60. slots1 ! j = (if s \<le> j then [] else slots ! j)"
      "mset new1 + mset (concat slots1) = mset (concat slots)"
    using drain_straight [of slots s "60 - s" ev] assms by auto
  obtain slots2 new2 where 2: "drain s 0 slots1 (ev @ new1) = (s, slots2, (ev @ new1) @ new2)"
      "length slots2 = 60" "\<forall>j<60. slots2 ! j = (if j < s then [] else slots1 ! j)"
      "mset new2 + mset (concat slots2) = mset (concat slots1)"
    using drain_straight [of slots1 0 s "ev @ new1"] 1(2) assms by auto
  have r: "slots2 = replicate 60 []" using 1(3) 2(2,3) by (intro nth_equalityI) auto
  have "drain 60 s slots ev = drain ((60 - s) + s) s slots ev" using assms by simp
  also have "\<dots> = (s, slots2, ev @ (new1 @ new2))" using 1(1) 2(1) by (simp only: drain_add) simp
  finally show ?thesis using r 1(4) 2(4) by (intro exI [of _ "new1 @ new2"]) auto
qed

lemma wrap_mod:
  fixes c d :: int
  assumes "0 \<le> c" "c < 60" "0 \<le> d" "d < 60"
  shows "(c + d) mod 60 = (if 60 - c \<le> d then c + d - 60 else c + d)"
proof (cases "60 - c \<le> d")
  case True
  have "(c + d) mod 60 = (c + d - 60) mod 60" by simp
  also have "\<dots> = c + d - 60" using assms True by (intro mod_pos_pos_trivial) auto
  finally show ?thesis using True by simp
qed (use assms in simp)

lemma flush_level_ok:
  assumes "level_ok l" "0 \<le> d" "d < 60"
  shows "\<exists>l' new. flush_level d l ev = (l', ev @ new) \<and> lv_events l' = replicate 60 []
    \<and> int (lv_current l') = (int (lv_current l) + d) mod 60 \<and> mset new = mset (concat (lv_events l))"
proof -
  have c: "lv_current l < 60" "length (lv_events l) = 60" using assms(1) by (auto simp: level_ok_def)
  from drain_all [OF c(2,1)] obtain new where
    "drain 60 (lv_current l) (lv_events l) ev = (lv_current l, replicate 60 [], ev @ new)"
    "mset new = mset (concat (lv_events l))" by blast
  with wrap_mod [of "int (lv_current l)" d] assms(2,3) c(1) show ?thesis
    by (simp add: flush_level_def)
qed

lemma mset_level_update:
  assumes "L < length ls" "mset new + mset (concat (lv_events l)) = mset (concat (lv_events (ls ! L)))"
  shows "mset (concat (map (\<lambda>l. concat (lv_events l)) (ls[L := l]))) + mset new = mset (concat (map (\<lambda>l. concat (lv_events l)) ls))"
proof -
  let ?f = "\<lambda>l. concat (lv_events l)"
  have "mset (concat (map ?f (ls[L := l]))) + mset (?f (ls ! L)) = mset (concat (map ?f ls)) + mset (?f l)"
    using mset_concat_update [of L "map ?f ls" "?f l"] assms(1) by (simp add: map_update)
  then show ?thesis unfolding assms(2) [symmetric] by (simp add: ac_simps)
qed

lemma flush_levels_ok:
  assumes "\<forall>k<length ls. level_ok (ls ! k)" "i + n \<le> length ls" "\<forall>k. i \<le> k \<longrightarrow> k < i + n \<longrightarrow> 0 \<le> ds ! k \<and> ds ! k < 60"
  shows "\<exists>ls' new. flush_levels ds i n ls ev = (ls', ev @ new) \<and> length ls' = length ls
    \<and> (\<forall>k. i \<le> k \<longrightarrow> k < i + n \<longrightarrow> lv_events (ls' ! k) = replicate 60 []
         \<and> int (lv_current (ls' ! k)) = (int (lv_current (ls ! k)) + ds ! k) mod 60)
    \<and> (\<forall>k. k < i \<or> i + n \<le> k \<longrightarrow> ls' ! k = ls ! k)
    \<and> mset new + mset (concat (map (\<lambda>l. concat (lv_events l)) ls')) = mset (concat (map (\<lambda>l. concat (lv_events l)) ls))
    \<and> (\<forall>e \<in> set new. \<exists>k. i \<le> k \<and> k < i + n \<and> e \<in> set (concat (lv_events (ls ! k))))"
  using assms
proof (induction n arbitrary: i ls ev)
  case 0
  show ?case by (intro exI [of _ ls] exI [of _ "[]"]) simp
next
  case (Suc n)
  then have i: "i < length ls" "level_ok (ls ! i)" "0 \<le> ds ! i" "ds ! i < 60" by auto
  let ?f = "\<lambda>l. concat (lv_events l)"
  obtain l new1 where 1: "flush_level (ds ! i) (ls ! i) ev = (l, ev @ new1)" "lv_events l = replicate 60 []"
      "int (lv_current l) = (int (lv_current (ls ! i)) + ds ! i) mod 60" "mset new1 = mset (?f (ls ! i))"
    using flush_level_ok [OF i(2-4), of ev] by blast
  have "level_ok l" using 1(2,3) by (auto simp: level_ok_def)
  with Suc.prems i(1) have ok: "\<forall>k<length (ls[i := l]). level_ok (ls[i := l] ! k)" by (simp add: nth_list_update)
  have len: "Suc i + n \<le> length (ls[i := l])" using Suc.prems by simp
  have ds: "\<forall>k. Suc i \<le> k \<longrightarrow> k < Suc i + n \<longrightarrow> 0 \<le> ds ! k \<and> ds ! k < 60" using Suc.prems(3) by simp
  from Suc.IH [OF ok len ds, of "ev @ new1", unfolded length_list_update] obtain ls' new where *: "flush_levels ds (Suc i) n (ls[i := l]) (ev @ new1) = (ls', (ev @ new1) @ new)"
      "length ls' = length ls" "\<forall>k. Suc i \<le> k \<longrightarrow> k < Suc i + n \<longrightarrow> lv_events (ls' ! k) = replicate 60 []
         \<and> int (lv_current (ls' ! k)) = (int (lv_current (ls[i := l] ! k)) + ds ! k) mod 60"
      "\<forall>k. k < Suc i \<or> Suc i + n \<le> k \<longrightarrow> ls' ! k = ls[i := l] ! k"
      "mset new + mset (concat (map ?f ls')) = mset (concat (map ?f (ls[i := l])))"
      "\<forall>e \<in> set new. \<exists>k. Suc i \<le> k \<and> k < Suc i + n \<and> e \<in> set (?f (ls[i := l] ! k))"
    by blast
  have "mset (concat (map ?f (ls[i := l]))) + mset new1 = mset (concat (map ?f ls))"
    by (rule mset_level_update [OF i(1)]) (simp add: 1(2,4))
  then have "mset (new1 @ new) + mset (concat (map ?f ls')) = mset (concat (map ?f ls))"
    unfolding *(5) [symmetric] by (simp add: ac_simps)
  moreover have "\<exists>k. i \<le> k \<and> k < i + Suc n \<and> e \<in> set (?f (ls ! k))" if "e \<in> set (new1 @ new)" for e
  proof (cases "e \<in> set new1")
    case True
    with mset_eq_setD [OF 1(4)] show ?thesis by (intro exI [of _ i]) simp
  next
    case False
    with that have "e \<in> set new" by simp
    with *(6) obtain k where "Suc i \<le> k" "k < Suc i + n" "e \<in> set (?f (ls[i := l] ! k))" by blast
    then show ?thesis by (intro exI [of _ k]) simp
  qed
  moreover have "lv_events (ls' ! k) = replicate 60 []
      \<and> int (lv_current (ls' ! k)) = (int (lv_current (ls ! k)) + ds ! k) mod 60" if "i \<le> k" "k < i + Suc n" for k
  proof (cases "k = i")
    case True
    with *(4) [rule_format, of i] 1(2,3) i(1) show ?thesis by simp
  next
    case False
    with that *(3) [rule_format, of k] show ?thesis by simp
  qed
  moreover have "ls' ! k = ls ! k" if "k < i \<or> i + Suc n \<le> k" for k
    using that *(4) [rule_format, of k] by auto
  moreover have "flush_levels ds i (Suc n) ls ev = (ls', ev @ new1 @ new)" using *(1) 1(1) by simp
  ultimately show ?case
    using *(2) by (intro exI [of _ ls'] exI [of _ "new1 @ new"]) (intro conjI allI impI ballI; simp only:)
qed

lemma advance_level_ok:
  assumes "level_ok l" "0 \<le> d" "int (lv_current l) + d < 60"
  shows "\<exists>l' new. advance_level d l ev = (l', ev @ new) \<and> level_ok l'
    \<and> int (lv_current l') = int (lv_current l) + d
    \<and> (\<forall>j<60. lv_events l' ! j = (if lv_current l \<le> j \<and> j < lv_current l' then [] else lv_events l ! j))
    \<and> mset new + mset (concat (lv_events l')) = mset (concat (lv_events l))
    \<and> (\<forall>e \<in> set new. \<exists>j. lv_current l \<le> j \<and> j < lv_current l' \<and> e \<in> set (lv_events l ! j))"
proof -
  have c: "lv_current l < 60" "length (lv_events l) = 60" "lv_current l + nat d \<le> 60" "lv_current l + nat d < 60"
    using assms by (auto simp: level_ok_def)
  from drain_straight [OF c(2,1,3), of ev] obtain slots' new where *:
    "drain (nat d) (lv_current l) (lv_events l) ev = (lv_current l + nat d, slots', ev @ new)" "length slots' = 60"
    "\<forall>j<60. slots' ! j = (if lv_current l \<le> j \<and> j < lv_current l + nat d then [] else lv_events l ! j)"
    "mset new + mset (concat slots') = mset (concat (lv_events l))"
    "\<forall>e \<in> set new. \<exists>j. lv_current l \<le> j \<and> j < lv_current l + nat d \<and> e \<in> set (lv_events l ! j)"
    unfolding mod_less [OF c(4)] by blast
  then show ?thesis
    using assms(2) c(4)
    by (intro exI [of _ "\<lparr>lv_events = slots', lv_current = lv_current l + nat d\<rparr>"] exI [of _ new])
      (simp add: advance_level_def level_ok_def)
qed

section \<open>Moving the cursors\<close>

text \<open>
  What the loops of \<open>walk\<close> do to the levels when the position goes from \<open>P\<close> to \<open>V\<close>
  and \<open>L\<close> is the top level that moves: every cursor becomes a digit of \<open>V\<close>, and the slots
  that are passed, exactly those, are emptied.
\<close>

definition passed :: "int \<Rightarrow> int \<Rightarrow> nat \<Rightarrow> nat \<Rightarrow> nat \<Rightarrow> bool" where
  "passed P V L i j \<longleftrightarrow> i < L \<or> i = L \<and> P div 60 ^ i mod 60 \<le> int j \<and> int j < V div 60 ^ i mod 60"

definition top_level :: "int \<Rightarrow> int \<Rightarrow> nat \<Rightarrow> bool" where
  "top_level P V L \<longleftrightarrow> L < 5 \<and> V div 60 ^ Suc L = P div 60 ^ Suc L
     \<and> (\<forall>i. 0 < i \<longrightarrow> i \<le> L \<longrightarrow> P div 60 ^ i < V div 60 ^ i)"

definition moved :: "int \<Rightarrow> int \<Rightarrow> nat \<Rightarrow> level list \<Rightarrow> level list \<Rightarrow> bool" where
  "moved P V L ls ls' \<longleftrightarrow> length ls' = 5 \<and> (\<forall>i<5. level_ok (ls' ! i)
     \<and> int (lv_current (ls' ! i)) = V div 60 ^ i mod 60
     \<and> (\<forall>j<60. lv_events (ls' ! i) ! j = (if passed P V L i j then [] else lv_events (ls ! i) ! j)))"

lemma top_level_digit:
  assumes "top_level P V L" "P \<le> V"
  shows "(V div 60 ^ L - P div 60 ^ L) mod 60 = V div 60 ^ L mod 60 - P div 60 ^ L mod 60"
    and "P div 60 ^ L mod 60 \<le> V div 60 ^ L mod 60"
proof -
  have 1: "V div 60 ^ L div 60 = P div 60 ^ L div 60"
    using assms(1) by (simp add: top_level_def div_power_Suc del: power_Suc)
  have 2: "P div 60 ^ L \<le> V div 60 ^ L" using assms(2) by (simp add: zdiv_mono1)
  show *: "(V div 60 ^ L - P div 60 ^ L) mod 60 = V div 60 ^ L mod 60 - P div 60 ^ L mod 60"
    using 1 2 by (rule same_block)
  have "0 \<le> (V div 60 ^ L - P div 60 ^ L) mod 60" by simp
  with * show "P div 60 ^ L mod 60 \<le> V div 60 ^ L mod 60" by linarith
qed

lemma digit_add: "(P div 60 ^ i mod 60 + (V div 60 ^ i - P div 60 ^ i) mod 60) mod 60 = V div 60 ^ i mod 60"
  for P V :: int
  by (simp add: mod_add_eq)

lemma top_level_above:
  assumes "top_level P V L" "L < i"
  shows "V div 60 ^ i = P div 60 ^ i"
  using assms div_power_eq_mono [of V "Suc L" P i] by (simp add: top_level_def del: power_Suc)

lemma walk_loop_top:
  assumes "shape w" "pos w \<le> V" "V < 60 ^ 5"
  shows "\<exists>n ds. walk_loop (wh_levels w) 0 (replicate 60 0) (V - pos w) = Inr (n, ds)
    \<and> top_level (pos w) V (n - 1)
    \<and> (\<forall>i \<le> n - 1. ds ! i = (V div 60 ^ i - pos w div 60 ^ i) mod 60)"
proof -
  let ?P = "pos w"
  obtain n ds where *: "walk_loop (wh_levels w) 0 (replicate 60 0) (V - ?P) = Inr (n, ds)" "n \<le> 5"
      "V div 60 ^ n = ?P div 60 ^ n" "\<forall>i. i < n \<longrightarrow> ?P div 60 ^ i < V div 60 ^ i"
      "\<forall>i<60. ds ! i = (if i < n then (V div 60 ^ i - ?P div 60 ^ i) mod 60 else replicate 60 0 ! i)"
    using walk_loop_result [OF _ refl assms(2), of 0 "replicate 60 0"] assms by auto
  have "top_level ?P V (n - 1)"
    using *(2-4) div_power_eq_mono [OF *(3), of "Suc (n - 1)"] by (auto simp: top_level_def simp del: power_Suc)
  moreover have "ds ! i = (V div 60 ^ i - ?P div 60 ^ i) mod 60" if "i \<le> n - 1" for i
  proof (cases n)
    case 0
    with that *(3,5) show ?thesis by simp
  next
    case (Suc m)
    with that *(2,5) show ?thesis by simp
  qed
  ultimately show ?thesis using *(1) by blast
qed

lemma movedI:
  assumes "shape w" "top_level (pos w) V L" "length ls = 5"
    and lower: "\<And>i. i < L \<Longrightarrow> lv_events (ls ! i) = replicate 60 []
       \<and> int (lv_current (ls ! i)) = (int (lv_current (wh_levels w ! i)) + ds ! i) mod 60"
    and upper: "\<And>i. L \<le> i \<Longrightarrow> ls ! i = wh_levels w ! i"
    and ds: "\<forall>i \<le> L. ds ! i = (V div 60 ^ i - pos w div 60 ^ i) mod 60"
    and l: "level_ok l" "int (lv_current l) = V div 60 ^ L mod 60"
      "\<forall>j<60. lv_events l ! j = (if passed (pos w) V L L j then [] else lv_events (wh_levels w ! L) ! j)"
  shows "moved (pos w) V L (wh_levels w) (ls[L := l])"
proof -
  have "level_ok (ls[L := l] ! i) \<and> int (lv_current (ls[L := l] ! i)) = V div 60 ^ i mod 60
      \<and> (\<forall>j<60. lv_events (ls[L := l] ! i) ! j
           = (if passed (pos w) V L i j then [] else lv_events (wh_levels w ! i) ! j))" if i: "i < 5" for i
  proof -
    consider "i < L" | "i = L" | "L < i" by linarith
    then show ?thesis
    proof cases
      case 1
      with lower [of i] cursor_pos [OF assms(1) i] ds digit_add [of "pos w" i V]
      show ?thesis by (auto simp: level_ok_def passed_def)
    next
      case 2
      with i l assms(3) show ?thesis by simp
    next
      case 3
      with upper [of i] i assms(1) cursor_pos [OF assms(1) i] top_level_above [OF assms(2) 3] show ?thesis
        by (simp add: passed_def shape_def)
    qed
  qed
  with assms(3) show ?thesis by (simp add: moved_def)
qed

lemma passed_below:
  assumes "shape w" "L < 5" "k < L" "e \<in> set (concat (lv_events (wh_levels w ! k)))"
  shows "\<exists>j < 60. passed P V L k j \<and> e \<in> set (slot_events w k j)"
proof -
  obtain es where "es \<in> set (lv_events (wh_levels w ! k))" "e \<in> set es" using assms(4) by auto
  then obtain j where "j < length (lv_events (wh_levels w ! k))" "e \<in> set (lv_events (wh_levels w ! k) ! j)"
    using in_set_conv_nth [of es] by auto
  with assms(1-3) show ?thesis by (intro exI [of _ j]) (simp add: passed_def slot_events_def)
qed

lemma walk_levels:
  assumes "shape w" "pos w \<le> V" "top_level (pos w) V L"
    and ds: "\<forall>i \<le> L. ds ! i = (V div 60 ^ i - pos w div 60 ^ i) mod 60"
  shows "\<exists>ls l ev1 new. flush_levels ds 0 L (wh_levels w) ev = (ls, ev1)
    \<and> advance_level (ds ! L) (ls ! L) ev1 = (l, ev @ new) \<and> moved (pos w) V L (wh_levels w) (ls[L := l])
    \<and> length ls = 5
    \<and> mset new + mset (concat (map (\<lambda>l. concat (lv_events l)) (ls[L := l]))) = contents w
    \<and> (\<forall>e \<in> set new. \<exists>i j. i \<le> L \<and> j < 60 \<and> passed (pos w) V L i j \<and> e \<in> set (slot_events w i j))"
proof -
  let ?P = "pos w" and ?ls = "wh_levels w" and ?f = "\<lambda>l. concat (lv_events l)"
  have L: "L < 5" using assms(3) by (simp add: top_level_def)
  have ok: "\<forall>k<length ?ls. level_ok (?ls ! k)" using assms(1) by (simp add: shape_def)
  have d: "\<forall>k. 0 \<le> k \<longrightarrow> k < 0 + L \<longrightarrow> 0 \<le> ds ! k \<and> ds ! k < 60" using ds by simp
  have len: "0 + L \<le> length ?ls" using assms(1) L by simp
  from flush_levels_ok [OF ok len d, of ev] obtain ls new1 where F:
      "flush_levels ds 0 L ?ls ev = (ls, ev @ new1)" "length ls = length ?ls"
      "\<forall>k. 0 \<le> k \<longrightarrow> k < 0 + L \<longrightarrow> lv_events (ls ! k) = replicate 60 []
         \<and> int (lv_current (ls ! k)) = (int (lv_current (?ls ! k)) + ds ! k) mod 60"
      "\<forall>k. k < 0 \<or> 0 + L \<le> k \<longrightarrow> ls ! k = ?ls ! k"
      "mset new1 + mset (concat (map ?f ls)) = mset (concat (map ?f ?ls))"
      "\<forall>e \<in> set new1. \<exists>k. 0 \<le> k \<and> k < 0 + L \<and> e \<in> set (?f (?ls ! k))" by blast
  have lsL: "ls ! L = ?ls ! L" using F(4) by simp
  have c: "int (lv_current (?ls ! L)) = ?P div 60 ^ L mod 60" using cursor_pos [OF assms(1) L] .
  note top = top_level_digit [OF assms(3,2)]
  have dL: "ds ! L = V div 60 ^ L mod 60 - ?P div 60 ^ L mod 60" using ds top(1) by simp
  have "0 \<le> ds ! L" "int (lv_current (ls ! L)) + ds ! L < 60" using dL top(2) c lsL by auto
  moreover have "level_ok (ls ! L)" using ok lsL L assms(1) by simp
  ultimately obtain l new2 where A: "advance_level (ds ! L) (ls ! L) (ev @ new1) = (l, (ev @ new1) @ new2)"
      "level_ok l" "int (lv_current l) = int (lv_current (ls ! L)) + ds ! L"
      "\<forall>j<60. lv_events l ! j = (if lv_current (ls ! L) \<le> j \<and> j < lv_current l then [] else lv_events (ls ! L) ! j)"
      "mset new2 + mset (?f l) = mset (?f (ls ! L))"
      "\<forall>e \<in> set new2. \<exists>j. lv_current (ls ! L) \<le> j \<and> j < lv_current l \<and> e \<in> set (lv_events (ls ! L) ! j)"
    using advance_level_ok [of "ls ! L" "ds ! L" "ev @ new1"] by blast
  have cl: "int (lv_current l) = V div 60 ^ L mod 60" using A(3) dL c lsL by simp
  have pL: "passed ?P V L L j \<longleftrightarrow> lv_current (ls ! L) \<le> j \<and> j < lv_current l" for j
    using c cl lsL by (auto simp: passed_def)
  have "moved ?P V L ?ls (ls[L := l])"
    using F(2-4) A(4) lsL assms(1) pL by (intro movedI [OF assms(1,3) _ _ _ ds A(2) cl]) auto
  moreover have "mset (new1 @ new2) + mset (concat (map ?f (ls[L := l]))) = contents w"
  proof -
    have "L < length ls" using F(2) L assms(1) by simp
    from mset_level_update [OF this A(5)] show ?thesis unfolding contents_def F(5) [symmetric] by (simp add: ac_simps)
  qed
  moreover have "\<exists>i j. i \<le> L \<and> j < 60 \<and> passed ?P V L i j \<and> e \<in> set (slot_events w i j)"
    if "e \<in> set (new1 @ new2)" for e
  proof (cases "e \<in> set new1")
    case True
    with F(6) obtain k where k: "k < L" "e \<in> set (?f (?ls ! k))" unfolding add_0 by blast
    from passed_below [OF assms(1) L this] k(1) show ?thesis by (meson less_imp_le)
  next
    case False
    with that A(6) obtain j where "passed ?P V L L j" "e \<in> set (lv_events (ls ! L) ! j)" "j < lv_current l"
      unfolding pL by auto
    with lsL A(2) show ?thesis by (intro exI [of _ L] exI [of _ j]) (simp add: slot_events_def level_ok_def)
  qed
  moreover have "length ls = 5" using F(2) assms(1) by simp
  ultimately show ?thesis using F(1) A(1) unfolding append_assoc by blast
qed

text \<open>The new position is \<open>V\<close>.\<close>

lemma position_digits:
  "\<forall>i<length ls. int (lv_current (ls ! i)) = V div 60 ^ i mod 60 \<Longrightarrow> position ls = V mod 60 ^ length ls"
proof (induction ls arbitrary: V)
  case (Cons l ls)
  have "int (lv_current (ls ! i)) = V div 60 div 60 ^ i mod 60" if "i < length ls" for i
    using Cons.prems [rule_format, of "Suc i"] that by (simp add: zdiv_zmult2_eq)
  then have "position ls = V div 60 mod 60 ^ length ls" using Cons.IH by simp
  moreover have "int (lv_current l) = V mod 60" using Cons.prems [rule_format, of 0] by simp
  ultimately show ?case by (simp add: zmod_zmult2_eq)
qed simp

lemma moved_shape:
  assumes "moved P V L ls ls'" "0 \<le> V" "V < 60 ^ 5"
  shows "shape \<lparr>wh_levels = ls', wh_now = t\<rparr>" "position ls' = V"
proof -
  show "shape \<lparr>wh_levels = ls', wh_now = t\<rparr>"
    using assms(1) by (auto simp: moved_def shape_def in_set_conv_nth)
  show "position ls' = V"
    using position_digits [of ls' V] assms by (simp add: moved_def)
qed

text \<open>A slot that is passed ends before the new position; a slot in front of its cursor starts after it.\<close>

lemma slot_end_block: "j < 60 \<Longrightarrow> slot_end P L j \<le> (P div 60 ^ Suc L + 1) * 60 ^ Suc L"
proof -
  assume "j < 60"
  then have "(60 * (P div 60 ^ Suc L) + int j + 1) * 60 ^ L \<le> (60 * (P div 60 ^ Suc L) + 60) * 60 ^ L"
    by (intro mult_right_mono) auto
  then show ?thesis by (simp add: slot_end_def slot_start_def algebra_simps)
qed

lemma div_mult_le_self: "V div m * m \<le> V" if "0 < m" for V m :: int
  using div_mult_mod_eq [of V m] pos_mod_sign [OF that, of V] by linarith

lemma passed_slot_end:
  assumes "top_level P V L" "passed P V L i j" "j < 60"
  shows "slot_end P i j \<le> V"
proof (cases "i < L")
  case True
  with assms(1) have "P div 60 ^ Suc i < V div 60 ^ Suc i" by (simp add: top_level_def del: power_Suc)
  then have "(P div 60 ^ Suc i + 1) * 60 ^ Suc i \<le> V div 60 ^ Suc i * 60 ^ Suc i"
    by (intro mult_right_mono) auto
  also have "\<dots> \<le> V" by (rule div_mult_le_self) simp
  finally show ?thesis using slot_end_block [OF assms(3), of P i] by (rule order_trans [rotated])
next
  case False
  with assms(2) have i: "i = L" and j: "int j + 1 \<le> V div 60 ^ L mod 60" by (auto simp: passed_def)
  have "P div 60 ^ Suc L = V div 60 ^ L div 60"
    using assms(1) div_power_Suc [of V L] by (simp add: top_level_def del: power_Suc)
  then have "60 * (P div 60 ^ Suc L) + int j + 1 \<le> V div 60 ^ L"
    using j mult_div_mod_eq [of 60 "V div 60 ^ L"] by linarith
  then have "(60 * (P div 60 ^ Suc L) + int j + 1) * 60 ^ L \<le> V div 60 ^ L * 60 ^ L"
    by (intro mult_right_mono) auto
  with div_mult_le_self [of "60 ^ L" V] i show ?thesis
    by (simp add: slot_end_def slot_start_def algebra_simps)
qed

lemma filed_slot_start:
  assumes "filed P L j" "\<not> (L = 0 \<and> int j = P mod 60)"
  shows "P < slot_start P L j"
proof -
  from assms have j: "P div 60 ^ L mod 60 + 1 \<le> int j" by (auto simp: filed_def)
  have "P div 60 ^ L + 1 \<le> 60 * (P div 60 ^ Suc L) + int j"
    using j mult_div_mod_eq [of 60 "P div 60 ^ L"] div_power_Suc [of P L] by linarith
  then have "(P div 60 ^ L + 1) * 60 ^ L \<le> slot_start P L j"
    unfolding slot_start_def by (intro mult_right_mono) auto
  moreover have "P mod 60 ^ L < 60 ^ L" by simp
  then have "P < (P div 60 ^ L + 1) * 60 ^ L"
    using div_mult_mod_eq [of P "60 ^ L"] unfolding distrib_right by linarith
  ultimately show ?thesis by simp
qed

lemma moved_event_ok:
  assumes "event_ok h b w i j e" "filed (pos w) i j" "\<not> passed (pos w) V L i j" "top_level (pos w) V L"
    and "pos w \<le> V" "pos w' = V" "base w \<le> base w'"
  shows "event_ok h b w' i j e" "filed V i j \<or> i = L \<and> int j = V div 60 ^ L mod 60"
proof -
  have Li: "L \<le> i" using assms(3) by (auto simp: passed_def)
  have "V div 60 ^ Suc i = pos w div 60 ^ Suc i"
    by (rule top_level_above [OF assms(4)]) (use Li in simp)
  then have same: "slot_start V i j = slot_start (pos w) i j" "slot_end V i j = slot_end (pos w) i j"
    by (simp_all add: slot_start_def slot_end_def)
  note top = top_level_digit(2) [OF assms(4,5)]
  have cur: "int j = V mod 60" if "i = 0" "int j = pos w mod 60"
    using that assms(3) top Li by (auto simp: passed_def)
  from assms(1) obtain t where t: "as_time (ev_extra (h e)) = Some t"
      "t < base w + 1000 * slot_end (pos w) i j"
      "b + 1000 * slot_start (pos w) i j \<le> t \<or> i = 0 \<and> int j = pos w mod 60"
    by (auto simp: event_ok_def)
  have "t < base w' + 1000 * slot_end V i j" using t(2) same assms(7) by linarith
  with t cur same assms(6) show "event_ok h b w' i j e" by (auto simp: event_ok_def)
  show "filed V i j \<or> i = L \<and> int j = V div 60 ^ L mod 60"
  proof (cases "i = L")
    case True
    with assms(2,3) top have "V div 60 ^ L mod 60 \<le> int j" by (auto simp: filed_def passed_def)
    with True show ?thesis by (auto simp: filed_def)
  next
    case False
    with Li have "L < i" by simp
    with assms(2) top_level_above [OF assms(4) this] show ?thesis by (auto simp: filed_def)
  qed
qed

lemma moved_inv:
  assumes "wheel_inv h b {} w" "top_level (pos w) V L" "pos w \<le> V" "V < 60 ^ 5"
    and "moved (pos w) V L (wh_levels w) ls'" "base w + 1000 * V \<le> t"
  defines "w' \<equiv> \<lparr>wh_levels = ls', wh_now = t\<rparr>"
  shows "wheel_inv h b {(L, lv_current (ls' ! L))} w'" "pos w' = V"
proof -
  have P: "0 \<le> V" using assms(3) shape_pos(1) [OF wheel_inv_shape [OF assms(1)]] by simp
  note mv = moved_shape [OF assms(5) P assms(4)]
  show pos: "pos w' = V" using mv(2) by (simp add: w'_def)
  then have base: "base w \<le> base w'" using assms(6) by (simp add: base_def w'_def)
  have "L < 5" using assms(2) by (simp add: top_level_def)
  then have cur: "int (lv_current (ls' ! L)) = V div 60 ^ L mod 60" using assms(5) by (simp add: moved_def)
  have "event_ok h b w' i j e \<and> (filed V i j \<or> (i, j) \<in> {(L, lv_current (ls' ! L))})"
    if i: "i < 5" "j < 60" and e: "e \<in> set (slot_events w' i j)" for i j e
  proof -
    from i e assms(5) have n: "\<not> passed (pos w) V L i j" and e': "e \<in> set (slot_events w i j)"
      by (auto simp: moved_def slot_events_def w'_def split: if_splits)
    note inv = wheel_invD [OF assms(1) i e']
    have "filed (pos w) i j" using inv(2) by simp
    from moved_event_ok [OF inv(1) this n assms(2,3) pos base] cur show ?thesis by auto
  qed
  with mv(1) pos base wheel_inv_base [OF assms(1)] show "wheel_inv h b {(L, lv_current (ls' ! L))} w'"
    by (simp add: wheel_inv_def w'_def)
qed

lemma passed_fired:
  assumes "wheel_inv h b {} w" "top_level (pos w) V L" "passed (pos w) V L i j" "i \<le> L" "j < 60"
    and "e \<in> set (slot_events w i j)"
  shows "\<exists>t. as_time (ev_extra (h e)) = Some t \<and> t < base w + 1000 * V"
proof -
  have "i < 5" using assms(2,4) by (simp add: top_level_def)
  from wheel_invD(1) [OF assms(1) this assms(5,6)] passed_slot_end [OF assms(2,3,5)] show ?thesis
    by (fastforce simp: event_ok_def)
qed

section \<open>Inserting a slot again\<close>

lemma slot_end_capacity:
  assumes "0 \<le> P" "P < 60 ^ 5" "L < 5" "j < 60"
  shows "slot_end P L j \<le> 60 ^ 5"
proof -
  have cap: "60 ^ (4 - L) * (60::int) ^ Suc L = 60 ^ 5"
    unfolding power_add [symmetric] using assms(3) by simp
  have "P div 60 ^ Suc L < 60 ^ (4 - L)"
  proof (rule ccontr)
    assume "\<not> P div 60 ^ Suc L < 60 ^ (4 - L)"
    then have "60 ^ (4 - L) * (60::int) ^ Suc L \<le> P div 60 ^ Suc L * 60 ^ Suc L"
      by (intro mult_right_mono) auto
    also have "\<dots> \<le> P" by (rule div_mult_le_self) simp
    finally show False using cap assms(2) by linarith
  qed
  then have "(P div 60 ^ Suc L + 1) * 60 ^ Suc L \<le> 60 ^ (4 - L) * 60 ^ Suc L"
    by (intro mult_right_mono) auto
  also note cap
  finally show ?thesis using slot_end_block [OF assms(4), of P L] by (rule order_trans [rotated])
qed

lemma due_frame: "pos w' = pos w \<Longrightarrow> wh_now w' = wh_now w \<Longrightarrow> due w' t = due w t"
  by (simp add: due_def)

lemma event_ok_due:
  assumes "event_ok h b w L j e" "shape w" "L < 5" "j < 60"
  shows "\<exists>t. as_time (ev_extra (h e)) = Some t \<and> due w t < 60 ^ 5"
proof -
  from assms(1) obtain t where t: "as_time (ev_extra (h e)) = Some t" "t < base w + 1000 * slot_end (pos w) L j"
    by (auto simp: event_ok_def)
  note P = shape_pos [OF assms(2)]
  have "due w t < 60 ^ 5"
    using due_bounds(2) [of w t] t(2) P slot_end_capacity [OF P assms(3,4)] by (cases "due w t = pos w") auto
  with t(1) show ?thesis by blast
qed

lemma reinsert_slot_inv:
  assumes "wheel_inv h b X w" "X \<subseteq> {(L, j)}" "L < 5" "j < 60"
  shows "\<exists>w'. reinsert_slot h L j w = Inr w' \<and> wheel_inv h b {} w' \<and> pos w' = pos w
           \<and> wh_now w' = wh_now w \<and> contents w' = contents w"
proof -
  note shape = wheel_inv_shape [OF assms(1)]
  let ?es = "slot_events w L j"
  define I where "I ys s \<longleftrightarrow> wheel_inv h b {} s \<and> pos s = pos w \<and> wh_now s = wh_now w
    \<and> contents s + mset ys = contents w \<and> (\<forall>e \<in> set ys. e \<in> set ?es)" for ys s
  have "wheel_inv h b {} (set_slot L j [] w)"
    using assms by (intro wheel_inv_set_slot [OF assms(1)]) auto
  then have "I ?es (set_slot L j [] w)"
    using contents_set_slot [OF shape assms(3,4), of "[]"] by (simp add: I_def)
  then have "\<exists>w'. for_each (insert_event h) ?es (set_slot L j [] w) = Inr w' \<and> I [] w'"
  proof (rule for_each_rule)
    fix x ys s assume I: "I (x # ys) s"
    then have x: "x \<in> set ?es" by (simp add: I_def)
    obtain t where t: "as_time (ev_extra (h x)) = Some t" "due w t < 60 ^ 5"
      using event_ok_due [OF wheel_invD(1) [OF assms(1,3,4) x] shape assms(3,4)] by blast
    have "due s t < 60 ^ 5" using I t(2) due_frame [of s w t] by (simp add: I_def)
    with insert_event_inv [of h b "{}" s x t] I t(1) show "\<exists>s'. insert_event h x s = Inr s' \<and> I ys s'"
      by (auto simp: I_def)
  qed
  then show ?thesis by (auto simp: reinsert_slot_def I_def)
qed

lemma contents_iff:
  assumes "shape w"
  shows "e \<in># contents w \<longleftrightarrow> (\<exists>L<5. \<exists>j<60. e \<in> set (slot_events w L j))"
proof -
  have "set (lv_events (wh_levels w ! L)) = slot_events w L ` {..<60}" if "L < 5" for L
  proof -
    have "lv_events (wh_levels w ! L) = map (slot_events w L) [0..<60]"
      using assms that by (intro nth_equalityI) (simp_all add: slot_events_def)
    then have "set (lv_events (wh_levels w ! L)) = set (map (slot_events w L) [0..<60])" by (rule arg_cong)
    then show ?thesis by (simp only: list.set_map set_upt atLeast0LessThan)
  qed
  moreover have "wh_levels w = map (nth (wh_levels w)) [0..<5]"
    using assms map_nth [of "wh_levels w"] by simp
  then have "set (wh_levels w) = nth (wh_levels w) ` {..<5}" by (metis list.set_map set_upt atLeast0LessThan)
  moreover have "e \<in># contents w \<longleftrightarrow> (\<exists>l \<in> set (wh_levels w). \<exists>es \<in> set (lv_events l). e \<in> set es)"
    by (auto simp: contents_def)
  ultimately show ?thesis by fastforce
qed

text \<open>The slot under the lowest cursor: everything in it is due within a millisecond; the rest is not.\<close>

lemma take_current:
  assumes "wheel_inv h b {} w"
  defines "c \<equiv> lv_current (wh_levels w ! 0)"
  shows "wheel_inv h b {} (set_slot 0 c [] w)"
    and "contents w = contents (set_slot 0 c [] w) + mset (slot_events w 0 c)"
    and "e \<in> set (slot_events w 0 c) \<Longrightarrow> \<exists>t. as_time (ev_extra (h e)) = Some t \<and> t < wh_now w + 1000"
    and "e \<in># contents (set_slot 0 c [] w) \<Longrightarrow>
      \<exists>t. as_time (ev_extra (h e)) = Some t \<and> b + 1000 * (pos w + 1) \<le> t"
proof -
  note shape = wheel_inv_shape [OF assms(1)]
  have c: "c < 60" "int c = pos w mod 60" using cursor_pos [OF shape, of 0] shape by (auto simp: c_def)
  show inv: "wheel_inv h b {} (set_slot 0 c [] w)" using c by (intro wheel_inv_set_slot [OF assms(1)]) auto
  show "contents w = contents (set_slot 0 c [] w) + mset (slot_events w 0 c)"
    using contents_set_slot [OF shape _ c(1), of 0 "[]"] by simp
  have last: "slot_end (pos w) 0 c = pos w + 1"
    using c(2) mult_div_mod_eq [of 60 "pos w"] by (simp add: slot_end_def slot_start_def)
  show "\<exists>t. as_time (ev_extra (h e)) = Some t \<and> t < wh_now w + 1000" if "e \<in> set (slot_events w 0 c)"
    using wheel_invD(1) [OF assms(1) _ c(1) that] last by (auto simp: event_ok_def base_def algebra_simps)
  assume "e \<in># contents (set_slot 0 c [] w)"
  then obtain L j where Lj: "L < 5" "j < 60" "e \<in> set (slot_events (set_slot 0 c [] w) L j)"
    using contents_iff [OF wheel_inv_shape [OF inv]] by blast
  from Lj(3) have n: "\<not> (L = 0 \<and> int j = pos w mod 60)"
    using c slot_events_set_slot [OF shape _ c(1), of 0 "[]" L j] by auto
  from wheel_invD [OF inv Lj] have "filed (pos w) L j" and ok: "event_ok h b w L j e" by auto
  from filed_slot_start [OF this(1) n] have "pos w + 1 \<le> slot_start (pos w) L j" by simp
  with ok n show "\<exists>t. as_time (ev_extra (h e)) = Some t \<and> b + 1000 * (pos w + 1) \<le> t"
    by (fastforce simp: event_ok_def)
qed

lemma next_slot_less: "s < 60 \<Longrightarrow> next_slot s < 60"
  by (auto simp: next_slot_def)

lemma wheel_update: "w\<lparr>wh_now := t, wh_levels := ls\<rparr> = \<lparr>wh_levels = ls, wh_now = t\<rparr>"
  by (cases w) simp

lemma walk_inv:
  assumes "wheel_inv h b {} w" "pos w \<le> V" "V < 60 ^ 5" "base w + 1000 * V \<le> t"
  shows "\<exists>w' new. walk h (V - pos w) ev (w\<lparr>wh_now := t\<rparr>) = Inr (w', ev @ new) \<and> wheel_inv h b {} w'
    \<and> pos w' = V \<and> wh_now w' = t \<and> contents w = contents w' + mset new
    \<and> (\<forall>e \<in> set new. \<exists>x. as_time (ev_extra (h e)) = Some x \<and> x < t + 1000)
    \<and> (\<forall>e \<in># contents w'. \<exists>x. as_time (ev_extra (h e)) = Some x \<and> b + 1000 * (V + 1) \<le> x)"
proof -
  note shape = wheel_inv_shape [OF assms(1)]
  obtain n ds where loop: "walk_loop (wh_levels w) 0 (replicate 60 0) (V - pos w) = Inr (n, ds)"
      and top: "top_level (pos w) V (n - 1)"
      and ds: "\<forall>i \<le> n - 1. ds ! i = (V div 60 ^ i - pos w div 60 ^ i) mod 60"
    using walk_loop_top [OF shape assms(2,3)] by blast
  let ?L = "n - 1"
  have L: "?L < 5" using top by (simp add: top_level_def)
  obtain ls l ev1 new where lv: "flush_levels ds 0 ?L (wh_levels w) ev = (ls, ev1)"
      "advance_level (ds ! ?L) (ls ! ?L) ev1 = (l, ev @ new)" and mv: "moved (pos w) V ?L (wh_levels w) (ls[?L := l])"
      and len: "length ls = 5"
      and ct: "mset new + mset (concat (map (\<lambda>l. concat (lv_events l)) (ls[?L := l]))) = contents w"
      and fired: "\<forall>e \<in> set new. \<exists>i j. i \<le> ?L \<and> j < 60 \<and> passed (pos w) V ?L i j \<and> e \<in> set (slot_events w i j)"
    using walk_levels [OF shape assms(2) top ds, of ev] by blast
  let ?w1 = "\<lparr>wh_levels = ls[?L := l], wh_now = t\<rparr>"
  note m = moved_inv [OF assms(1) top assms(2,3) mv assms(4)]
  have cl: "lv_current (ls[?L := l] ! ?L) = lv_current l" using len L by simp
  have c60: "lv_current l < 60" using mv L cl len by (auto simp: moved_def level_ok_def)
  obtain w2 where w2: "reinsert_slot h ?L (lv_current l) ?w1 = Inr w2" "wheel_inv h b {} w2" "pos w2 = V"
      "wh_now w2 = t" "contents w2 = contents ?w1"
    using reinsert_slot_inv [OF m(1) _ L, of "lv_current l"] m(2) cl c60 by auto
  obtain w3 where w3: "reinsert_slot h ?L (next_slot (lv_current l)) w2 = Inr w3" "wheel_inv h b {} w3"
      "pos w3 = V" "wh_now w3 = t" "contents w3 = contents ?w1"
    using reinsert_slot_inv [OF w2(2) _ L next_slot_less [OF c60]] w2(3-5) by auto
  let ?c = "lv_current (wh_levels w3 ! 0)"
  let ?w' = "set_slot 0 ?c [] w3" and ?new = "new @ slot_events w3 0 ?c"
  note cur = take_current [OF w3(2)]
  have "walk h (V - pos w) ev (w\<lparr>wh_now := t\<rparr>) = Inr (?w', ev @ ?new)"
    using loop lv w2(1) w3(1) by (simp add: walk_def Let_def wheel_update)
  moreover have "contents w = contents ?w' + mset ?new"
    using ct cur(2) w3(5) by (simp add: contents_def ac_simps)
  moreover have "\<exists>x. as_time (ev_extra (h e)) = Some x \<and> x < t + 1000" if "e \<in> set ?new" for e
  proof (cases "e \<in> set new")
    case True
    with fired obtain i j where "i \<le> ?L" "j < 60" "passed (pos w) V ?L i j" "e \<in> set (slot_events w i j)"
      by blast
    from passed_fired [OF assms(1) top this(3,1,2,4)] assms(4) show ?thesis by auto
  next
    case False
    with that cur(3) [of e] w3(4) show ?thesis by simp
  qed
  ultimately show ?thesis using cur(1,4) w3(3,4) by (intro exI [of _ ?w'] exI [of _ ?new]) simp
qed

section \<open>Expiring\<close>

text \<open>The number of slots the lowest cursor moves by; the step count is narrowed to an \<open>int\<close>.\<close>

definition elapsed_ms :: "wheel \<Rightarrow> int \<Rightarrow> int" where
  "elapsed_ms w clock_now = max 0 (signed_take_bit 31 ((clock_now - wh_now w) div 1000))"

lemma signed_take_bit_le: "signed_take_bit n x \<le> x" if "0 \<le> x" for x :: int
proof (cases "x < 2 ^ n")
  case True
  with that have "signed_take_bit n x = x"
    by (intro signed_take_bit_int_eq_self) (auto intro: order_trans [of _ 0])
  then show ?thesis by simp
next
  case False
  then show ?thesis using signed_take_bit_int_less_exp [of n x] by linarith
qed

lemma elapsed_ms_le: "wh_now w < t \<Longrightarrow> wh_now w + 1000 * elapsed_ms w t \<le> t"
  using signed_take_bit_le [of "(t - wh_now w) div 1000" 31] mult_div_mod_eq [of 1000 "t - wh_now w"]
    pos_mod_sign [of 1000 "t - wh_now w"]
  by (auto simp: elapsed_ms_def max_def pos_imp_zdiv_nonneg_iff)

lemma elapsed_ms_exact:
  assumes "wh_now w < t" "(t - wh_now w) div 1000 < 2 ^ 31"
  shows "elapsed_ms w t = (t - wh_now w) div 1000"
proof -
  have "0 \<le> (t - wh_now w) div 1000" using assms(1) by (simp add: pos_imp_zdiv_nonneg_iff)
  moreover from this assms(2) have "signed_take_bit 31 ((t - wh_now w) div 1000) = (t - wh_now w) div 1000"
    by (intro signed_take_bit_int_eq_self) auto
  ultimately show ?thesis by (simp add: elapsed_ms_def)
qed

lemma walk_nonpos: "walk h k ev w = walk h (max 0 k) ev w"
  by (cases "0 \<le> k") (simp_all add: walk_def walk_loop.simps max_def)

lemma expire_walk:
  "wh_now w < t \<Longrightarrow> expire h t ev w = walk h (elapsed_ms w t) ev (w\<lparr>wh_now := t\<rparr>)"
  using walk_nonpos [of h "signed_take_bit 31 ((t - wh_now w) div 1000)"]
  by (simp add: expire_def elapsed_ms_def sdiv_nonneg)

lemma expire_inv:
  assumes "wheel_inv h b {} w" "wh_now w < t" "pos w + elapsed_ms w t < 60 ^ 5"
  shows "\<exists>w' new. expire h t ev w = Inr (w', ev @ new) \<and> wheel_inv h b {} w'
    \<and> pos w' = pos w + elapsed_ms w t \<and> wh_now w' = t \<and> contents w = contents w' + mset new
    \<and> (\<forall>e \<in> set new. \<exists>x. as_time (ev_extra (h e)) = Some x \<and> x < t + 1000)
    \<and> (\<forall>e \<in># contents w'. \<exists>x. as_time (ev_extra (h e)) = Some x \<and> b + 1000 * (pos w' + 1) \<le> x)"
proof -
  have "base w + 1000 * (pos w + elapsed_ms w t) \<le> t"
    using elapsed_ms_le [OF assms(2)] by (simp add: base_def)
  moreover have "pos w \<le> pos w + elapsed_ms w t" by (simp add: elapsed_ms_def)
  ultimately obtain w' new where "walk h (pos w + elapsed_ms w t - pos w) ev (w\<lparr>wh_now := t\<rparr>) = Inr (w', ev @ new)"
      "wheel_inv h b {} w'" "pos w' = pos w + elapsed_ms w t" "wh_now w' = t" "contents w = contents w' + mset new"
      "\<forall>e \<in> set new. \<exists>x. as_time (ev_extra (h e)) = Some x \<and> x < t + 1000"
      "\<forall>e \<in># contents w'. \<exists>x. as_time (ev_extra (h e)) = Some x \<and> b + 1000 * (pos w + elapsed_ms w t + 1) \<le> x"
    using walk_inv [OF assms(1) _ assms(3), of t ev] by blast
  then show ?thesis
    using assms(2) by (intro exI [of _ w'] exI [of _ new]) (simp add: expire_walk)
qed

text \<open>The top cursor does not wrap.\<close>

lemma walk_loop_overflow:
  assumes "cursors_ok ls" "P = position ls" "60 ^ length ls \<le> V" "k \<le> length ls" "length ls \<le> length ds"
  shows "walk_loop ls k ds (V div 60 ^ k - P div 60 ^ k) = Inl Out_of_range"
  using assms(4,5)
proof (induction "length ls - k" arbitrary: k ds)
  case 0
  then have k: "k = length ls" by simp
  have "P div 60 ^ k = 0" using assms position_nonneg [of ls] position_less [of ls] by (auto simp: k)
  moreover have "0 < V div 60 ^ k" using assms(3) by (simp add: k pos_imp_zdiv_pos_iff)
  ultimately show ?case by (simp add: walk_loop.simps k)
next
  case (Suc m)
  then have k: "k < length ls" "k < length ds" by auto
  have gt: "P div 60 ^ k < V div 60 ^ k" using overflow_digits [OF assms(1-3)] k by simp
  have "m = length ls - Suc k" using Suc.hyps(2) by simp
  from Suc.hyps(1) [OF this Suc_leI [OF k(1)]] Suc.prems(2) show ?case
    by (simp only: walk_loop_step [OF assms(1) k assms(2) gt] length_list_update)
qed

lemma expire_overflow:
  assumes "shape w" "wh_now w < t" "60 ^ 5 \<le> pos w + elapsed_ms w t"
  shows "expire h t ev w = Inl Out_of_range"
  using walk_loop_overflow [OF _ refl, of "wh_levels w" "pos w + elapsed_ms w t" 0 "replicate 60 0"] assms
  by (simp add: expire_walk walk_def)

lemma expire_cases:
  assumes "wheel_inv h b {} w" "expire h t ev w = Inr (w', ev')"
  obtains "\<not> wh_now w < t" "w' = w" "ev' = ev"
  | new where "wh_now w < t" "pos w + elapsed_ms w t < 60 ^ 5" "ev' = ev @ new" "wheel_inv h b {} w'"
    "pos w' = pos w + elapsed_ms w t" "wh_now w' = t" "contents w = contents w' + mset new"
    "\<forall>e \<in> set new. \<exists>x. as_time (ev_extra (h e)) = Some x \<and> x < t + 1000"
    "\<forall>e \<in># contents w'. \<exists>x. as_time (ev_extra (h e)) = Some x \<and> b + 1000 * (pos w' + 1) \<le> x"
proof (cases "wh_now w < t")
  case True
  have cap: "pos w + elapsed_ms w t < 60 ^ 5"
    using expire_overflow [OF wheel_inv_shape [OF assms(1)] True, of h ev] assms(2)
    by (cases "pos w + elapsed_ms w t < 60 ^ 5") auto
  obtain w'' new where *: "expire h t ev w = Inr (w'', ev @ new)" "wheel_inv h b {} w''"
      "pos w'' = pos w + elapsed_ms w t" "wh_now w'' = t" "contents w = contents w'' + mset new"
      "\<forall>e \<in> set new. \<exists>x. as_time (ev_extra (h e)) = Some x \<and> x < t + 1000"
      "\<forall>e \<in># contents w''. \<exists>x. as_time (ev_extra (h e)) = Some x \<and> b + 1000 * (pos w'' + 1) \<le> x"
    using expire_inv [OF assms(1) True cap, of ev] by blast
  with assms(2) have "w'' = w'" "ev' = ev @ new" by simp_all
  with * that(2) [OF True cap, of new] show thesis by blast
next
  case False
  with assms(2) have "w' = w" "ev' = ev" by (simp_all add: expire_def)
  with False show thesis by (rule that(1))
qed

lemma Wheel_inv: "wheel_inv h t {} (Wheel t)" "contents (Wheel t) = {#}" "pos (Wheel t) = 0"
proof -
  have "wh_levels (Wheel t) = [Level, Level, Level, Level, Level]"
    by (simp add: Wheel_def numeral_eq_Suc)
  then show pos: "pos (Wheel t) = 0" and ct: "contents (Wheel t) = {#}"
    by (simp_all add: Level_def contents_def)
  have "shape (Wheel t)" by (auto simp: shape_def Wheel_def Level_def level_ok_def)
  moreover from this ct have "e \<notin> set (slot_events (Wheel t) L j)" if "L < 5" "j < 60" for L j e
    using contents_iff [of "Wheel t" e] that by auto
  moreover have "base (Wheel t) = t" using pos by (simp add: base_def Wheel_def)
  ultimately show "wheel_inv h t {} (Wheel t)" by (auto simp: wheel_inv_def)
qed

end
