(* ===== verification/Time_Registry.thy ===== *)
theory Time_Registry
  imports Time_Wheel_Proofs
begin

text \<open>
  The clock (\<open>include/xyco/time/clock.ccm\<close>), the time registry (\<open>src/time/registry.cc\<close>) and
  the future behind \<open>time::sleep\<close> (\<open>include/xyco/time/sleep.ccm\<close>). The registry is a wheel
  behind a mutex: each operation is one atomic step on it. It is shown to be an
  \<open>event_registry\<close>. The runs of a wheel, over which the properties are stated, are at the end.
\<close>

section \<open>The clock\<close>

text \<open>
  \<open>Clock::clock_\<close> and the static \<open>FrozenClock::time_point_\<close>. What the platform's clocks read
  is an argument: the system clock in microseconds, and two readings of the steady clock in
  nanoseconds, in the order the code takes them.
\<close>

datatype clock_kind = system_clock | steady_clock | FrozenClock

record clock =
  ck_clock :: clock_kind
  ck_frozen :: int

record clock_reading =
  rd_system :: int
  rd_steady1 :: int
  rd_steady2 :: int

text \<open>The static members at the start of the program, where \<open>now\<close> is what the system clock reads.\<close>

definition Clock_start :: "int \<Rightarrow> clock" where
  "Clock_start now = \<lparr>ck_clock = system_clock, ck_frozen = now\<rparr>"

definition Clock_init :: "clock_kind \<Rightarrow> clock \<Rightarrow> clock" where
  "Clock_init k c = c\<lparr>ck_clock := k\<rparr>"

definition FrozenClock_advance :: "int \<Rightarrow> clock \<Rightarrow> clock" where
  "FrozenClock_advance duration c = c\<lparr>ck_frozen := ck_frozen c + duration\<rparr>"

fun Clock_now :: "clock_reading \<Rightarrow> clock \<Rightarrow> int" where
  "Clock_now r c = (case ck_clock c of
     system_clock \<Rightarrow> rd_system r
   | FrozenClock \<Rightarrow> ck_frozen c
   | steady_clock \<Rightarrow> (rd_steady1 r - rd_steady2 r + 1000 * rd_system r) sdiv 1000)"

section \<open>The registry\<close>

definition TimeRegistry_Register :: "event_ptr \<Rightarrow> heap \<times> wheel \<Rightarrow> (unit result \<times> heap \<times> wheel) outcome" where
  "TimeRegistry_Register e = (\<lambda>(h, w). and_then (insert_event h e w) (\<lambda>w. Inr (Inr (), h, w)))"

definition TimeRegistry_reregister :: "event_ptr \<Rightarrow> heap \<times> wheel \<Rightarrow> (unit result \<times> heap \<times> wheel) outcome" where
  "TimeRegistry_reregister e = (\<lambda>(h, w). Inr (Inr (), h, w))"

definition TimeRegistry_deregister :: "event_ptr \<Rightarrow> heap \<times> wheel \<Rightarrow> (unit result \<times> heap \<times> wheel) outcome" where
  "TimeRegistry_deregister e = (\<lambda>(h, w). Inr (Inr (), h, w))"

text \<open>The first argument is the timeout, which is not used, and what \<open>Clock::now\<close> returns.\<close>

definition TimeRegistry_select ::
  "int \<times> int \<Rightarrow> event_ptr list \<Rightarrow> heap \<times> wheel \<Rightarrow> (unit result \<times> event_ptr list \<times> heap \<times> wheel) outcome" where
  "TimeRegistry_select = (\<lambda>(timeout, clock_now) events (h, w).
     and_then (expire h clock_now events w) (\<lambda>(w, events). Inr (Inr (), events, h, w)))"

section \<open>The future of sleep\<close>

record sleep_future =
  sl_ready :: bool
  sl_duration :: int
  sl_event :: event_ptr

text \<open>
  The first \<open>poll\<close> sets the expiry time, makes the future the event's waiter and registers the
  event; every later one is ready. The result is whether the future is ready.
\<close>

definition sleep_poll ::
  "int \<Rightarrow> future_ptr \<Rightarrow> sleep_future \<times> heap \<times> wheel \<Rightarrow> (bool \<times> sleep_future \<times> heap \<times> wheel) outcome" where
  "sleep_poll clock_now this = (\<lambda>(f, h, w).
     if \<not> sl_ready f
     then (let f = f\<lparr>sl_ready := True\<rparr>;
               e = sl_event f
           in case as_time (ev_extra (h e)) of
                None \<Rightarrow> Inl Null_deref
              | Some _ \<Rightarrow>
                  (let h = set_extra e (TimeExtra (clock_now + ticks_per_ms * sl_duration f)) h;
                       h = set_future e (Some this) h
                   in and_then (TimeRegistry_Register e (h, w)) (\<lambda>(r, h, w). Inr (False, f, h, w))))
     else Inr (True, f, h, w))"

section \<open>The registry contract\<close>

definition time_invar :: "heap \<Rightarrow> wheel \<Rightarrow> bool" where
  "time_invar h w \<longleftrightarrow> (\<exists>b. wheel_inv h b {} w)"

definition time_wakeable :: "heap \<Rightarrow> wheel \<Rightarrow> event_ptr \<Rightarrow> bool" where
  "time_wakeable h w e \<longleftrightarrow> as_time (ev_extra (h e)) \<noteq> None"

lemma insert_event_cases:
  assumes "wheel_inv h b {} w" "insert_event h e w = Inr w'"
  obtains t where "as_time (ev_extra (h e)) = Some t" "due w t < 60 ^ 5" "wheel_inv h b {} w'"
    "wh_now w' = wh_now w" "pos w' = pos w" "contents w' = add_mset e (contents w)"
proof (cases "as_time (ev_extra (h e))")
  case None
  with assms(2) show thesis by (simp add: insert_event_def)
next
  case (Some t)
  have cap: "due w t < 60 ^ 5"
    using insert_event_overflow [where h = h and e = e, OF wheel_inv_shape [OF assms(1)] Some] assms(2)
    by (cases "due w t < 60 ^ 5") auto
  from insert_event_inv [OF assms(1) Some cap] assms(2) that [OF Some cap] show thesis by auto
qed

lemma wheel_inv_local:
  assumes "wheel_inv h b {} w" "\<And>e. e \<in># contents w \<Longrightarrow> ev_extra (h' e) = ev_extra (h e)"
  shows "wheel_inv h' b {} w"
  using assms contents_iff [OF wheel_inv_shape [OF assms(1)]] unfolding wheel_inv_def event_ok_def by metis

interpretation time_reg: event_registry TimeRegistry_Register TimeRegistry_select contents time_invar time_wakeable
proof
  fix e h w r h' w'
  assume "TimeRegistry_Register e (h, w) = Inr (r, h', w')"
  then have ins: "insert_event h e w = Inr w'" and r: "r = Inr ()" "h' = h"
    by (auto simp: TimeRegistry_Register_def outcome_simps)
  show "a \<noteq> e \<Longrightarrow> h' a = h a" "ev_future (h' a) = ev_future (h a)" for a using r by simp_all
  assume "time_invar h w"
  then obtain b where "wheel_inv h b {} w" by (auto simp: time_invar_def)
  from insert_event_cases [OF this ins]
  show "time_invar h' w'" "contents w' = (case r of Inl _ \<Rightarrow> contents w | Inr _ \<Rightarrow> add_mset e (contents w))"
    using r by (auto simp: time_invar_def)
next
  fix i evs h w r evs' h' w'
  assume sel: "TimeRegistry_select i evs (h, w) = Inr (r, evs', h', w')"
  then have ex: "expire h (snd i) evs w = Inr (w', evs')" and h: "h' = h"
    by (auto simp: TimeRegistry_select_def outcome_simps split: prod.splits)
  show "ev_future (h' a) = ev_future (h a)" for a using h by simp
  assume "time_invar h w"
  then obtain b where inv: "wheel_inv h b {} w" by (auto simp: time_invar_def)
  show "h' a = h a" for a using h by simp
  show "time_invar h' w'" using expire_cases [OF inv ex] inv h by (auto simp: time_invar_def)
  show "\<exists>new. evs' = evs @ new \<and> contents w = contents w' + mset new"
    by (cases rule: expire_cases [OF inv ex]) auto
next
  fix h h' :: heap and w
  assume "time_invar h w" "\<And>e. e \<in># contents w \<Longrightarrow> ev_extra (h' e) = ev_extra (h e)"
  then show "time_invar h' w" unfolding time_invar_def using wheel_inv_local [of h _ w h'] by blast
qed

section \<open>Runs of the wheel\<close>

text \<open>
  \<open>wheel_run h t0 cs ins fired w\<close>: a wheel made at time \<open>t0\<close> is in state \<open>w\<close> after
  calls of \<open>insert_event\<close> for \<open>ins\<close> and of \<open>expire\<close> at the clock readings \<open>cs\<close>, in
  any interleaving, which put \<open>fired\<close> out. The clock need not be monotone.
\<close>

inductive wheel_run :: "heap \<Rightarrow> int \<Rightarrow> int list \<Rightarrow> event_ptr list \<Rightarrow> event_ptr list \<Rightarrow> wheel \<Rightarrow> bool"
  for h t0 where
  run_start: "wheel_run h t0 [] [] [] (Wheel t0)"
| run_insert: "wheel_run h t0 cs ins fired w \<Longrightarrow> insert_event h e w = Inr w' \<Longrightarrow>
    wheel_run h t0 cs (ins @ [e]) fired w'"
| run_expire: "wheel_run h t0 cs ins fired w \<Longrightarrow> expire h c fired w = Inr (w', fired') \<Longrightarrow>
    wheel_run h t0 (cs @ [c]) ins fired' w'"

definition expiry :: "heap \<Rightarrow> event_ptr \<Rightarrow> int" where
  "expiry h e = (case as_time (ev_extra (h e)) of Some t \<Rightarrow> t | None \<Rightarrow> 0)"

lemma expiry_Some [simp]: "ev_extra (h e) = Some (TimeExtra t) \<Longrightarrow> expiry h e = t"
  by (simp add: expiry_def)

lemma wheel_run_inv:
  "wheel_run h t0 cs ins fired w \<Longrightarrow>
     wheel_inv h t0 {} w \<and> t0 \<le> wh_now w \<and> mset ins = mset fired + contents w"
proof (induction rule: wheel_run.induct)
  case run_start
  show ?case using Wheel_inv(1) [of h t0] Wheel_inv(2) [of t0] by (simp add: Wheel_def)
next
  case (run_insert cs ins fired w e w')
  then have inv: "wheel_inv h t0 {} w" by simp
  show ?case using run_insert.IH by (cases rule: insert_event_cases [OF inv run_insert.hyps(2)]) simp
next
  case (run_expire cs ins fired w c w' fired')
  then have inv: "wheel_inv h t0 {} w" by simp
  show ?case using run_expire.IH by (cases rule: expire_cases [OF inv run_expire.hyps(2)]) (auto simp: ac_simps)
qed

text \<open>The readings that stay within the span of the wheel; there the step count is exact.\<close>

definition within_span :: "int \<Rightarrow> int list \<Rightarrow> bool" where
  "within_span t0 cs \<longleftrightarrow> (\<forall>c \<in> set cs. c < t0 + 1000 * 60 ^ 5)"

lemma elapsed_ms_span:
  assumes "b \<le> wh_now w" "wh_now w < c" "c < b + 1000 * 60 ^ 5"
  shows "elapsed_ms w c = (c - wh_now w) div 1000"
proof -
  have "(c - wh_now w) div 1000 < 60 ^ 5" using assms(1,3) by (simp add: div_less_iff_less_mult)
  then show ?thesis by (intro elapsed_ms_exact assms(2)) simp
qed

lemma expire_base:
  assumes "wheel_inv h b {} w" "expire h c ev w = Inr (w', ev')" "b \<le> wh_now w" "c < b + 1000 * 60 ^ 5"
  shows "base w' = base w + (if wh_now w < c then (c - wh_now w) mod 1000 else 0)"
proof (cases rule: expire_cases [OF assms(1,2)])
  case 1
  then show ?thesis by simp
next
  case (2 new)
  with elapsed_ms_span [OF assms(3) _ assms(4)] mult_div_mod_eq [of 1000 "c - wh_now w"] show ?thesis by (simp add: base_def algebra_simps)
qed

lemma wheel_run_drift:
  assumes "wheel_run h t0 cs ins fired w" "within_span t0 cs"
  shows "base w \<le> t0 + 999 * int (length cs)"
  using assms
proof (induction rule: wheel_run.induct)
  case run_start
  show ?case using Wheel_inv(3) [of t0] by (simp add: base_def Wheel_def)
next
  case (run_insert cs ins fired w e w')
  have inv: "wheel_inv h t0 {} w" using wheel_run_inv [OF run_insert.hyps(1)] by simp
  show ?case
    using run_insert.IH run_insert.prems
    by (cases rule: insert_event_cases [OF inv run_insert.hyps(2)]) (simp add: base_def)
next
  case (run_expire cs ins fired w c w' fired')
  note inv = wheel_run_inv [OF run_expire.hyps(1)]
  have "base w' = base w + (if wh_now w < c then (c - wh_now w) mod 1000 else 0)"
    using inv run_expire.prems by (intro expire_base [OF _ run_expire.hyps(2)]) (auto simp: within_span_def)
  moreover have "(c - wh_now w) mod 1000 \<le> 999" using pos_mod_bound [of 1000 "c - wh_now w"] by simp
  ultimately show ?case using run_expire by (auto simp: within_span_def)
qed

lemma wheel_run_aligned:
  assumes "wheel_run h t0 cs ins fired w" "within_span t0 cs" "\<forall>c \<in> set cs. 1000 dvd (c - t0)"
  shows "base w = t0 \<and> 1000 dvd (wh_now w - t0)"
  using assms
proof (induction rule: wheel_run.induct)
  case run_start
  show ?case using Wheel_inv(3) [of t0] by (simp add: base_def Wheel_def)
next
  case (run_insert cs ins fired w e w')
  have inv: "wheel_inv h t0 {} w" using wheel_run_inv [OF run_insert.hyps(1)] by simp
  show ?case
    using run_insert.IH run_insert.prems
    by (cases rule: insert_event_cases [OF inv run_insert.hyps(2)]) (simp add: base_def)
next
  case (run_expire cs ins fired w c w' fired')
  then have IH: "base w = t0" "1000 dvd (wh_now w - t0)" and "1000 dvd (c - t0)"
    by (auto simp: within_span_def)
  then have mod: "(c - wh_now w) mod 1000 = 0" using dvd_diff [of 1000 "c - t0" "wh_now w - t0"] by simp
  note inv = wheel_run_inv [OF run_expire.hyps(1)]
  have "base w' = t0"
    using inv run_expire.prems IH mod
    by (subst expire_base [OF _ run_expire.hyps(2)]) (auto simp: within_span_def)
  moreover have "wh_now w' = wh_now w \<or> wh_now w' = c"
    using inv by (cases rule: expire_cases [OF conjunct1 [OF inv] run_expire.hyps(2)]) auto
  ultimately show ?case using IH(2) \<open>1000 dvd (c - t0)\<close> by auto
qed

section \<open>A wheel that has lost no fraction of a millisecond\<close>

text \<open>The cursors of the wheel stand for exactly the time that has passed since \<open>t0\<close>.\<close>

definition wheel_at :: "heap \<Rightarrow> int \<Rightarrow> wheel \<Rightarrow> bool" where
  "wheel_at h t0 w \<longleftrightarrow> wheel_inv h t0 {} w \<and> base w = t0"

lemma wheel_atD:
  assumes "wheel_at h t0 w"
  shows "wheel_inv h t0 {} w" "shape w" "wh_now w = t0 + 1000 * pos w" "pos w < 60 ^ 5" "0 \<le> pos w"
  using assms wheel_inv_shape [of h t0 "{}" w] shape_pos [of w] by (auto simp: wheel_at_def base_def)

lemma due_in_span:
  assumes "wheel_at h t0 w"
  shows "due w t < 60 ^ 5 \<longleftrightarrow> t < t0 + 1000 * 60 ^ 5"
proof
  assume "due w t < 60 ^ 5"
  with due_bounds(1) [of t w] assms show "t < t0 + 1000 * 60 ^ 5" by (simp add: wheel_at_def)
next
  assume t: "t < t0 + 1000 * 60 ^ 5"
  show "due w t < 60 ^ 5"
  proof (cases "due w t = pos w")
    case False
    from due_bounds(2) [OF this] t assms show ?thesis by (simp add: wheel_at_def)
  qed (use wheel_atD(4) [OF assms] in simp)
qed

lemma insert_event_at:
  assumes "wheel_at h t0 w" "as_time (ev_extra (h e)) = Some t"
  shows "t < t0 + 1000 * 60 ^ 5 \<Longrightarrow> \<exists>w'. insert_event h e w = Inr w' \<and> wheel_at h t0 w'
      \<and> wh_now w' = wh_now w \<and> contents w' = add_mset e (contents w)"
    and "\<not> t < t0 + 1000 * 60 ^ 5 \<Longrightarrow> insert_event h e w = Inl Out_of_range"
proof -
  note at = wheel_atD [OF assms(1)]
  show "insert_event h e w = Inl Out_of_range" if "\<not> t < t0 + 1000 * 60 ^ 5"
    using insert_event_overflow [where h = h and e = e, OF at(2) assms(2)] due_in_span [OF assms(1), of t] that by simp
  assume "t < t0 + 1000 * 60 ^ 5"
  then have "due w t < 60 ^ 5" using due_in_span [OF assms(1)] by simp
  from insert_event_inv [OF at(1) assms(2) this] obtain w' where w': "insert_event h e w = Inr w'" by auto
  show "\<exists>w'. insert_event h e w = Inr w' \<and> wheel_at h t0 w' \<and> wh_now w' = wh_now w
      \<and> contents w' = add_mset e (contents w)"
    using w' assms(1)
    by (intro exI [of _ w'], cases rule: insert_event_cases [OF at(1) w']) (simp add: wheel_at_def base_def)
qed

lemma expire_at_exact:
  assumes "wheel_at h t0 w" "1000 dvd (c - t0)" "c < t0 + 1000 * 60 ^ 5" "wh_now w < c"
  shows "\<exists>w' new. expire h c ev w = Inr (w', ev @ new) \<and> wheel_at h t0 w' \<and> wh_now w' = c
    \<and> mset new = {#e \<in># contents w. expiry h e < c + 1000#}
    \<and> contents w' = {#e \<in># contents w. c + 1000 \<le> expiry h e#}"
proof -
  note at = wheel_atD [OF assms(1)]
  have "elapsed_ms w c = (c - wh_now w) div 1000" using at elapsed_ms_span [OF _ assms(4,3)] by simp
  moreover have "1000 dvd (c - wh_now w)" using dvd_diff [OF assms(2), of "1000 * pos w"] at(3) by (simp add: algebra_simps)
  ultimately have pos: "1000 * (pos w + elapsed_ms w c) = c - t0" using at(3) by (auto simp: algebra_simps)
  with assms(3) have cap: "pos w + elapsed_ms w c < 60 ^ 5" by simp
  from expire_inv [OF at(1) assms(4) cap, of ev] obtain w' new where
    *: "expire h c ev w = Inr (w', ev @ new)" "wheel_inv h t0 {} w'" "wh_now w' = c"
      "pos w' = pos w + elapsed_ms w c" "contents w = contents w' + mset new"
      "\<forall>e \<in> set new. expiry h e < c + 1000" "\<forall>e \<in># contents w'. t0 + 1000 * (pos w' + 1) \<le> expiry h e"
    by (force simp: expiry_def)
  have "\<forall>e \<in># contents w'. c + 1000 \<le> expiry h e" using *(4,7) pos by auto
  with *(6) have "{#e \<in># contents w'. expiry h e < c + 1000#} = {#}" "{#e \<in># mset new. c + 1000 \<le> expiry h e#} = {#}"
      "{#e \<in># contents w'. c + 1000 \<le> expiry h e#} = contents w'" "{#e \<in># mset new. expiry h e < c + 1000#} = mset new"
    by (auto intro!: filter_mset_all filter_mset_none)
  moreover have "wheel_at h t0 w'" using *(2-4) pos by (simp add: wheel_at_def base_def)
  ultimately show ?thesis using * by (intro exI [of _ w'] exI [of _ new]) simp
qed

lemma expire_at_overflow:
  assumes "wheel_at h t0 w" "t0 + 1000 * 60 ^ 5 \<le> c" "c < t0 + 1000 * 2 ^ 31"
  shows "expire h c ev w = Inl Out_of_range"
proof -
  note at = wheel_atD [OF assms(1)]
  have now: "wh_now w < c" using at(3,4) assms(2) by simp
  have "(c - wh_now w) div 1000 < 2 ^ 31" using at(3,5) assms(3) by (simp add: div_less_iff_less_mult)
  then have "elapsed_ms w c = (c - wh_now w) div 1000" by (rule elapsed_ms_exact [OF now])
  moreover have "60 ^ 5 - pos w \<le> (c - wh_now w) div 1000"
    using at(3) assms(2) zdiv_mono1 [of "1000 * (60 ^ 5 - pos w)" "c - wh_now w" 1000] by simp
  ultimately show ?thesis using expire_overflow [OF at(2) now, of h ev] by simp
qed

lemma wheel_run_at:
  assumes "wheel_run h t0 cs ins fired w" "within_span t0 cs" "\<forall>c \<in> set cs. 1000 dvd (c - t0)"
  shows "wheel_at h t0 w"
  using wheel_run_aligned [OF assms] wheel_run_inv [OF assms(1)] by (simp add: wheel_at_def)

section \<open>Polling faster than the resolution\<close>

lemma insert_event_keeps:
  assumes "wheel_inv h b {} w" "insert_event h x w = Inr w'" "e \<in> set (slot_events w L j)"
  shows "e \<in> set (slot_events w' L j)"
proof (cases rule: insert_event_cases [OF assms(1,2)])
  case (1 t)
  note shape = wheel_inv_shape [OF assms(1)]
  note home = insert_event_home [where h = h and e = x, OF shape 1(1,2)]
  from assms(2) home(1) have "w' = set_slot (home_level (due w t) (pos w)) (home_slot (due w t) (pos w))
      (slot_events w (home_level (due w t) (pos w)) (home_slot (due w t) (pos w)) @ [x]) w" by simp
  with assms(3) slot_events_set_slot [OF shape home(2,3)] show ?thesis by auto
qed

lemma reinsert_slot_keeps:
  assumes "wheel_inv h b {} w" "L < 5" "j < 60" "reinsert_slot h L j w = Inr w'"
    and "e \<in> set (slot_events w L' j')" "(L', j') \<noteq> (L, j)"
  shows "e \<in> set (slot_events w' L' j')"
proof -
  note shape = wheel_inv_shape [OF assms(1)]
  have "e \<in> set (slot_events s' L' j')"
    if "for_each (insert_event h) xs s = Inr s'" "wheel_inv h b {} s" "e \<in> set (slot_events s L' j')" for xs s s'
    using that
  proof (induction xs arbitrary: s)
    case (Cons x xs)
    then obtain s1 where s1: "insert_event h x s = Inr s1" "for_each (insert_event h) xs s1 = Inr s'"
      by (auto simp: outcome_simps)
    have "wheel_inv h b {} s1" by (cases rule: insert_event_cases [OF Cons.prems(2) s1(1)])
    with Cons.IH [OF s1(2)] insert_event_keeps [OF Cons.prems(2) s1(1) Cons.prems(3)] show ?case by simp
  qed simp
  moreover have "wheel_inv h b {} (set_slot L j [] w)"
    using assms(2,3) by (intro wheel_inv_set_slot [OF assms(1)]) auto
  moreover have "e \<in> set (slot_events (set_slot L j [] w) L' j')"
    using assms(5,6) slot_events_set_slot [OF shape assms(2,3)] by auto
  ultimately show ?thesis using assms(4) by (auto simp: reinsert_slot_def)
qed

lemma walk_0:
  "walk h 0 ev w =
     (let c = lv_current (wh_levels w ! 0) in
      and_then (reinsert_slot h 0 c w) (\<lambda>w.
      and_then (reinsert_slot h 0 (next_slot c) w) (\<lambda>w.
      let c = lv_current (wh_levels w ! 0) in Inr (set_slot 0 c [] w, ev @ slot_events w 0 c))))"
proof -
  have eta: "\<lparr>lv_events = lv_events l, lv_current = lv_current l\<rparr> = l" for l :: level by simp
  show ?thesis by (simp add: walk_def walk_loop.simps advance_level_def Let_def eta)
qed

lemma expire_fast:
  assumes "wheel_inv h b {} w" "wh_now w < c" "c < wh_now w + 1000" "e \<in> set (slot_events w L j)"
    and "(L, j) \<noteq> (0, lv_current (wh_levels w ! 0))" "(L, j) \<noteq> (0, next_slot (lv_current (wh_levels w ! 0)))"
  shows "\<exists>w' ev'. expire h c ev w = Inr (w', ev') \<and> wheel_inv h b {} w' \<and> pos w' = pos w
    \<and> wh_now w' = c \<and> e \<in> set (slot_events w' L j)"
proof -
  let ?w = "w\<lparr>wh_now := c\<rparr>" and ?c = "lv_current (wh_levels w ! 0)"
  note shape = wheel_inv_shape [OF assms(1)]
  have ms: "elapsed_ms w c = 0" using assms(2,3) by (simp add: elapsed_ms_def)
  have c: "?c < 60" "int ?c = pos w mod 60" using cursor_pos [OF shape, of 0] shape by auto
  have inv: "wheel_inv h b {} ?w"
  proof -
    have "event_ok h b ?w L' j' x" if "event_ok h b w L' j' x" for L' j' x
      using that assms(2) by (auto simp: event_ok_def base_def)
    with assms(1,2) show ?thesis by (auto simp: wheel_inv_def shape_def base_def slot_events_def)
  qed
  from reinsert_slot_inv [OF inv, of 0 ?c] c obtain w1 where w1: "reinsert_slot h 0 ?c ?w = Inr w1"
      "wheel_inv h b {} w1" "pos w1 = pos w" "wh_now w1 = c" by auto
  from reinsert_slot_inv [OF w1(2), of 0 "next_slot ?c"] next_slot_less [OF c(1)] w1(3,4) obtain w2 where
    w2: "reinsert_slot h 0 (next_slot ?c) w1 = Inr w2" "wheel_inv h b {} w2" "pos w2 = pos w" "wh_now w2 = c" by auto
  have "e \<in> set (slot_events ?w L j)" using assms(4) by (simp add: slot_events_def)
  from reinsert_slot_keeps [OF inv _ c(1) w1(1) this] assms(5) have "e \<in> set (slot_events w1 L j)" by simp
  from reinsert_slot_keeps [OF w1(2) _ next_slot_less [OF c(1)] w2(1) this] assms(6)
  have e: "e \<in> set (slot_events w2 L j)" by simp
  have c2: "lv_current (wh_levels w2 ! 0) = ?c"
    using cursor_pos [OF wheel_inv_shape [OF w2(2)], of 0] w2(3) c(2) by simp
  have "expire h c ev w = Inr (set_slot 0 ?c [] w2, ev @ slot_events w2 0 ?c)"
    using assms(2) ms w1(1) w2(1) c2 by (simp add: expire_walk walk_0 Let_def)
  moreover have "e \<in> set (slot_events (set_slot 0 ?c [] w2) L j)"
    using e assms(5) slot_events_set_slot [OF wheel_inv_shape [OF w2(2)] _ c(1), of 0] by auto
  moreover have "wheel_inv h b {} (set_slot 0 ?c [] w2)" using take_current(1) [OF w2(2)] c2 by simp
  ultimately show ?thesis using w2(3,4) by auto
qed

end
