(* ===== verification/Time_Properties.thy ===== *)
theory Time_Properties
  imports Time_Registry
begin

text \<open>
  The claims about the timing wheel, the time registry and sleeping futures, with a concrete
  wheel for each claim that has hypotheses.
\<close>

section \<open>Concrete wheels\<close>

text \<open>Event number \<open>n\<close> expires \<open>n\<close> milliseconds after time 0.\<close>

definition demo_heap :: heap where
  "demo_heap e = \<lparr>ev_future = None, ev_extra = Some (TimeExtra (1000 * int e))\<rparr>"

definition demo_wheel :: wheel where
  "demo_wheel = set_slot 2 1 [7000] (set_slot 0 5 [5] (Wheel 0))"

lemma demo_inserts:
  "insert_event demo_heap 5 (Wheel 0) = Inr (set_slot 0 5 [5] (Wheel 0))"
  "insert_event demo_heap 7000 (set_slot 0 5 [5] (Wheel 0)) = Inr demo_wheel"
  by code_simp+

lemma demo_run: "wheel_run demo_heap 0 [] [5, 7000] [] demo_wheel"
  using run_insert [OF run_insert [OF run_start demo_inserts(1)] demo_inserts(2)] by simp

lemma demo_expire: "\<exists>w. expire demo_heap 6000 [] demo_wheel = Inr (w, [5])"
proof -
  have "map_sum id snd (expire demo_heap 6000 [] demo_wheel) = Inr [5]" by code_simp
  then show ?thesis by (cases "expire demo_heap 6000 [] demo_wheel") auto
qed

section \<open>No event is lost or duplicated\<close>

text \<open>
  C2. Whatever the interleaving of insertions and expirations and however the clock jumps, every
  event ever inserted is, with its multiplicity, either still in the wheel or has been put out,
  and the wheel stays well-formed: five levels of sixty slots with cursors within bounds.
\<close>

theorem wheel_conserves_events:
  assumes "wheel_run h t0 cs ins fired w"
  shows "mset ins = mset fired + contents w \<and> shape w"
  using wheel_run_inv [OF assms] wheel_inv_shape by blast

theorem wheel_conserves_events_witness:
  "\<exists>w. wheel_run demo_heap 0 [6000] [5, 7000] [5] w \<and> contents w = {#7000#}"
proof -
  obtain w where "expire demo_heap 6000 [] demo_wheel = Inr (w, [5])" using demo_expire by blast
  from run_expire [OF demo_run this] have run: "wheel_run demo_heap 0 [6000] [5, 7000] [5] w" by simp
  from wheel_conserves_events [OF run] have "contents w = {#7000#}" by simp
  with run show ?thesis by blast
qed

section \<open>When events are put out\<close>

text \<open>
  C5. No timer fires early: an event that \<open>expire\<close> puts out at clock reading \<open>c\<close> has an expiry
  time less than one millisecond, the resolution of the wheel, after \<open>c\<close>.
\<close>

theorem wheel_never_early:
  assumes "wheel_run h t0 cs ins fired w" "expire h c fired w = Inr (w', fired @ new)" "e \<in> set new"
  shows "expiry h e < c + 1000"
proof -
  have inv: "wheel_inv h t0 {} w" using wheel_run_inv [OF assms(1)] by simp
  show ?thesis using assms(3) by (cases rule: expire_cases [OF inv assms(2)]) (auto simp: expiry_def)
qed

theorem wheel_never_early_witness: "expiry demo_heap 5 < 6000 + 1000"
proof -
  obtain w where "expire demo_heap 6000 [] demo_wheel = Inr (w, [] @ [5])" using demo_expire by auto
  from wheel_never_early [OF demo_run this] show ?thesis by simp
qed

text \<open>
  When the clock readings are whole milliseconds apart and within the span of the wheel,
  \<open>expire\<close> returns and splits the pending events exactly: those that expire before the end of the
  current millisecond are put out, all others stay.
\<close>

theorem wheel_exact:
  assumes "wheel_run h t0 cs ins fired w" "within_span t0 (cs @ [c])"
    and "\<forall>c' \<in> set (cs @ [c]). 1000 dvd (c' - t0)" "wh_now w < c"
  shows "\<exists>w' new. expire h c fired w = Inr (w', fired @ new)
    \<and> mset new = {#e \<in># contents w. expiry h e < c + 1000#}
    \<and> contents w' = {#e \<in># contents w. c + 1000 \<le> expiry h e#}"
  using expire_at_exact [OF wheel_run_at [OF assms(1)] _ _ assms(4), of fired] assms(2,3)
  by (auto simp: within_span_def)

theorem wheel_exact_witness:
  "\<exists>w'. expire demo_heap 6000 [] demo_wheel = Inr (w', [5]) \<and> contents w' = {#7000#}"
proof -
  have ct: "contents demo_wheel = {#5, 7000#}" using wheel_run_inv [OF demo_run] by simp
  have "wh_now demo_wheel < 6000" by code_simp
  with wheel_exact [OF demo_run, of 6000] obtain w' new where
    "expire demo_heap 6000 [] demo_wheel = Inr (w', new)"
    "contents w' = {#e \<in># contents demo_wheel. 6000 + 1000 \<le> expiry demo_heap e#}"
    by (auto simp: within_span_def)
  moreover from this(1) demo_expire have "new = [5]" by auto
  ultimately show ?thesis by (simp add: ct expiry_def demo_heap_def)
qed

text \<open>
  C6. With arbitrary clock readings within the span of the wheel, every call of \<open>expire\<close> drops
  less than a millisecond: after \<open>n\<close> of them an event that is still pending expires no earlier
  than \<open>999 n\<close> microseconds before the end of the current millisecond. A timer is late by less
  than one millisecond per poll.
\<close>

theorem wheel_lateness:
  assumes "wheel_run h t0 cs ins fired w" "within_span t0 (cs @ [c])" "wh_now w < c"
    and "expire h c fired w = Inr (w', fired')" "e \<in># contents w'"
  shows "c + 1000 - 999 * int (length cs + 1) \<le> expiry h e"
proof -
  note inv = wheel_run_inv [OF assms(1)]
  have drift: "base w' \<le> t0 + 999 * int (length (cs @ [c]))"
    using wheel_run_drift [OF run_expire [OF assms(1,4)] assms(2)] .
  have "wh_now w' = c \<and> t0 + 1000 * (pos w' + 1) \<le> expiry h e"
    using assms(3,5) by (cases rule: expire_cases [OF conjunct1 [OF inv] assms(4)]) (auto simp: expiry_def)
  with drift show ?thesis by (simp add: base_def)
qed

theorem wheel_lateness_witness: "6000 + 1000 - 999 * int (length ([] :: int list) + 1) \<le> expiry demo_heap 7000"
proof -
  obtain w where w: "expire demo_heap 6000 [] demo_wheel = Inr (w, [5])" using demo_expire by blast
  from wheel_run_inv [OF run_expire [OF demo_run w]] have "contents w = {#7000#}" by simp
  then have ct: "7000 \<in># contents w" by simp
  have "wh_now demo_wheel < 6000" by code_simp
  with wheel_lateness [OF demo_run _ _ w ct] show ?thesis by (simp add: within_span_def)
qed

section \<open>Where insertion puts an event, and the span of the wheel\<close>

text \<open>
  C7. \<open>insert_event\<close> appends the event to exactly one slot: on the level of the most significant
  base-60 digit in which its due position differs from the current one, in the slot of that digit,
  which never lies behind the cursor of that level. It throws \<open>std::out_of_range\<close> exactly
  when the due position needs more than five digits.
\<close>

theorem insert_event_slot:
  assumes "shape w" "as_time (ev_extra (h e)) = Some t"
  shows "insert_event h e w =
      (if due w t < 60 ^ 5
       then Inr (set_slot (home_level (due w t) (pos w)) (home_slot (due w t) (pos w))
                  (slot_events w (home_level (due w t) (pos w)) (home_slot (due w t) (pos w)) @ [e]) w)
       else Inl Out_of_range)
    \<and> (due w t < 60 ^ 5 \<longrightarrow>
         lv_current (wh_levels w ! home_level (due w t) (pos w)) \<le> home_slot (due w t) (pos w))"
proof (cases "due w t < 60 ^ 5")
  case True
  note home = insert_event_home [where h = h and e = e, OF assms True]
  have "filed (pos w) (home_level (due w t) (pos w)) (home_slot (due w t) (pos w))"
    using home_event_ok(2) [where h = h and e = e, OF assms True order_refl] .
  with cursor_pos [OF assms(1) home(2)]
  have "lv_current (wh_levels w ! home_level (due w t) (pos w)) \<le> home_slot (due w t) (pos w)"
    by (auto simp: filed_def)
  with home(1) True show ?thesis by simp
next
  case False
  with insert_event_overflow [where h = h and e = e, OF assms] show ?thesis by simp
qed

theorem insert_event_slot_witness:
  "shape (Wheel 0) \<and> insert_event demo_heap (60 ^ 5) (Wheel 0) = Inl Out_of_range"
proof -
  have "shape (Wheel 0)" using wheel_inv_shape [OF Wheel_inv(1)] .
  moreover have "due (Wheel 0) (1000 * 60 ^ 5) = 60 ^ 5" by (simp add: due_def Wheel_inv(3)) (simp add: Wheel_def sdiv_nonneg)
  moreover have "as_time (ev_extra (demo_heap (60 ^ 5))) = Some (1000 * 60 ^ 5)" by (simp add: demo_heap_def)
  ultimately show ?thesis using insert_event_slot [of "Wheel 0" demo_heap "60 ^ 5" "1000 * 60 ^ 5"] by simp
qed

text \<open>
  The top cursor does not wrap around. Once \<open>60 ^ 5\<close> milliseconds (nine days) have passed
  since the wheel was made, \<open>expire\<close> throws \<open>std::out_of_range\<close>, whatever the wheel holds;
  the readings are at least a millisecond apart from the wheel's time and whole milliseconds here.
\<close>

theorem wheel_dies_after_span:
  assumes "wheel_run h t0 cs ins fired w" "within_span t0 cs" "\<forall>c' \<in> set cs. 1000 dvd (c' - t0)"
    and "t0 + 1000 * 60 ^ 5 \<le> c" "(c - wh_now w) div 1000 < 2 ^ 31"
  shows "expire h c fired w = Inl Out_of_range"
proof -
  note inv = wheel_run_inv [OF assms(1)]
  note shape = wheel_inv_shape [OF conjunct1 [OF inv]]
  have base: "base w = t0" using wheel_run_aligned [OF assms(1-3)] by simp
  have now: "wh_now w < c" using base shape_pos(2) [OF shape] assms(4) by (simp add: base_def)
  have "elapsed_ms w c = (c - wh_now w) div 1000" by (rule elapsed_ms_exact [OF now assms(5)])
  moreover have "60 ^ 5 - pos w \<le> (c - wh_now w) div 1000"
    using base assms(4) zdiv_mono1 [of "1000 * (60 ^ 5 - pos w)" "c - wh_now w" 1000] by (simp add: base_def)
  ultimately show ?thesis using expire_overflow [OF shape now, of h fired] by simp
qed

theorem wheel_dies_after_span_witness: "expire demo_heap (1000 * 60 ^ 5) [] demo_wheel = Inl Out_of_range"
proof -
  have "wh_now demo_wheel = 0" by code_simp
  then show ?thesis using wheel_dies_after_span [OF demo_run, of "1000 * 60 ^ 5"] by (simp add: within_span_def)
qed

section \<open>Polling faster than the resolution\<close>

fun fast_readings :: "int \<Rightarrow> int list \<Rightarrow> bool" where
  "fast_readings now [] \<longleftrightarrow> True"
| "fast_readings now (c # cs) \<longleftrightarrow> now < c \<and> c < now + 1000 \<and> fast_readings c cs"

definition expire_at :: "heap \<Rightarrow> int \<Rightarrow> wheel \<times> event_ptr list \<Rightarrow> (wheel \<times> event_ptr list) outcome" where
  "expire_at h c = (\<lambda>(w, ev). expire h c ev w)"

text \<open>
  C8. \<open>expire\<close> sets \<open>now_\<close> to the clock even when it moves no cursor. If every reading is less
  than a millisecond after the one before, the cursors never move, however much time passes in
  total: an event in any slot but the current and the next of the lowest level stays there.
\<close>

theorem fast_polling_starves_timers:
  assumes "wheel_inv h b {} w" "fast_readings (wh_now w) cs" "e \<in> set (slot_events w L j)"
    and "(L, j) \<noteq> (0, lv_current (wh_levels w ! 0))" "(L, j) \<noteq> (0, next_slot (lv_current (wh_levels w ! 0)))"
  shows "\<exists>w' ev'. for_each (expire_at h) cs (w, ev) = Inr (w', ev') \<and> pos w' = pos w
    \<and> e \<in> set (slot_events w' L j)"
  using assms
proof (induction cs arbitrary: w ev)
  case (Cons c cs)
  obtain w1 ev1 where 1: "expire h c ev w = Inr (w1, ev1)" "wheel_inv h b {} w1" "pos w1 = pos w"
      "wh_now w1 = c" "e \<in> set (slot_events w1 L j)"
    using expire_fast [OF Cons.prems(1) _ _ Cons.prems(3-5), of c ev] Cons.prems(2) by auto
  have "lv_current (wh_levels w1 ! 0) = lv_current (wh_levels w ! 0)"
    using cursor_pos [OF wheel_inv_shape [OF 1(2)], of 0] cursor_pos [OF wheel_inv_shape [OF Cons.prems(1)], of 0] 1(3)
    by simp
  with Cons.IH [OF 1(2) _ 1(5), of ev1] Cons.prems(2,4,5) 1(1,3,4) show ?case by (auto simp: expire_at_def)
qed auto

theorem fast_polling_starves_timers_witness:
  "\<exists>w' ev'. for_each (expire_at demo_heap) [900, 1800, 2700, 3600, 4500, 5400, 6300, 7200] (demo_wheel, []) = Inr (w', ev')
     \<and> 5 \<in> set (slot_events w' 0 5) \<and> expiry demo_heap 5 = 5000"
proof -
  have inv: "wheel_inv demo_heap 0 {} demo_wheel" using wheel_run_inv [OF demo_run] by simp
  have "wh_now demo_wheel = 0" "lv_current (wh_levels demo_wheel ! 0) = 0" "5 \<in> set (slot_events demo_wheel 0 5)"
    by code_simp+
  then show ?thesis
    using fast_polling_starves_timers [OF inv, of "[900, 1800, 2700, 3600, 4500, 5400, 6300, 7200]" 5 0 5 "[]"]
    by (auto simp: next_slot_def expiry_def demo_heap_def)
qed

section \<open>Sleeping\<close>

text \<open>
  The first poll of a sleeping future is pending and registers its event with the future as the
  waiter; a later \<open>select\<close> of the time registry that hands the event out reads a clock less than a
  millisecond short of the requested duration; the next poll of the future is ready.
\<close>

theorem sleep_wakes_after_duration:
  assumes "time_invar h w" "\<not> sl_ready f" "sl_event f \<notin># contents w"
    and "sleep_poll now this (f, h, w) = Inr (r, f', h', w')"
  shows "\<not> r \<and> time_invar h' w' \<and> contents w' = add_mset (sl_event f) (contents w)
    \<and> ev_future (h' (sl_event f)) = Some this
    \<and> (\<forall>timeout c evs r2 new h2 w2.
         TimeRegistry_select (timeout, c) evs (h', w') = Inr (r2, evs @ new, h2, w2) \<longrightarrow>
         sl_event f \<in> set new \<longrightarrow> now + 1000 * sl_duration f < c + 1000)
    \<and> (\<forall>h2 w2. sleep_poll now2 this (f', h2, w2) = Inr (True, f', h2, w2))"
proof -
  let ?e = "sl_event f" and ?t = "now + 1000 * sl_duration f"
  from assms(2,4) have h': "h' = set_future ?e (Some this) (set_extra ?e (TimeExtra ?t) h)"
      and f': "f' = f\<lparr>sl_ready := True\<rparr>" and r: "\<not> r" and ins: "insert_event h' ?e w = Inr w'"
    by (auto simp: sleep_poll_def TimeRegistry_Register_def outcome_simps Let_def split: option.splits)
  from assms(1) obtain b where "wheel_inv h b {} w" by (auto simp: time_invar_def)
  then have inv: "wheel_inv h' b {} w" by (rule wheel_inv_local) (use assms(3) in \<open>auto simp: h'\<close>)
  have inv': "wheel_inv h' b {} w'" and ct: "contents w' = add_mset ?e (contents w)"
    by (auto intro: insert_event_cases [OF inv ins])
  have "?t < c + 1000"
    if "TimeRegistry_select (timeout, c) evs (h', w') = Inr (r2, evs @ new, h2, w2)" "?e \<in> set new"
    for timeout c evs r2 new h2 w2
  proof -
    from that(1) have ex: "expire h' c evs w' = Inr (w2, evs @ new)"
      by (auto simp: TimeRegistry_select_def outcome_simps)
    show ?thesis using that(2) by (cases rule: expire_cases [OF inv' ex]) (auto simp: h')
  qed
  with inv' ct r f' h' show ?thesis by (auto simp: time_invar_def sleep_poll_def)
qed

theorem sleep_wakes_after_duration_witness:
  "\<exists>f' h' w'. sleep_poll 300 1 (\<lparr>sl_ready = False, sl_duration = 5, sl_event = 9\<rparr>, demo_heap, Wheel 0) = Inr (False, f', h', w')
     \<and> contents w' = {#9#} \<and> ev_future (h' 9) = Some 1
     \<and> sleep_poll 6000 1 (f', h', w') = Inr (True, f', h', w')"
proof -
  let ?f = "\<lparr>sl_ready = False, sl_duration = 5, sl_event = 9\<rparr>"
  have "\<not> isl (sleep_poll 300 1 (?f, demo_heap, Wheel 0))" by code_simp
  then obtain r f' h' w' where *: "sleep_poll 300 1 (?f, demo_heap, Wheel 0) = Inr (r, f', h', w')"
    by (metis prod_cases3 isl_def sum.exhaust surj_pair)
  have "time_invar demo_heap (Wheel 0)" using Wheel_inv(1) by (auto simp: time_invar_def)
  from sleep_wakes_after_duration [OF this _ _ *] * show ?thesis by (auto simp: Wheel_inv(2))
qed

end
