(* ===== verification/Time_Refinement.thy ===== *)
theory Time_Refinement
  imports Time_Properties
begin

text \<open>
  A timing wheel refines a plain timer queue: a clock and a bag of pending events, out of which
  each reading of the clock takes the events that have expired. The queue is the specification of
  \<open>src/time/wheel.cc\<close>; the refinement covers whole sequences of calls, the exceptions included.
\<close>

section \<open>The specification\<close>

datatype timer_op = Insert event_ptr | Expire int

type_synonym timer_queue = "int \<times> event_ptr multiset"

text \<open>
  The queue was made at \<open>t0\<close>. It accepts events and readings in the first \<open>60 ^ 5\<close> milliseconds;
  a reading puts out the events that expire before the end of its millisecond.
\<close>

fun timer_step :: "heap \<Rightarrow> int \<Rightarrow> timer_op \<Rightarrow> timer_queue \<Rightarrow> (event_ptr multiset \<times> timer_queue) outcome" where
  "timer_step h t0 (Insert e) (now, q) =
     (case as_time (ev_extra (h e)) of
        None \<Rightarrow> Inl Null_deref
      | Some t \<Rightarrow> if t < t0 + 1000 * 60 ^ 5 then Inr ({#}, now, add_mset e q) else Inl Out_of_range)"
| "timer_step h t0 (Expire c) (now, q) =
     (if c \<le> now then Inr ({#}, now, q)
      else if c < t0 + 1000 * 60 ^ 5
      then Inr ({#e \<in># q. expiry h e < c + 1000#}, c, {#e \<in># q. c + 1000 \<le> expiry h e#})
      else Inl Out_of_range)"

section \<open>The implementation\<close>

fun wheel_step :: "heap \<Rightarrow> timer_op \<Rightarrow> wheel \<Rightarrow> (event_ptr list \<times> wheel) outcome" where
  "wheel_step h (Insert e) w = and_then (insert_event h e w) (\<lambda>w. Inr ([], w))"
| "wheel_step h (Expire c) w = and_then (expire h c [] w) (\<lambda>(w, ev). Inr (ev, w))"

text \<open>A sequence of calls, with the output of each.\<close>

fun run_ops :: "('op \<Rightarrow> 's \<Rightarrow> ('o \<times> 's) outcome) \<Rightarrow> 'op list \<Rightarrow> 's \<Rightarrow> ('o list \<times> 's) outcome" where
  "run_ops f [] s = Inr ([], s)"
| "run_ops f (x # xs) s =
     and_then (f x s) (\<lambda>(out, s). and_then (run_ops f xs s) (\<lambda>(outs, s). Inr (out # outs, s)))"

text \<open>The readings are whole milliseconds after \<open>t0\<close>, and so few that the step count fits an \<open>int\<close>.\<close>

fun whole_ms :: "int \<Rightarrow> timer_op \<Rightarrow> bool" where
  "whole_ms t0 (Insert e) \<longleftrightarrow> True"
| "whole_ms t0 (Expire c) \<longleftrightarrow> 1000 dvd (c - t0) \<and> c < t0 + 1000 * 2 ^ 31"

definition abs_wheel :: "wheel \<Rightarrow> timer_queue" where
  "abs_wheel w = (wh_now w, contents w)"

section \<open>The simulation\<close>

lemma wheel_step_simulates:
  assumes "wheel_at h t0 w" "whole_ms t0 x"
  shows "map_sum id (map_prod mset abs_wheel) (wheel_step h x w) = timer_step h t0 x (abs_wheel w)
    \<and> (\<forall>out w'. wheel_step h x w = Inr (out, w') \<longrightarrow> wheel_at h t0 w')"
proof (cases x)
  case (Insert e)
  show ?thesis
  proof (cases "as_time (ev_extra (h e))")
    case None
    then show ?thesis using Insert by (simp add: insert_event_def abs_wheel_def)
  next
    case (Some t)
    then show ?thesis
      using Insert insert_event_at [OF assms(1) Some]
      by (cases "t < t0 + 1000 * 60 ^ 5") (auto simp: abs_wheel_def)
  qed
next
  case (Expire c)
  have c: "1000 dvd (c - t0)" "c < t0 + 1000 * 2 ^ 31" using assms(2) Expire by simp_all
  consider "c \<le> wh_now w" | "wh_now w < c" "c < t0 + 1000 * 60 ^ 5" | "wh_now w < c" "t0 + 1000 * 60 ^ 5 \<le> c"
    by linarith
  then show ?thesis
  proof cases
    case 1
    then show ?thesis using Expire assms(1) by (simp add: expire_def abs_wheel_def)
  next
    case 2
    from expire_at_exact [OF assms(1) c(1) 2(2,1), of "[]"] Expire 2 show ?thesis by (auto simp: abs_wheel_def)
  next
    case 3
    from expire_at_overflow [OF assms(1) 3(2) c(2), of "[]"] Expire 3 show ?thesis by (simp add: abs_wheel_def)
  qed
qed

lemma wheel_run_simulates:
  assumes "wheel_at h t0 w" "list_all (whole_ms t0) ops"
  shows "map_sum id (map_prod (map mset) abs_wheel) (run_ops (wheel_step h) ops w)
    = run_ops (timer_step h t0) ops (abs_wheel w)"
  using assms
proof (induction ops arbitrary: w)
  case (Cons x ops)
  then have x: "whole_ms t0 x" and rest: "list_all (whole_ms t0) ops" by simp_all
  note sim = wheel_step_simulates [OF Cons.prems(1) x]
  show ?case
  proof (cases "wheel_step h x w")
    case (Inl a)
    with sim have "timer_step h t0 x (abs_wheel w) = Inl a" by (metis map_sum.simps(1) id_apply)
    with Inl show ?thesis by simp
  next
    case (Inr p)
    obtain out w' where p: "p = (out, w')" by (cases p)
    with Inr sim have step: "timer_step h t0 x (abs_wheel w) = Inr (mset out, abs_wheel w')"
      and at: "wheel_at h t0 w'"
      by (metis map_sum.simps(2) map_prod_simp, blast)
    from Cons.IH [OF at rest] step Inr p show ?thesis
      by (cases "run_ops (wheel_step h) ops w'") (auto simp flip: Cons.IH [OF at rest])
  qed
qed simp

section \<open>The refinement\<close>

text \<open>
  C3. The wheel refines the timer queue. Whatever calls of \<open>insert_event\<close> and \<open>expire\<close> a client
  makes, with clock readings that are whole milliseconds, in any order, forwards or backwards: every
  call puts out the same events as the queue, the wheel holds the events the queue holds, and the
  wheel throws exactly when, and the exception that, the queue does.
\<close>

theorem wheel_refines_queue:
  assumes "list_all (whole_ms t0) ops"
  shows "map_sum id (map_prod (map mset) abs_wheel) (run_ops (wheel_step h) ops (Wheel t0))
    = run_ops (timer_step h t0) ops (t0, {#})"
proof -
  have "wheel_at h t0 (Wheel t0)" "abs_wheel (Wheel t0) = (t0, {#})"
    using Wheel_inv(1) [of h t0] Wheel_inv(2,3) [of t0] by (auto simp: wheel_at_def base_def abs_wheel_def Wheel_def)
  with wheel_run_simulates [OF _ assms] show ?thesis by metis
qed

theorem wheel_refines_queue_witness:
  "map_sum id (map_prod (map mset) abs_wheel)
     (run_ops (wheel_step demo_heap) [Insert 5, Insert 7000, Expire 6000, Insert 3, Expire 2000, Expire 8000000] (Wheel 0))
   = Inr ([{#}, {#}, {#5#}, {#}, {#}, {#3, 7000#}], 8000000, {#})
   \<and> map_sum id (map_prod (map mset) abs_wheel) (run_ops (wheel_step demo_heap) [Insert (60 ^ 5)] (Wheel 0)) = Inl Out_of_range"
  using wheel_refines_queue [of 0 "[Insert 5, Insert 7000, Expire 6000, Insert 3, Expire 2000, Expire 8000000]" demo_heap]
    wheel_refines_queue [of 0 "[Insert (60 ^ 5)]" demo_heap]
  by (simp add: demo_heap_def expiry_def add_mset_commute)

end
