(* ===== verification/Io_State.thy ===== *)
theory Io_State
  imports Xyco_Event
begin

text \<open>
  The bit field \<open>State\<close> that \<open>io::epoll::IoExtra\<close> and \<open>io::uring::IoExtra\<close> both have
  (\<open>include/xyco/io/epoll/registry.ccm\<close>, \<open>include/xyco/io/io_uring/registry.ccm\<close>): one byte,
  a template \<open>set_field\<close> that sets or clears the bits of a flag and \<open>get_field\<close> that tests
  them. The flags of both classes are the same single bits with different names.
\<close>

unbundle bit_operations_syntax

abbreviation (input) Registered :: "8 word" where "Registered \<equiv> 1"
abbreviation (input) Pending :: "8 word" where "Pending \<equiv> 2"
abbreviation (input) Readable :: "8 word" where "Readable \<equiv> 4"
abbreviation (input) Writable :: "8 word" where "Writable \<equiv> 8"
abbreviation (input) Error :: "8 word" where "Error \<equiv> 16"
abbreviation (input) Completed :: "8 word" where "Completed \<equiv> 2"

definition set_field :: "8 word \<Rightarrow> bool \<Rightarrow> 8 word \<Rightarrow> 8 word" where
  "set_field F flag field = (if flag then field OR F else field AND NOT F)"

definition get_field :: "8 word \<Rightarrow> 8 word \<Rightarrow> bool" where
  "get_field F field \<longleftrightarrow> field AND F \<noteq> 0"

lemma get_set_same: "F \<noteq> 0 \<Longrightarrow> get_field F (set_field F flag field) \<longleftrightarrow> flag"
  by (auto simp: get_field_def set_field_def bit_eq_iff bit_simps)

lemma get_set_other: "F AND G = 0 \<Longrightarrow> get_field F (set_field G flag field) \<longleftrightarrow> get_field F field"
proof -
  assume *: "F AND G = 0"
  have "(field OR G) AND F = field AND F" "(field AND NOT G) AND F = field AND F"
    using * by (auto simp: bit_eq_iff bit_simps)
  then show ?thesis by (simp add: get_field_def set_field_def)
qed

lemmas get_set_flag [simp] = get_set_same [of 1] get_set_same [of 2] get_set_same [of 4] get_set_same [of 8] get_set_same [of 16]

end
