(* ===== verification/Epoll_Registry.thy ===== *)
theory Epoll_Registry
  imports Io_State
begin

text \<open>
  The epoll registry of \<open>src/io/epoll/registry.cc\<close>. Its state is the vector of registered
  events. The kernel is outside: what \<open>epoll_ctl\<close> and \<open>epoll_wait\<close> return (the return value,
  \<open>errno\<close> and, for the latter, the filled part of the buffer) are arguments of the operations.
  Each critical section of the code is part of one atomic operation here.
\<close>

section \<open>Definitions\<close>

abbreviation (input) EPOLLIN :: "32 word" where "EPOLLIN \<equiv> 0x001"
abbreviation (input) EPOLLPRI :: "32 word" where "EPOLLPRI \<equiv> 0x002"
abbreviation (input) EPOLLOUT :: "32 word" where "EPOLLOUT \<equiv> 0x004"
abbreviation (input) EPOLLERR :: "32 word" where "EPOLLERR \<equiv> 0x008"
abbreviation (input) EPOLLHUP :: "32 word" where "EPOLLHUP \<equiv> 0x010"
abbreviation (input) EPOLLRDHUP :: "32 word" where "EPOLLRDHUP \<equiv> 0x2000"
abbreviation (input) EPOLLONESHOT :: "32 word" where "EPOLLONESHOT \<equiv> 0x40000000"

definition epoll_IoExtra :: "Interest \<Rightarrow> int \<Rightarrow> epoll_extra" where
  "epoll_IoExtra interest file_descriptor = \<lparr>ep_state = 0, ep_interest = interest, ep_fd = file_descriptor\<rparr>"

fun to_sys :: "Interest \<Rightarrow> 32 word" where
  "to_sys Interest_Read = EPOLLIN OR EPOLLRDHUP OR EPOLLONESHOT"
| "to_sys Interest_Write = EPOLLOUT OR EPOLLRDHUP OR EPOLLONESHOT"
| "to_sys Interest_All = EPOLLIN OR EPOLLOUT OR EPOLLRDHUP OR EPOLLONESHOT"

definition to_state :: "32 word \<Rightarrow> 8 word" where
  "to_state events =
     (let state = set_field Registered True 0 in
      if events AND EPOLLERR \<noteq> 0 \<or> events AND EPOLLHUP \<noteq> 0 \<or> events AND EPOLLRDHUP \<noteq> 0
         \<or> events AND EPOLLPRI \<noteq> 0
      then set_field Error True state
      else (let state = (if events AND EPOLLIN \<noteq> 0 then set_field Readable True state else state);
                state = (if events AND EPOLLOUT \<noteq> 0 then set_field Writable True state else state)
            in if NOT events AND EPOLLIN \<noteq> 0 \<and> NOT events AND EPOLLOUT \<noteq> 0
               then set_field Pending True state else state))"

record epoll_registry =
  er_epfd :: int
  er_registered :: "event_ptr list"

text \<open>The arguments of one \<open>epoll_ctl\<close> call, for the claims about what is asked of the kernel.\<close>

datatype epoll_op = EPOLL_CTL_ADD | EPOLL_CTL_DEL | EPOLL_CTL_MOD

record ctl_call =
  ctl_op :: epoll_op
  ctl_fd :: int
  ctl_events :: "32 word"
  ctl_data :: event_ptr

text \<open>
  \<open>ctl\<close> gives the kernel's answer, a return value and \<open>errno\<close>, to a call.
\<close>

definition epoll_Register ::
  "(ctl_call \<Rightarrow> int \<times> int) \<Rightarrow> event_ptr \<Rightarrow> heap \<times> epoll_registry \<Rightarrow> (unit result \<times> heap \<times> epoll_registry) outcome" where
  "epoll_Register ctl e = (\<lambda>(h, s).
     case as_epoll (ev_extra (h e)) of
       None \<Rightarrow> Inl Null_deref
     | Some extra \<Rightarrow>
         (let s = s\<lparr>er_registered := er_registered s @ [e]\<rparr>;
              h = set_extra e (EpollExtra (extra\<lparr>ep_state := set_field Registered True (ep_state extra)\<rparr>)) h;
              (ret, errno) = ctl \<lparr>ctl_op = EPOLL_CTL_ADD, ctl_fd = ep_fd extra,
                                  ctl_events = to_sys (ep_interest extra), ctl_data = e\<rparr>
          in case into_sys_result errno ret of
               Inr _ \<Rightarrow> Inr (Inr (), h, s)
             | Inl err \<Rightarrow>
                 and_then (erase_found e (er_registered s)) (\<lambda>regs.
                 Inr (Inl err, h, s\<lparr>er_registered := regs\<rparr>))))"

definition epoll_reregister ::
  "(ctl_call \<Rightarrow> int \<times> int) \<Rightarrow> event_ptr \<Rightarrow> heap \<times> epoll_registry \<Rightarrow> (unit result \<times> heap \<times> epoll_registry) outcome" where
  "epoll_reregister ctl e = (\<lambda>(h, s).
     case as_epoll (ev_extra (h e)) of
       None \<Rightarrow> Inl Null_deref
     | Some extra \<Rightarrow>
         (let s = s\<lparr>er_registered := er_registered s @ [e]\<rparr>;
              (ret, errno) = ctl \<lparr>ctl_op = EPOLL_CTL_MOD, ctl_fd = ep_fd extra,
                                  ctl_events = to_sys (ep_interest extra), ctl_data = e\<rparr>
          in case into_sys_result errno ret of
               Inr _ \<Rightarrow> Inr (Inr (), h, s)
             | Inl err \<Rightarrow>
                 and_then (erase_found e (er_registered s)) (\<lambda>regs.
                 Inr (Inl err, h, s\<lparr>er_registered := regs\<rparr>))))"

definition epoll_deregister ::
  "(ctl_call \<Rightarrow> int \<times> int) \<Rightarrow> event_ptr \<Rightarrow> heap \<times> epoll_registry \<Rightarrow> (unit result \<times> heap \<times> epoll_registry) outcome" where
  "epoll_deregister ctl e = (\<lambda>(h, s).
     case as_epoll (ev_extra (h e)) of
       None \<Rightarrow> Inl Null_deref
     | Some extra \<Rightarrow>
         (let (ret, errno) = ctl \<lparr>ctl_op = EPOLL_CTL_DEL, ctl_fd = ep_fd extra,
                                  ctl_events = to_sys (ep_interest extra), ctl_data = e\<rparr>;
              result = into_sys_result errno ret;
              s = s\<lparr>er_registered := remove1 e (er_registered s)\<rparr>;
              h = set_extra e (EpollExtra (extra\<lparr>ep_state := set_field Registered False (ep_state extra)\<rparr>)) h
          in Inr (map_sum id (\<lambda>_. ()) result, h, s)))"

text \<open>One round of the loop of \<open>select\<close>, for one entry (user data and event mask) of the buffer.\<close>

definition epoll_take ::
  "event_ptr \<times> 32 word \<Rightarrow> event_ptr list \<times> heap \<times> epoll_registry \<Rightarrow> (event_ptr list \<times> heap \<times> epoll_registry) outcome" where
  "epoll_take = (\<lambda>(data_ptr, evmask) (events, h, s).
     if data_ptr \<in> set (er_registered s)
     then (case as_epoll (ev_extra (h data_ptr)) of
             None \<Rightarrow> Inl Null_deref
           | Some extra \<Rightarrow>
               Inr (events @ [data_ptr],
                    set_extra data_ptr (EpollExtra (extra\<lparr>ep_state := to_state evmask\<rparr>)) h,
                    s\<lparr>er_registered := remove1 data_ptr (er_registered s)\<rparr>))
     else Inl End_deref)"

text \<open>
  What \<open>epoll_wait\<close> gives: its return value, \<open>errno\<close>, and the buffer of \<open>MAX_EVENTS\<close> entries,
  of which the first \<open>ready_len\<close> are read.
\<close>

record wait_result =
  wr_return :: int
  wr_errno :: int
  wr_buffer :: "(event_ptr \<times> 32 word) list"

definition epoll_select ::
  "int \<times> (int \<Rightarrow> wait_result) \<Rightarrow> event_ptr list \<Rightarrow> heap \<times> epoll_registry
   \<Rightarrow> (unit result \<times> event_ptr list \<times> heap \<times> epoll_registry) outcome" where
  "epoll_select = (\<lambda>(timeout, epoll_wait) events (h, s).
     let wr = epoll_wait (min timeout 1) in
     case into_sys_result (wr_errno wr) (wr_return wr) of
       Inl err \<Rightarrow> if err_no err \<noteq> EINTR then Inr (Inl err, events, h, s) else Inr (Inr (), events, h, s)
     | Inr ready_len \<Rightarrow>
         and_then (for_each epoll_take (take (nat ready_len) (wr_buffer wr)) (events, h, s)) (\<lambda>(events, h, s).
         Inr (Inr (), events, h, s)))"

section \<open>The registry contract\<close>

definition epoll_invar :: "heap \<Rightarrow> epoll_registry \<Rightarrow> bool" where
  "epoll_invar h s \<longleftrightarrow> (\<forall>e \<in> set (er_registered s). as_epoll (ev_extra (h e)) \<noteq> None)"

definition epoll_wakeable :: "heap \<Rightarrow> epoll_registry \<Rightarrow> event_ptr \<Rightarrow> bool" where
  "epoll_wakeable h s e \<longleftrightarrow> as_epoll (ev_extra (h e)) \<noteq> None"

definition epoll_tracked :: "epoll_registry \<Rightarrow> event_ptr multiset" where
  "epoll_tracked s = mset (er_registered s)"

lemma epoll_Register_cases:
  assumes "epoll_Register ctl e (h, s) = Inr (r, h', s')"
  obtains extra where "as_epoll (ev_extra (h e)) = Some extra"
    "h' = set_extra e (EpollExtra (extra\<lparr>ep_state := set_field 1 True (ep_state extra)\<rparr>)) h"
    "er_epfd s' = er_epfd s"
    "(\<exists>err. r = Inl err) \<and> mset (er_registered s') = mset (er_registered s)
     \<or> r = Inr () \<and> er_registered s' = er_registered s @ [e]"
proof (cases "as_epoll (ev_extra (h e))")
  case None
  with assms show thesis by (simp add: epoll_Register_def)
next
  case (Some extra)
  obtain ret errno where ctl: "ctl \<lparr>ctl_op = EPOLL_CTL_ADD, ctl_fd = ep_fd extra,
      ctl_events = to_sys (ep_interest extra), ctl_data = e\<rparr> = (ret, errno)" by (rule prod.exhaust)
  show thesis
  proof (cases "into_sys_result errno ret")
    case (Inl err)
    with assms Some ctl obtain regs where
      *: "erase_found e (er_registered s @ [e]) = Inr regs" "r = Inl err" "er_registered s' = regs" "er_epfd s' = er_epfd s"
        "h' = set_extra e (EpollExtra (extra\<lparr>ep_state := set_field 1 True (ep_state extra)\<rparr>)) h"
      by (auto simp: epoll_Register_def outcome_simps)
    with mset_erase_found [OF *(1)] show thesis by (intro that [OF Some]) auto
  next
    case (Inr n)
    with assms Some ctl show thesis by (intro that [OF Some]) (auto simp: epoll_Register_def)
  qed
qed

lemma epoll_take_cases:
  assumes "epoll_take (p, evmask) (events, h, s) = Inr (events', h', s')"
  obtains extra where "p \<in> set (er_registered s)" "as_epoll (ev_extra (h p)) = Some extra"
    "events' = events @ [p]" "h' = set_extra p (EpollExtra (extra\<lparr>ep_state := to_state evmask\<rparr>)) h"
    "s' = s\<lparr>er_registered := remove1 p (er_registered s)\<rparr>"
  using assms by (auto simp: epoll_take_def split: if_splits option.splits)

lemma epoll_takes:
  assumes "for_each epoll_take buf (events, h, s) = Inr (events', h', s')" "epoll_invar h s"
  shows "epoll_invar h' s' \<and> events' = events @ map fst buf \<and> epoll_tracked s = epoll_tracked s' + mset (map fst buf)
    \<and> (\<forall>a. a \<notin># epoll_tracked s \<longrightarrow> h' a = h a)"
  using assms
proof (induction buf arbitrary: events h s)
  case (Cons b buf)
  obtain p evmask where b: "b = (p, evmask)" by (cases b)
  with Cons.prems obtain ev1 h1 s1 where 1: "epoll_take (p, evmask) (events, h, s) = Inr (ev1, h1, s1)"
      "for_each epoll_take buf (ev1, h1, s1) = Inr (events', h', s')" by (auto simp: outcome_simps)
  from epoll_take_cases [OF 1(1)] obtain extra where *: "p \<in> set (er_registered s)"
      "ev1 = events @ [p]" "h1 = set_extra p (EpollExtra (extra\<lparr>ep_state := to_state evmask\<rparr>)) h"
      "s1 = s\<lparr>er_registered := remove1 p (er_registered s)\<rparr>" by blast
  have "epoll_invar h1 s1"
    using Cons.prems(2) * by (auto simp: epoll_invar_def dest: notin_set_remove1 [THEN contrapos_nn] set_remove1_subset [THEN subsetD])
  note IH = Cons.IH [OF 1(2) this]
  have tr: "epoll_tracked s = add_mset p (epoll_tracked s1)" using * by (simp add: epoll_tracked_def)
  show ?case using IH * tr b by auto
qed (simp add: epoll_tracked_def)

lemma epoll_takes_future:
  "for_each epoll_take buf (events, h, s) = Inr (events', h', s') \<Longrightarrow> ev_future (h' a) = ev_future (h a)"
proof (induction buf arbitrary: events h s)
  case (Cons b buf)
  obtain p m where b: "b = (p, m)" by (cases b)
  with Cons.prems obtain ev1 h1 s1 where 1: "epoll_take (p, m) (events, h, s) = Inr (ev1, h1, s1)"
      "for_each epoll_take buf (ev1, h1, s1) = Inr (events', h', s')" by (auto simp: outcome_simps)
  have "ev_future (h1 a) = ev_future (h a)" by (cases rule: epoll_take_cases [OF 1(1)]) simp
  with Cons.IH [OF 1(2)] show ?case by simp
qed simp

lemma epoll_select_buffer:
  assumes "epoll_select i evs (h, s) = Inr (r, evs', h', s')"
  obtains buf where "for_each epoll_take buf (evs, h, s) = Inr (evs', h', s')"
proof -
  obtain timeout epoll_wait where i: "i = (timeout, epoll_wait)" by (cases i)
  let ?wr = "epoll_wait (min timeout 1)"
  show thesis
  proof (cases "into_sys_result (wr_errno ?wr) (wr_return ?wr)")
    case (Inl err)
    with assms i that [of "[]"] show thesis by (auto simp: epoll_select_def Let_def split: if_splits)
  next
    case (Inr n)
    with assms i that show thesis by (auto simp: epoll_select_def Let_def outcome_simps)
  qed
qed

interpretation epoll_reg: event_registry "epoll_Register ctl" epoll_select epoll_tracked epoll_invar epoll_wakeable for ctl
proof
  fix e h s r h' s'
  assume reg: "epoll_Register ctl e (h, s) = Inr (r, h', s')"
  obtain extra where *:
    "h' = set_extra e (EpollExtra (extra\<lparr>ep_state := set_field 1 True (ep_state extra)\<rparr>)) h"
    "(\<exists>err. r = Inl err) \<and> mset (er_registered s') = mset (er_registered s)
     \<or> r = Inr () \<and> er_registered s' = er_registered s @ [e]"
    by (rule epoll_Register_cases [OF reg]) blast
  then have sub: "set (er_registered s') \<subseteq> insert e (set (er_registered s))" by (auto dest: mset_eq_setD)
  show "a \<noteq> e \<Longrightarrow> h' a = h a" "ev_future (h' a) = ev_future (h a)" for a using * by simp_all
  show "epoll_tracked s' = (case r of Inl _ \<Rightarrow> epoll_tracked s | Inr _ \<Rightarrow> add_mset e (epoll_tracked s))"
    using * by (auto simp: epoll_tracked_def)
  show "epoll_invar h' s'" if "epoll_invar h s"
    using that *(1) sub by (auto simp: epoll_invar_def)
next
  fix i evs h s r evs' h' s'
  assume "epoll_select i evs (h, s) = Inr (r, evs', h', s')"
  then obtain buf where buf: "for_each epoll_take buf (evs, h, s) = Inr (evs', h', s')"
    by (rule epoll_select_buffer)
  show "ev_future (h' a) = ev_future (h a)" for a using epoll_takes_future [OF buf] .
  assume inv: "epoll_invar h s"
  note * = epoll_takes [OF buf inv]
  from * show "epoll_invar h' s'" by simp
  from * show "\<exists>new. evs' = evs @ new \<and> epoll_tracked s = epoll_tracked s' + mset new" by blast
  from * show "h' a = h a" if "a \<notin># epoll_tracked s" for a using that by simp
next
  fix h h' :: heap and s
  assume "epoll_invar h s" "\<And>e. e \<in># epoll_tracked s \<Longrightarrow> ev_extra (h' e) = ev_extra (h e)"
  then show "epoll_invar h' s" by (auto simp: epoll_invar_def epoll_tracked_def)
qed

end
