(* ===== verification/Uring_Registry.thy ===== *)
theory Uring_Registry
  imports Io_State
begin

text \<open>
  The io_uring registry of \<open>src/io/io_uring/registry.cc\<close> and
  \<open>include/xyco/io/io_uring/registry.ccm\<close>. liburing is outside: whether \<open>io_uring_get_sqe\<close>
  finds a free entry and what \<open>io_uring_wait_cqe_timeout\<close> and the completion queue give are
  arguments. The calls the registry makes are kept in order in \<open>ui_calls\<close>, so that what is asked
  of the kernel can be stated.
\<close>

section \<open>Definitions\<close>

datatype uring_op =
    Prep_read int nat "32 word" "64 word"
  | Prep_write int nat "32 word" "64 word"
  | Prep_close int
  | Prep_accept int nat nat int
  | Prep_connect int nat nat
  | Prep_shutdown int int
  | Prep_cancel event_ptr

datatype uring_call =
    Get_sqe bool
  | Prep uring_op
  | Set_data event_ptr
  | Submit
  | Cq_advance int

record uring_registry =
  ui_registered :: "event_ptr list"
  ui_calls :: "uring_call list"

definition log_calls :: "uring_call list \<Rightarrow> uring_registry \<Rightarrow> uring_registry" where
  "log_calls cs s = s\<lparr>ui_calls := ui_calls s @ cs\<rparr>"

fun shutdown_to_underlying :: "Shutdown \<Rightarrow> int" where
  "shutdown_to_underlying Shutdown_Read = 0"
| "shutdown_to_underlying Shutdown_Write = 1"
| "shutdown_to_underlying Shutdown_All = 2"

text \<open>The six \<open>holds_alternative\<close> tests of \<open>Register\<close>; exactly one holds.\<close>

fun prep_op :: "int \<Rightarrow> uring_args \<Rightarrow> uring_op" where
  "prep_op fd (Args_Read buf len offset) = Prep_read fd buf len offset"
| "prep_op fd (Args_Write buf len offset) = Prep_write fd buf len offset"
| "prep_op fd Args_Close = Prep_close fd"
| "prep_op fd (Args_Accept addr addrlen flags) = Prep_accept fd addr addrlen 0"
| "prep_op fd (Args_Connect addr addrlen) = Prep_connect fd addr addrlen"
| "prep_op fd (Args_Shutdown shutdown) = Prep_shutdown fd (shutdown_to_underlying shutdown)"

definition sq_error :: err where
  "sq_error = \<lparr>err_no = 1, err_info = []\<rparr>"

text \<open>
  \<open>sqe1\<close> and \<open>sqe2\<close> tell whether the first and the second call of \<open>io_uring_get_sqe\<close> return
  an entry.
\<close>

definition uring_Register ::
  "bool \<times> bool \<Rightarrow> event_ptr \<Rightarrow> heap \<times> uring_registry \<Rightarrow> (unit result \<times> heap \<times> uring_registry) outcome" where
  "uring_Register = (\<lambda>(sqe1, sqe2) e (h, s).
     let s = log_calls [Get_sqe sqe1] s;
         (sqe, s) = (if \<not> sqe1 then (sqe2, log_calls [Submit, Get_sqe sqe2] s) else (sqe1, s))
     in if sqe
        then (case as_uring (ev_extra (h e)) of
                None \<Rightarrow> Inl Null_deref
              | Some extra \<Rightarrow>
                  (let (h, s) = (if \<not> get_field Registered (ur_state extra)
                                 then (set_extra e (UringExtra (extra\<lparr>ur_state := set_field Registered True (ur_state extra)\<rparr>)) h,
                                       s\<lparr>ui_registered := ui_registered s @ [e]\<rparr>)
                                 else (h, s));
                       s = log_calls [Prep (prep_op (ur_fd extra) (ur_args extra)), Set_data e, Submit] s
                   in Inr (Inr (), h, s)))
        else Inr (Inl sq_error, h, s))"

definition uring_reregister :: "event_ptr \<Rightarrow> heap \<times> uring_registry \<Rightarrow> (unit result \<times> heap \<times> uring_registry) outcome" where
  "uring_reregister e = (\<lambda>(h, s). Inr (Inr (), h, s))"

definition uring_deregister ::
  "bool \<times> bool \<Rightarrow> event_ptr \<Rightarrow> heap \<times> uring_registry \<Rightarrow> (unit result \<times> heap \<times> uring_registry) outcome" where
  "uring_deregister = (\<lambda>(sqe1, sqe2) e (h, s).
     let s = log_calls [Get_sqe sqe1] s;
         s = (if \<not> sqe1 then log_calls [Submit] s else s);
         s = log_calls [Get_sqe sqe2] s
     in if sqe2
        then (case as_uring (ev_extra (h e)) of
                None \<Rightarrow> Inl Null_deref
              | Some extra \<Rightarrow>
                  (let s = log_calls [Prep (Prep_cancel e), Submit] s
                   in and_then (erase_found e (ui_registered s)) (\<lambda>regs.
                      Inr (Inr (),
                           set_extra e (UringExtra (extra\<lparr>ur_state := set_field Registered False (ur_state extra)\<rparr>)) h,
                           s\<lparr>ui_registered := regs\<rparr>))))
        else Inr (Inl sq_error, h, s))"

text \<open>One round of \<open>io_uring_for_each_cqe\<close>, for a completion with its user data and result.\<close>

definition uring_take ::
  "event_ptr option \<times> int \<Rightarrow> event_ptr list \<times> heap \<times> uring_registry \<Rightarrow> (event_ptr list \<times> heap \<times> uring_registry) outcome" where
  "uring_take = (\<lambda>(user_data, res) (events, h, s).
     case user_data of
       None \<Rightarrow> Inr (events, h, s)
     | Some data \<Rightarrow>
         (case as_uring (ev_extra (h data)) of
            None \<Rightarrow> Inl Null_deref
          | Some extra \<Rightarrow>
              (if data \<in> set (ui_registered s)
               then (let extra = extra\<lparr>ur_return := res\<rparr>;
                         extra = extra\<lparr>ur_state := set_field Completed True (ur_state extra)\<rparr>;
                         extra = extra\<lparr>ur_state := set_field Registered False (ur_state extra)\<rparr>
                     in Inr (events @ [data], set_extra data (UringExtra extra) h,
                             s\<lparr>ui_registered := remove1 data (ui_registered s)\<rparr>))
               else Inl End_deref)))"

text \<open>
  What the completion queue gives: the return value of \<open>io_uring_wait_cqe_timeout\<close>, whether it
  set the pointer to a completion, and the completions that are iterated.
\<close>

record cqe_result =
  cq_return :: int
  cq_ptr :: bool
  cq_entries :: "(event_ptr option \<times> int) list"

abbreviation (input) ETIME :: int where "ETIME \<equiv> 62"
abbreviation (input) EBUSY :: int where "EBUSY \<equiv> 16"

text \<open>The timeout in milliseconds as seconds and nanoseconds.\<close>

definition to_timespec :: "int \<Rightarrow> int \<times> int" where
  "to_timespec timeout = (timeout sdiv 1000, (timeout smod 1000) * 1000000)"

definition uring_select ::
  "int \<times> (int \<times> int \<Rightarrow> cqe_result) \<times> string \<Rightarrow> event_ptr list \<Rightarrow> heap \<times> uring_registry
   \<Rightarrow> (unit result \<times> event_ptr list \<times> heap \<times> uring_registry) outcome" where
  "uring_select = (\<lambda>(timeout, wait_cqe, stacktrace) events (h, s).
     let cq = wait_cqe (to_timespec timeout) in
     if cq_return cq < 0 \<and> (- cq_return cq = ETIME \<or> - cq_return cq = EBUSY) then Inr (Inr (), events, h, s)
     else if cq_return cq < 0 then panic stacktrace []
     else if cq_ptr cq
     then and_then (for_each uring_take (cq_entries cq) (events, h, s)) (\<lambda>(events, h, s).
          Inr (Inr (), events, h, log_calls [Cq_advance (int (length (cq_entries cq)))] s))
     else Inr (Inr (), events, h, s))"

section \<open>The registry contract\<close>

text \<open>
  The \<open>Registered\<close> bit of an event's state says that the registry holds the event; an event is
  held once.
\<close>

definition uring_invar :: "heap \<Rightarrow> uring_registry \<Rightarrow> bool" where
  "uring_invar h s \<longleftrightarrow> distinct (ui_registered s) \<and>
     (\<forall>e \<in> set (ui_registered s). \<exists>x. as_uring (ev_extra (h e)) = Some x \<and> get_field Registered (ur_state x))"

definition uring_wakeable :: "heap \<Rightarrow> uring_registry \<Rightarrow> event_ptr \<Rightarrow> bool" where
  "uring_wakeable h s e \<longleftrightarrow> (\<exists>x. as_uring (ev_extra (h e)) = Some x \<and> \<not> get_field Registered (ur_state x))"

definition uring_tracked :: "uring_registry \<Rightarrow> event_ptr multiset" where
  "uring_tracked s = mset (ui_registered s)"

lemma log_calls_simps [simp]:
  "ui_registered (log_calls cs s) = ui_registered s"
  "ui_calls (log_calls cs s) = ui_calls s @ cs"
  "log_calls cs' (log_calls cs s) = log_calls (cs @ cs') s"
  by (simp_all add: log_calls_def)

lemma uring_invar_log [simp]: "uring_invar h (log_calls cs s) = uring_invar h s" "uring_tracked (log_calls cs s) = uring_tracked s"
  by (simp_all add: uring_invar_def uring_tracked_def)

lemma uring_Register_cases:
  assumes "uring_Register (q1, q2) e (h, s) = Inr (r, h', s')"
  obtains (full) "\<not> q1" "\<not> q2" "r = Inl sq_error" "h' = h" "s' = log_calls [Get_sqe False, Submit, Get_sqe False] s"
  | (fresh) x cs where "q1 \<or> q2" "r = Inr ()" "as_uring (ev_extra (h e)) = Some x" "\<not> get_field 1 (ur_state x)"
      "h' = set_extra e (UringExtra (x\<lparr>ur_state := set_field 1 True (ur_state x)\<rparr>)) h"
      "s' = log_calls (cs @ [Prep (prep_op (ur_fd x) (ur_args x)), Set_data e, Submit])
              (s\<lparr>ui_registered := ui_registered s @ [e]\<rparr>)"
  | (again) x cs where "q1 \<or> q2" "r = Inr ()" "as_uring (ev_extra (h e)) = Some x" "get_field 1 (ur_state x)" "h' = h"
      "s' = log_calls (cs @ [Prep (prep_op (ur_fd x) (ur_args x)), Set_data e, Submit]) s"
proof (cases "q1 \<or> q2")
  case False
  with assms show thesis by (intro full) (auto simp: uring_Register_def)
next
  case True
  define cs where "cs = Get_sqe q1 # (if q1 then [] else [Submit, Get_sqe q2])"
  obtain x where x: "as_uring (ev_extra (h e)) = Some x"
    using assms True by (cases "as_uring (ev_extra (h e))"; cases q1) (auto simp: uring_Register_def Let_def)
  show thesis
  proof (cases "get_field 1 (ur_state x)")
    case reg: True
    have "r = Inr () \<and> h' = h
        \<and> s' = log_calls (cs @ [Prep (prep_op (ur_fd x) (ur_args x)), Set_data e, Submit]) s"
      using assms True x reg by (cases q1) (simp_all add: uring_Register_def Let_def cs_def)
    then show thesis using again [OF True _ x reg] by blast
  next
    case reg: False
    have "r = Inr () \<and> h' = set_extra e (UringExtra (x\<lparr>ur_state := set_field 1 True (ur_state x)\<rparr>)) h
        \<and> s' = log_calls (cs @ [Prep (prep_op (ur_fd x) (ur_args x)), Set_data e, Submit])
              (s\<lparr>ui_registered := ui_registered s @ [e]\<rparr>)"
      using assms True x reg by (cases q1) (simp_all add: uring_Register_def Let_def cs_def log_calls_def)
    then show thesis using fresh [OF True _ x reg] by blast
  qed
qed

lemma uring_take_cases:
  assumes "uring_take (d, res) (events, h, s) = Inr (events', h', s')"
  obtains "d = None" "events' = events" "h' = h" "s' = s"
  | p x where "d = Some p" "p \<in> set (ui_registered s)" "as_uring (ev_extra (h p)) = Some x" "events' = events @ [p]"
      "h' = set_extra p (UringExtra (x\<lparr>ur_return := res,
               ur_state := set_field 1 False (set_field 2 True (ur_state x))\<rparr>)) h"
      "s' = s\<lparr>ui_registered := remove1 p (ui_registered s)\<rparr>"
  using assms by (auto simp: uring_take_def Let_def split: if_splits option.splits)

lemma uring_takes:
  assumes "for_each uring_take cqes (events, h, s) = Inr (events', h', s')" "uring_invar h s"
  shows "uring_invar h' s' \<and> events' = events @ List.map_filter fst cqes
    \<and> uring_tracked s = uring_tracked s' + mset (List.map_filter fst cqes) \<and> (\<forall>a. a \<notin># uring_tracked s \<longrightarrow> h' a = h a)"
  using assms
proof (induction cqes arbitrary: events h s)
  case (Cons c cqes)
  obtain d res where c: "c = (d, res)" by (cases c)
  with Cons.prems obtain ev1 h1 s1 where 1: "uring_take (d, res) (events, h, s) = Inr (ev1, h1, s1)"
      "for_each uring_take cqes (ev1, h1, s1) = Inr (events', h', s')" by (auto simp: outcome_simps)
  show ?case
  proof (cases rule: uring_take_cases [OF 1(1)])
    case 1
    with Cons.IH [OF \<open>for_each uring_take cqes (ev1, h1, s1) = _\<close>] Cons.prems(2) c show ?thesis
      by (simp add: List.map_filter_simps)
  next
    case (2 p x)
    have "uring_invar h1 s1" using Cons.prems(2) 2 by (auto simp: uring_invar_def)
    note IH = Cons.IH [OF \<open>for_each uring_take cqes (ev1, h1, s1) = _\<close> this]
    have tr: "uring_tracked s = add_mset p (uring_tracked s1)" using 2 by (simp add: uring_tracked_def)
    show ?thesis using IH 2 tr c by (auto simp: List.map_filter_simps)
  qed
qed (simp add: List.map_filter_simps uring_tracked_def)

lemma uring_takes_future:
  "for_each uring_take cqes (events, h, s) = Inr (events', h', s') \<Longrightarrow> ev_future (h' a) = ev_future (h a)"
proof (induction cqes arbitrary: events h s)
  case (Cons c cqes)
  obtain d res where c: "c = (d, res)" by (cases c)
  with Cons.prems obtain ev1 h1 s1 where 1: "uring_take (d, res) (events, h, s) = Inr (ev1, h1, s1)"
      "for_each uring_take cqes (ev1, h1, s1) = Inr (events', h', s')" by (auto simp: outcome_simps)
  have "ev_future (h1 a) = ev_future (h a)" by (cases rule: uring_take_cases [OF 1(1)]) simp_all
  with Cons.IH [OF 1(2)] show ?case by simp
qed simp

lemma uring_select_entries:
  assumes "uring_select i evs (h, s) = Inr (r, evs', h', s')"
  obtains cqes s1 cs where "for_each uring_take cqes (evs, h, s) = Inr (evs', h', s1)" "s' = log_calls cs s1"
proof -
  have log_Nil: "s = log_calls [] s" for s :: uring_registry by (simp add: log_calls_def)
  obtain timeout wait_cqe st where i: "i = (timeout, wait_cqe, st)" by (cases i)
  let ?cq = "wait_cqe (to_timespec timeout)"
  show thesis
  proof (cases "cq_return ?cq < 0 \<or> \<not> cq_ptr ?cq")
    case True
    with assms i have "evs' = evs" "h' = h" "s' = s"
      by (auto simp: uring_select_def Let_def panic_def split: if_splits)
    then show thesis using that [of "[]" s "[]"] log_Nil by simp
  next
    case False
    with assms i show thesis by (auto simp: uring_select_def Let_def outcome_simps intro: that)
  qed
qed

interpretation uring_reg: event_registry "uring_Register q" uring_select uring_tracked uring_invar uring_wakeable for q
proof
  fix e h s r h' s'
  obtain q1 q2 where q: "q = (q1, q2)" by (cases q)
  assume "uring_Register q e (h, s) = Inr (r, h', s')"
  then have reg: "uring_Register (q1, q2) e (h, s) = Inr (r, h', s')" by (simp add: q)
  show "a \<noteq> e \<Longrightarrow> h' a = h a" for a by (cases rule: uring_Register_cases [OF reg]) simp_all
  show "ev_future (h' a) = ev_future (h a)" for a by (cases rule: uring_Register_cases [OF reg]) simp_all
  assume inv: "uring_invar h s" and wake: "uring_wakeable h s e"
  have e: "e \<notin> set (ui_registered s)" using inv wake by (auto simp: uring_invar_def uring_wakeable_def)
  show "uring_invar h' s'"
    using inv wake e by (cases rule: uring_Register_cases [OF reg]) (auto simp: uring_invar_def)
  show "uring_tracked s' = (case r of Inl _ \<Rightarrow> uring_tracked s | Inr _ \<Rightarrow> add_mset e (uring_tracked s))"
    using wake by (cases rule: uring_Register_cases [OF reg]) (auto simp: uring_tracked_def uring_wakeable_def)
next
  fix i evs h s r evs' h' s'
  assume "uring_select i evs (h, s) = Inr (r, evs', h', s')"
  then obtain cqes s1 cs where *: "for_each uring_take cqes (evs, h, s) = Inr (evs', h', s1)" "s' = log_calls cs s1"
    by (rule uring_select_entries)
  show "ev_future (h' a) = ev_future (h a)" for a using uring_takes_future [OF *(1)] .
  assume inv: "uring_invar h s"
  note t = uring_takes [OF *(1) inv]
  from t *(2) show "uring_invar h' s'" by simp
  from t *(2) show "\<exists>new. evs' = evs @ new \<and> uring_tracked s = uring_tracked s' + mset new" by auto
  from t show "h' a = h a" if "a \<notin># uring_tracked s" for a using that by simp
next
  fix h h' :: heap and s
  assume "uring_invar h s" "\<And>e. e \<in># uring_tracked s \<Longrightarrow> ev_extra (h' e) = ev_extra (h e)"
  then show "uring_invar h' s" by (auto simp: uring_invar_def uring_tracked_def)
qed

end
