(* ===== verification/Blocking_Registry.thy ===== *)
theory Blocking_Registry
  imports Xyco_Event
begin

text \<open>
  The blocking registry and its thread pool (\<open>src/task/registry.cc\<close>) and the future
  \<open>BlockingTask\<close> (\<open>include/xyco/task/blocking_task.ccm\<close>). The worker threads are state
  machines that step through the loop of \<open>BlockingWorker::run\<close>; the registry's \<open>mutex_\<close>, which
  a worker holds while it empties its queue, is part of the state. A worker's own \<open>mutex_\<close> is
  only held within one step.
\<close>

section \<open>Definitions\<close>

text \<open>
  Where a worker thread is: at the test of the outer loop, at the test of the inner loop with the
  registry's mutex held, running a task, waiting on the condition variable, or finished.
\<close>

datatype worker_pc = At_loop | Draining | Running closure | Waiting | Finished

record blocking_worker =
  bw_tasks :: "closure list"
  bw_end :: bool
  bw_pc :: worker_pc

record blocking_registry =
  br_events :: "event_ptr list"
  br_mutex :: "nat option"
  br_workers :: "blocking_worker list"

definition BlockingWorker :: blocking_worker where
  "BlockingWorker = \<lparr>bw_tasks = [], bw_end = False, bw_pc = At_loop\<rparr>"

definition BlockingRegistry :: "nat \<Rightarrow> blocking_registry" where
  "BlockingRegistry worker_num =
     \<lparr>br_events = [], br_mutex = None, br_workers = replicate worker_num BlockingWorker\<rparr>"

definition set_worker :: "nat \<Rightarrow> blocking_worker \<Rightarrow> blocking_registry \<Rightarrow> blocking_registry" where
  "set_worker i w s = s\<lparr>br_workers := (br_workers s)[i := w]\<rparr>"

text \<open>Running a task: the closure of a \<open>BlockingTask\<close> stores its result in the event.\<close>

fun Task_call :: "closure \<Rightarrow> heap \<Rightarrow> heap outcome" where
  "Task_call (Fill_after e addr) h =
     (case as_blocking (ev_extra (h e)) of
        None \<Rightarrow> Inl Null_deref
      | Some (f, _) \<Rightarrow> Inr (set_extra e (BlockingExtra f (Some addr)) h))"

text \<open>One step of a worker thread; None when it has to wait.\<close>

definition BlockingWorker_step :: "nat \<Rightarrow> heap \<times> blocking_registry \<Rightarrow> (heap \<times> blocking_registry) outcome option" where
  "BlockingWorker_step i = (\<lambda>(h, s).
     let w = br_workers s ! i in
     case bw_pc w of
       At_loop \<Rightarrow>
         if bw_end w then Some (Inr (h, set_worker i (w\<lparr>bw_pc := Finished\<rparr>) s))
         else if br_mutex s = None
         then Some (Inr (h, set_worker i (w\<lparr>bw_pc := Draining\<rparr>) (s\<lparr>br_mutex := Some i\<rparr>)))
         else None
     | Draining \<Rightarrow>
         (case bw_tasks w of
            [] \<Rightarrow> Some (Inr (h, set_worker i (w\<lparr>bw_pc := Waiting\<rparr>) (s\<lparr>br_mutex := None\<rparr>)))
          | task # tasks \<Rightarrow> Some (Inr (h, set_worker i (w\<lparr>bw_tasks := tasks, bw_pc := Running task\<rparr>) s)))
     | Running task \<Rightarrow>
         Some (and_then (Task_call task h) (\<lambda>h. Inr (h, set_worker i (w\<lparr>bw_pc := Draining\<rparr>) s)))
     | Waiting \<Rightarrow>
         if bw_tasks w \<noteq> [] \<or> bw_end w then Some (Inr (h, set_worker i (w\<lparr>bw_pc := At_loop\<rparr>) s)) else None
     | Finished \<Rightarrow> None)"

text \<open>\<open>std::min_element\<close>: the first of the smallest.\<close>

fun min_element_loop :: "nat list \<Rightarrow> nat \<Rightarrow> nat \<times> nat \<Rightarrow> nat" where
  "min_element_loop [] it (smallest, v) = smallest"
| "min_element_loop (x # xs) it (smallest, v) =
     min_element_loop xs (Suc it) (if x < v then (it, x) else (smallest, v))"

fun min_element :: "nat list \<Rightarrow> nat option" where
  "min_element [] = None"
| "min_element (x # xs) = Some (min_element_loop xs 1 (0, x))"

definition BlockingPool_spawn :: "closure \<Rightarrow> blocking_registry \<Rightarrow> blocking_registry outcome" where
  "BlockingPool_spawn task s =
     (case min_element (map (\<lambda>w. length (bw_tasks w)) (br_workers s)) of
        None \<Rightarrow> Inl End_deref
      | Some i \<Rightarrow>
          (let w = br_workers s ! i
           in Inr (set_worker i (w\<lparr>bw_tasks := bw_tasks w @ [task]\<rparr>) s)))"

text \<open>The destructor of the pool tells every worker to end, before it joins them.\<close>

definition BlockingPool_end :: "blocking_registry \<Rightarrow> blocking_registry" where
  "BlockingPool_end s = s\<lparr>br_workers := map (\<lambda>w. w\<lparr>bw_end := True\<rparr>) (br_workers s)\<rparr>"

text \<open>\<open>Register\<close> is two critical sections: the event is recorded, then its task is queued.\<close>

definition blocking_push :: "event_ptr \<Rightarrow> blocking_registry \<Rightarrow> blocking_registry" where
  "blocking_push e s = s\<lparr>br_events := br_events s @ [e]\<rparr>"

definition blocking_spawn :: "event_ptr \<Rightarrow> heap \<times> blocking_registry \<Rightarrow> (heap \<times> blocking_registry) outcome" where
  "blocking_spawn e = (\<lambda>(h, s).
     case as_blocking (ev_extra (h e)) of
       None \<Rightarrow> Inl Null_deref
     | Some (before_extra, _) \<Rightarrow> and_then (BlockingPool_spawn before_extra s) (\<lambda>s. Inr (h, s)))"

definition blocking_Register ::
  "event_ptr \<Rightarrow> heap \<times> blocking_registry \<Rightarrow> (unit result \<times> heap \<times> blocking_registry) outcome" where
  "blocking_Register e = (\<lambda>(h, s).
     and_then (blocking_spawn e (h, blocking_push e s)) (\<lambda>(h, s). Inr (Inr (), h, s)))"

definition blocking_reregister ::
  "event_ptr \<Rightarrow> heap \<times> blocking_registry \<Rightarrow> (unit result \<times> heap \<times> blocking_registry) outcome" where
  "blocking_reregister e = (\<lambda>(h, s). Inr (Inr (), h, s))"

definition blocking_deregister ::
  "event_ptr \<Rightarrow> heap \<times> blocking_registry \<Rightarrow> (unit result \<times> heap \<times> blocking_registry) outcome" where
  "blocking_deregister e = (\<lambda>(h, s). Inr (Inr (), h, s))"

definition after_extra :: "heap \<Rightarrow> event_ptr \<Rightarrow> nat option outcome" where
  "after_extra h e = (case as_blocking (ev_extra (h e)) of None \<Rightarrow> Inl Null_deref | Some (_, a) \<Rightarrow> Inr a)"

fun copy_if :: "('a \<Rightarrow> bool outcome) \<Rightarrow> 'a list \<Rightarrow> 'a list \<Rightarrow> 'a list outcome" where
  "copy_if P [] out = Inr out"
| "copy_if P (x # xs) out = and_then (P x) (\<lambda>b. copy_if P xs (if b then out @ [x] else out))"

definition blocking_select ::
  "int \<Rightarrow> event_ptr list \<Rightarrow> heap \<times> blocking_registry \<Rightarrow> (unit result \<times> event_ptr list \<times> heap \<times> blocking_registry) outcome" where
  "blocking_select timeout events = (\<lambda>(h, s).
     and_then (copy_if (\<lambda>e. and_then (after_extra h e) (\<lambda>a. Inr (a = None))) (br_events s) []) (\<lambda>new_events.
     and_then (copy_if (\<lambda>e. and_then (after_extra h e) (\<lambda>a. Inr (a \<noteq> None))) (br_events s) events) (\<lambda>events.
     Inr (Inr (), events, h, s\<lparr>br_events := new_events\<rparr>))))"

section \<open>The future\<close>

record blocking_task =
  bt_ready :: bool
  bt_event :: event_ptr

text \<open>
  The constructor at address \<open>this\<close>: the event it makes holds the closure that fills it in; the
  value the function returns will be at \<open>addr\<close>.
\<close>

definition BlockingTask :: "future_ptr \<Rightarrow> event_ptr \<Rightarrow> nat \<Rightarrow> heap \<Rightarrow> blocking_task \<times> heap" where
  "BlockingTask this e addr h =
     (\<lparr>bt_ready = False, bt_event = e\<rparr>,
      h(e := \<lparr>ev_future = Some this, ev_extra = Some (BlockingExtra (Fill_after e addr) None)\<rparr>))"

text \<open>The result of \<open>poll\<close> is pending (None) or the address of the value.\<close>

definition BlockingTask_poll ::
  "blocking_task \<times> heap \<times> blocking_registry \<Rightarrow> (nat option \<times> blocking_task \<times> heap \<times> blocking_registry) outcome" where
  "BlockingTask_poll = (\<lambda>(t, h, s).
     if \<not> bt_ready t
     then and_then (blocking_Register (bt_event t) (h, s)) (\<lambda>(r, h, s). Inr (None, t\<lparr>bt_ready := True\<rparr>, h, s))
     else and_then (after_extra h (bt_event t)) (\<lambda>ret.
          case ret of
            None \<Rightarrow> Inl Null_deref
          | Some addr \<Rightarrow>
              and_then (blocking_deregister (bt_event t) (h, s)) (\<lambda>(r, h, s). Inr (Some addr, t, h, s))))"

end
