(* ===== verification/Blocking_Proofs.thy ===== *)
theory Blocking_Proofs
  imports Blocking_Registry
begin

text \<open>
  The blocking registry keeps the registry contract, and its pool loses no task: over every
  interleaving of registrations, selections and worker steps each registered event is waiting for
  its second critical section, or its task is in exactly one queue or running, or its result is
  there. When the workers have nothing left to do, every result is there.
\<close>

section \<open>The library idioms\<close>

lemma copy_if_Inr:
  "copy_if P xs out = Inr ys \<longleftrightarrow> (\<forall>x \<in> set xs. \<exists>b. P x = Inr b) \<and> ys = out @ filter (\<lambda>x. P x = Inr True) xs"
proof (induction xs arbitrary: out)
  case (Cons x xs)
  show ?case by (cases "P x") (auto simp: Cons.IH)
qed auto

lemma min_element_loop_spec:
  assumes "smallest < it" "\<And>j. j < it \<Longrightarrow> f smallest \<le> (f j :: nat)" "v = f smallest"
    "\<And>j. j < length xs \<Longrightarrow> xs ! j = f (it + j)"
  shows "min_element_loop xs it (smallest, v) < it + length xs
    \<and> (\<forall>j < it + length xs. f (min_element_loop xs it (smallest, v)) \<le> f j)"
  using assms
proof (induction xs arbitrary: it smallest v)
  case (Cons x xs)
  have x: "x = f it" using Cons.prems(4) [of 0] by simp
  have rest: "\<And>j. j < length xs \<Longrightarrow> xs ! j = f (Suc it + j)" using Cons.prems(4) [of "Suc _"] by simp
  show ?case
  proof (cases "x < v")
    case True
    with Cons.prems x have "\<And>j. j < Suc it \<Longrightarrow> f it \<le> f j" by (metis less_Suc_eq less_imp_le order_le_less_trans order_refl order.strict_trans1)
    with Cons.IH [of it "Suc it" x] rest x True show ?thesis by simp
  next
    case False
    with Cons.prems x have "\<And>j. j < Suc it \<Longrightarrow> f smallest \<le> f j" by (auto simp: less_Suc_eq)
    with Cons.IH [of smallest "Suc it" v] rest False Cons.prems(1,3) show ?thesis by simp
  qed
qed auto

lemma min_element_spec:
  assumes "min_element xs = Some i"
  shows "i < length xs" "j < length xs \<Longrightarrow> xs ! i \<le> xs ! j"
proof -
  from assms obtain x ys where xs: "xs = x # ys" by (cases xs) auto
  have "min_element_loop ys 1 (0, x) < 1 + length ys
      \<and> (\<forall>j < 1 + length ys. xs ! min_element_loop ys 1 (0, x) \<le> xs ! j)"
    by (rule min_element_loop_spec [where f = "nth xs"]) (auto simp: xs)
  with assms xs show "i < length xs" "j < length xs \<Longrightarrow> xs ! i \<le> xs ! j" by auto
qed

lemma min_element_Some: "xs \<noteq> [] \<Longrightarrow> \<exists>i. min_element xs = Some i"
  by (cases xs) auto

section \<open>The registry contract\<close>

definition blocking_invar :: "heap \<Rightarrow> blocking_registry \<Rightarrow> bool" where
  "blocking_invar h s \<longleftrightarrow> (\<forall>e \<in> set (br_events s). as_blocking (ev_extra (h e)) \<noteq> None)"

definition blocking_wakeable :: "heap \<Rightarrow> blocking_registry \<Rightarrow> event_ptr \<Rightarrow> bool" where
  "blocking_wakeable h s e \<longleftrightarrow> as_blocking (ev_extra (h e)) \<noteq> None"

definition blocking_tracked :: "blocking_registry \<Rightarrow> event_ptr multiset" where
  "blocking_tracked s = mset (br_events s)"

lemma set_worker_events [simp]: "br_events (set_worker i w s) = br_events s" "br_mutex (set_worker i w s) = br_mutex s"
  by (simp_all add: set_worker_def)

lemma blocking_Register_cases:
  assumes "blocking_Register e (h, s) = Inr (r, h', s')"
  shows "r = Inr ()" "h' = h" "br_events s' = br_events s @ [e]" "as_blocking (ev_extra (h e)) \<noteq> None"
  using assms
  by (auto simp: blocking_Register_def blocking_spawn_def blocking_push_def BlockingPool_spawn_def Let_def
      outcome_simps split: option.splits prod.splits)

definition blocking_ready :: "heap \<Rightarrow> event_ptr \<Rightarrow> bool" where
  "blocking_ready h e \<longleftrightarrow> (\<exists>a. after_extra h e = Inr (Some a))"

lemma blocking_select_Inr:
  "blocking_select t evs (h, s) = Inr (r, evs', h', s') \<longleftrightarrow>
     blocking_invar h s \<and> r = Inr () \<and> h' = h \<and> evs' = evs @ filter (blocking_ready h) (br_events s)
     \<and> s' = s\<lparr>br_events := filter (\<lambda>e. \<not> blocking_ready h e) (br_events s)\<rparr>"
proof -
  have P: "(\<exists>b. and_then (after_extra h e) (\<lambda>a. Inr (Q a)) = Inr b) \<longleftrightarrow> as_blocking (ev_extra (h e)) \<noteq> None" for e Q
    by (auto simp: after_extra_def split: option.splits)
  have ready: "and_then (after_extra h e) (\<lambda>a. Inr (a \<noteq> None)) = Inr True \<longleftrightarrow> blocking_ready h e" for e
    by (cases "after_extra h e") (auto simp: blocking_ready_def)
  have not_ready: "and_then (after_extra h e) (\<lambda>a. Inr (a = None)) = Inr True \<longleftrightarrow> \<not> blocking_ready h e"
    if "as_blocking (ev_extra (h e)) \<noteq> None" for e
    using that by (auto simp: blocking_ready_def after_extra_def split: option.splits)
  have filter_eq: "filter (\<lambda>e. and_then (after_extra h e) (\<lambda>a. Inr (a = None)) = Inr True) (br_events s)
      = filter (\<lambda>e. \<not> blocking_ready h e) (br_events s)" if "blocking_invar h s"
    using that not_ready by (intro filter_cong) (auto simp: blocking_invar_def)
  have waiting: "copy_if (\<lambda>e. and_then (after_extra h e) (\<lambda>a. Inr (a = None))) (br_events s) out = Inr ys
      \<longleftrightarrow> blocking_invar h s \<and> ys = out @ filter (\<lambda>e. \<not> blocking_ready h e) (br_events s)" for out ys
    unfolding copy_if_Inr P using filter_eq by (auto simp only: blocking_invar_def)
  have finished: "copy_if (\<lambda>e. and_then (after_extra h e) (\<lambda>a. Inr (a \<noteq> None))) (br_events s) out = Inr ys
      \<longleftrightarrow> blocking_invar h s \<and> ys = out @ filter (blocking_ready h) (br_events s)" for out ys
    unfolding copy_if_Inr P ready by (simp only: blocking_invar_def)
  show ?thesis unfolding blocking_select_def prod.case and_then_Inr_iff waiting finished by auto
qed

interpretation blocking_reg: event_registry blocking_Register blocking_select blocking_tracked blocking_invar blocking_wakeable
proof
  fix e h s r h' s'
  assume "blocking_Register e (h, s) = Inr (r, h', s')"
  note * = blocking_Register_cases [OF this]
  show "a \<noteq> e \<Longrightarrow> h' a = h a" "ev_future (h' a) = ev_future (h a)" for a using *(2) by simp_all
  show "blocking_tracked s' = (case r of Inl _ \<Rightarrow> blocking_tracked s | Inr _ \<Rightarrow> add_mset e (blocking_tracked s))"
    using * by (simp add: blocking_tracked_def)
  show "blocking_invar h' s'" if "blocking_invar h s" using that * by (auto simp: blocking_invar_def)
next
  fix i evs h s r evs' h' s'
  assume "blocking_select i evs (h, s) = Inr (r, evs', h', s')"
  then have *: "h' = h" "evs' = evs @ filter (blocking_ready h) (br_events s)"
      "s' = s\<lparr>br_events := filter (\<lambda>e. \<not> blocking_ready h e) (br_events s)\<rparr>" by (auto simp: blocking_select_Inr)
  show "ev_future (h' a) = ev_future (h a)" "a \<notin># blocking_tracked s \<Longrightarrow> h' a = h a" for a using * by simp_all
  show "blocking_invar h' s'" if "blocking_invar h s" using that * by (auto simp: blocking_invar_def)
  have "mset (br_events s) = mset (filter (\<lambda>e. \<not> blocking_ready h e) (br_events s)) + mset (filter (blocking_ready h) (br_events s))"
    by (metis add.commute mset_filter multiset_partition)
  then show "\<exists>new. evs' = evs @ new \<and> blocking_tracked s = blocking_tracked s' + mset new"
    using * by (auto simp: blocking_tracked_def)
next
  fix h h' :: heap and s
  assume "blocking_invar h s" "\<And>e. e \<in># blocking_tracked s \<Longrightarrow> ev_extra (h' e) = ev_extra (h e)"
  then show "blocking_invar h' s" by (auto simp: blocking_invar_def blocking_tracked_def)
qed

section \<open>The pool as a transition system\<close>

text \<open>
  A state is the heap, the registry, the events between the two critical sections of
  \<open>Register\<close>, and the events handed out. Registrations and selections need the registry's mutex.
  Events are made by \<open>BlockingTask\<close> and registered once.
\<close>

type_synonym blocking_state = "heap \<times> blocking_registry \<times> event_ptr list \<times> event_ptr list"

inductive blocking_step :: "blocking_state \<Rightarrow> blocking_state \<Rightarrow> bool" where
  step_new: "e \<notin> set (br_events s) \<Longrightarrow> e \<notin> set out \<Longrightarrow>
    blocking_step (h, s, p, out) (snd (BlockingTask this e addr h), s, p, out)"
| step_push: "br_mutex s = None \<Longrightarrow> e \<notin> set (br_events s) \<Longrightarrow>
    as_blocking (ev_extra (h e)) = Some (Fill_after e addr, None) \<Longrightarrow>
    blocking_step (h, s, p, out) (h, blocking_push e s, p @ [e], out)"
| step_spawn: "e \<in> set p \<Longrightarrow> blocking_spawn e (h, s) = Inr (h', s') \<Longrightarrow>
    blocking_step (h, s, p, out) (h', s', remove1 e p, out)"
| step_select: "br_mutex s = None \<Longrightarrow> blocking_select t out (h, s) = Inr (r, out', h', s') \<Longrightarrow>
    blocking_step (h, s, p, out) (h', s', p, out')"
| step_work: "i < length (br_workers s) \<Longrightarrow> BlockingWorker_step i (h, s) = Some (Inr (h', s')) \<Longrightarrow>
    blocking_step (h, s, p, out) (h', s', p, out)"
| step_end: "blocking_step (h, s, p, out) (h, BlockingPool_end s, p, out)"

fun holds_mutex :: "worker_pc \<Rightarrow> bool" where
  "holds_mutex Draining = True"
| "holds_mutex (Running t) = True"
| "holds_mutex pc = False"

definition worker_closures :: "blocking_worker \<Rightarrow> closure list" where
  "worker_closures w = (case bw_pc w of Running t \<Rightarrow> [t] | _ \<Rightarrow> []) @ bw_tasks w"

definition pending :: "blocking_registry \<Rightarrow> closure multiset" where
  "pending s = mset (concat (map worker_closures (br_workers s)))"

definition mutex_ok :: "blocking_registry \<Rightarrow> bool" where
  "mutex_ok s \<longleftrightarrow> (\<forall>i < length (br_workers s). holds_mutex (bw_pc (br_workers s ! i)) \<longleftrightarrow> br_mutex s = Some i)
     \<and> (\<forall>i. br_mutex s = Some i \<longrightarrow> i < length (br_workers s))"

definition tasks_ok :: "heap \<Rightarrow> event_ptr list \<Rightarrow> event_ptr multiset \<Rightarrow> closure multiset \<Rightarrow> bool" where
  "tasks_ok h evs p q \<longleftrightarrow> distinct evs \<and> set_mset p \<subseteq> set evs
     \<and> (\<forall>e \<in> set evs. \<exists>a r. as_blocking (ev_extra (h e)) = Some (Fill_after e a, r) \<and> (r = None \<or> r = Some a)
          \<and> count q (Fill_after e a) + count p e = (if r = None then 1 else 0))
     \<and> (\<forall>e a. Fill_after e a \<in># q \<longrightarrow> e \<in> set evs \<and> as_blocking (ev_extra (h e)) = Some (Fill_after e a, None))"

definition blocking_ok :: "blocking_state \<Rightarrow> bool" where
  "blocking_ok = (\<lambda>(h, s, p, out). mutex_ok s \<and> tasks_ok h (br_events s) (mset p) (pending s)
     \<and> set (br_events s) \<inter> set out = {} \<and> (\<forall>e \<in> set out. blocking_ready h e))"

lemma pending_set_worker:
  "i < length (br_workers s) \<Longrightarrow>
     pending (set_worker i w s) + mset (worker_closures (br_workers s ! i)) = pending s + mset (worker_closures w)"
  using mset_concat_update [of i "map worker_closures (br_workers s)" "worker_closures w"]
  by (simp add: pending_def set_worker_def map_update)

lemma BlockingWorker_step_cases:
  assumes "BlockingWorker_step i (h, s) = Some (Inr (h', s'))"
  defines "w \<equiv> br_workers s ! i"
  obtains w' m where "s' = set_worker i w' (s\<lparr>br_mutex := m\<rparr>)"
    "m = (if holds_mutex (bw_pc w') = holds_mutex (bw_pc w) then br_mutex s
          else if holds_mutex (bw_pc w') then Some i else None)"
    "holds_mutex (bw_pc w') \<Longrightarrow> holds_mutex (bw_pc w) \<or> br_mutex s = None"
    "h' = h \<and> worker_closures w' = worker_closures w
     \<or> (\<exists>t. Task_call t h = Inr h' \<and> worker_closures w = t # worker_closures w')"
proof -
  show thesis
  proof (cases "bw_pc w")
    case At_loop
    show thesis
    proof (cases "bw_end w")
      case True
      with At_loop assms show thesis
        by (intro that [of "w\<lparr>bw_pc := Finished\<rparr>" "br_mutex s"]) (auto simp: BlockingWorker_step_def worker_closures_def)
    next
      case False
      with At_loop assms show thesis
        by (intro that [of "w\<lparr>bw_pc := Draining\<rparr>" "Some i"])
          (auto simp: BlockingWorker_step_def worker_closures_def split: if_splits)
    qed
  next
    case Draining
    show thesis
    proof (cases "bw_tasks w")
      case Nil
      with Draining assms show thesis
        by (intro that [of "w\<lparr>bw_pc := Waiting\<rparr>" None]) (auto simp: BlockingWorker_step_def worker_closures_def)
    next
      case (Cons t ts)
      with Draining assms show thesis
        by (intro that [of "w\<lparr>bw_tasks := ts, bw_pc := Running t\<rparr>" "br_mutex s"])
          (auto simp: BlockingWorker_step_def worker_closures_def)
    qed
  next
    case (Running t)
    with assms show thesis
      by (intro that [of "w\<lparr>bw_pc := Draining\<rparr>" "br_mutex s"])
        (auto simp: BlockingWorker_step_def worker_closures_def outcome_simps)
  next
    case Waiting
    with assms show thesis
      by (intro that [of "w\<lparr>bw_pc := At_loop\<rparr>" "br_mutex s"])
        (auto simp: BlockingWorker_step_def worker_closures_def Let_def split: if_splits)
  next
    case Finished
    with assms show thesis by (simp add: BlockingWorker_step_def)
  qed
qed

section \<open>Every step keeps the invariant\<close>

lemma tasks_okD:
  assumes "tasks_ok h evs p q" "e \<in> set evs"
  obtains a r where "as_blocking (ev_extra (h e)) = Some (Fill_after e a, r)" "r = None \<or> r = Some a"
    "count q (Fill_after e a) + count p e = (if r = None then 1 else 0)"
  using assms unfolding tasks_ok_def by metis

lemma tasks_ok_queued:
  assumes "tasks_ok h evs p q" "Fill_after e a \<in># q"
  shows "e \<in> set evs" "as_blocking (ev_extra (h e)) = Some (Fill_after e a, None)"
  using assms unfolding tasks_ok_def by auto

lemma tasks_ok_spawning:
  assumes "tasks_ok h evs p q" "e \<in># p"
  obtains a where "e \<in> set evs" "as_blocking (ev_extra (h e)) = Some (Fill_after e a, None)"
    "count q (Fill_after e a) = 0" "count p e = 1"
proof -
  from assms have e: "e \<in> set evs" by (auto simp: tasks_ok_def)
  from assms(2) have c: "0 < count p e" by simp
  obtain a r where *: "as_blocking (ev_extra (h e)) = Some (Fill_after e a, r)"
      "count q (Fill_after e a) + count p e = (if r = None then 1 else 0)"
    by (rule tasks_okD [OF assms(1) e])
  have r: "r = None" using *(2) c by (cases r) (simp_all del: count_greater_zero_iff)
  then have "count q (Fill_after e a) + count p e = 1" using *(2) by simp
  with c have "count q (Fill_after e a) = 0" "count p e = 1" by linarith+
  with *(1) e r show thesis by (intro that) auto
qed

lemma tasks_ok_heap:
  assumes "tasks_ok h evs p q" "\<And>e. e \<in> set evs \<Longrightarrow> ev_extra (h' e) = ev_extra (h e)"
  shows "tasks_ok h' evs p q"
  using assms unfolding tasks_ok_def by metis

lemma tasks_ok_push:
  assumes "tasks_ok h evs p q" "e \<notin> set evs" "as_blocking (ev_extra (h e)) = Some (Fill_after e a, None)"
  shows "tasks_ok h (evs @ [e]) (add_mset e p) q"
proof -
  have "count q (Fill_after e a) = 0" "count p e = 0"
    using assms(1,2) tasks_ok_queued(1) [OF assms(1)] by (auto simp: tasks_ok_def not_in_iff [symmetric])
  moreover have "\<exists>a r. as_blocking (ev_extra (h x)) = Some (Fill_after x a, r) \<and> (r = None \<or> r = Some a)
      \<and> count q (Fill_after x a) + count (add_mset e p) x = (if r = None then 1 else 0)" if x: "x \<in> set evs" for x
  proof -
    from x assms(2) have "x \<noteq> e" by auto
    with tasks_okD [OF assms(1) x] show ?thesis by (metis count_add_mset)
  qed
  ultimately show ?thesis using assms unfolding tasks_ok_def by auto
qed

lemma tasks_ok_spawn:
  assumes "tasks_ok h evs p q" "e \<in># p" "as_blocking (ev_extra (h e)) = Some (f, r)"
  shows "tasks_ok h evs (p - {#e#}) (add_mset f q)"
proof -
  obtain a where *: "e \<in> set evs" "as_blocking (ev_extra (h e)) = Some (Fill_after e a, None)"
      "count q (Fill_after e a) = 0" "count p e = 1"
    by (rule tasks_ok_spawning [OF assms(1,2)])
  then have f: "f = Fill_after e a" "r = None" using assms(3) by auto
  have "\<exists>a r. as_blocking (ev_extra (h x)) = Some (Fill_after x a, r) \<and> (r = None \<or> r = Some a)
      \<and> count (add_mset f q) (Fill_after x a) + count (p - {#e#}) x = (if r = None then 1 else 0)"
    if x: "x \<in> set evs" for x
  proof (cases "x = e")
    case True
    with * f show ?thesis by auto
  next
    case False
    with tasks_okD [OF assms(1) x] f show ?thesis by (metis closure.inject count_add_mset count_diff count_single diff_zero)
  qed
  with assms(1) * f show ?thesis
    unfolding tasks_ok_def by (auto dest: in_diffD)
qed

lemma tasks_ok_call:
  assumes "tasks_ok h evs p (add_mset t q)" "Task_call t h = Inr h'"
  shows "tasks_ok h' evs p q"
proof -
  obtain e a where t: "t = Fill_after e a" by (cases t)
  have e: "e \<in> set evs" "as_blocking (ev_extra (h e)) = Some (Fill_after e a, None)"
    using tasks_ok_queued [OF assms(1)] t by auto
  obtain a' r where *: "as_blocking (ev_extra (h e)) = Some (Fill_after e a', r)"
      "count (add_mset t q) (Fill_after e a') + count p e = (if r = None then 1 else 0)"
    by (rule tasks_okD [OF assms(1) e(1)])
  with e(2) t have zero: "count q (Fill_after e a) = 0" "count p e = 0" by auto
  have h': "h' = set_extra e (BlockingExtra (Fill_after e a) (Some a)) h" using assms(2) e(2) t by simp
  have "\<exists>a r. as_blocking (ev_extra (h' x)) = Some (Fill_after x a, r) \<and> (r = None \<or> r = Some a)
      \<and> count q (Fill_after x a) + count p x = (if r = None then 1 else 0)" if x: "x \<in> set evs" for x
  proof (cases "x = e")
    case True
    with zero h' show ?thesis by auto
  next
    case False
    then have "ev_extra (h' x) = ev_extra (h x)" by (simp add: h')
    with False tasks_okD [OF assms(1) x] t show ?thesis by (metis closure.inject count_add_mset)
  qed
  moreover have "x \<in> set evs \<and> as_blocking (ev_extra (h' x)) = Some (Fill_after x b, None)" if "Fill_after x b \<in># q" for x b
  proof -
    have *: "x \<in> set evs" "as_blocking (ev_extra (h x)) = Some (Fill_after x b, None)"
      using tasks_ok_queued [OF assms(1)] that by auto
    with e(2) that zero(1) have "x \<noteq> e" by (auto simp: not_in_iff [symmetric])
    with * show ?thesis by (simp add: h')
  qed
  ultimately show ?thesis using assms(1) unfolding tasks_ok_def by blast
qed

lemma tasks_ok_take_ready:
  assumes "tasks_ok h evs p q"
  shows "tasks_ok h (filter (\<lambda>e. \<not> blocking_ready h e) evs) p q"
proof -
  have waiting: "\<not> blocking_ready h e" if "as_blocking (ev_extra (h e)) = Some (f, None)" for e f
    using that by (simp add: blocking_ready_def after_extra_def)
  have "e \<in> set evs \<and> \<not> blocking_ready h e" if "e \<in># p" for e
    using tasks_ok_spawning [OF assms that] waiting by metis
  with assms waiting show ?thesis unfolding tasks_ok_def by auto
qed

lemma mutex_ok_update:
  assumes "mutex_ok s" "i < length (br_workers s)" "holds_mutex (bw_pc w') \<Longrightarrow> holds_mutex (bw_pc (br_workers s ! i)) \<or> br_mutex s = None"
    and "m = (if holds_mutex (bw_pc w') = holds_mutex (bw_pc (br_workers s ! i)) then br_mutex s
              else if holds_mutex (bw_pc w') then Some i else None)"
  shows "mutex_ok (set_worker i w' (s\<lparr>br_mutex := m\<rparr>))"
proof -
  have *: "holds_mutex (bw_pc (br_workers s ! j)) \<longleftrightarrow> br_mutex s = Some j" if "j < length (br_workers s)" for j
    using assms(1) that by (simp add: mutex_ok_def)
  have "holds_mutex (bw_pc ((br_workers s)[i := w'] ! j)) \<longleftrightarrow> m = Some j" if "j < length (br_workers s)" for j
    using * [OF that] * [OF assms(2)] assms(2-4) that by (cases "j = i") auto
  moreover have "j < length (br_workers s)" if "m = Some j" for j
    using that assms by (auto simp: mutex_ok_def split: if_splits)
  ultimately show ?thesis by (simp add: mutex_ok_def set_worker_def)
qed

lemma blocking_spawn_cases:
  assumes "blocking_spawn e (h, s) = Inr (h', s')"
  obtains f r i where "as_blocking (ev_extra (h e)) = Some (f, r)" "h' = h" "i < length (br_workers s)"
    "\<And>j. j < length (br_workers s) \<Longrightarrow> length (bw_tasks (br_workers s ! i)) \<le> length (bw_tasks (br_workers s ! j))"
    "s' = set_worker i ((br_workers s ! i)\<lparr>bw_tasks := bw_tasks (br_workers s ! i) @ [f]\<rparr>) s"
proof -
  let ?ls = "map (\<lambda>w. length (bw_tasks w)) (br_workers s)"
  obtain f r where f: "as_blocking (ev_extra (h e)) = Some (f, r)"
    using assms by (cases "as_blocking (ev_extra (h e))") (auto simp: blocking_spawn_def)
  obtain i where i: "min_element ?ls = Some i"
    using assms f by (cases "min_element ?ls") (simp_all add: blocking_spawn_def BlockingPool_spawn_def)
  with assms f have *: "as_blocking (ev_extra (h e)) = Some (f, r)" "h' = h" "min_element ?ls = Some i"
      "s' = set_worker i ((br_workers s ! i)\<lparr>bw_tasks := bw_tasks (br_workers s ! i) @ [f]\<rparr>) s"
    by (simp_all add: blocking_spawn_def BlockingPool_spawn_def Let_def)
  have i: "i < length (br_workers s)" using min_element_spec(1) [OF *(3)] by simp
  have "length (bw_tasks (br_workers s ! i)) \<le> length (bw_tasks (br_workers s ! j))" if "j < length (br_workers s)" for j
    using min_element_spec(2) [OF *(3), of j] i that by simp
  with * i show thesis by (intro that [of f r i])
qed

lemma blocking_ready_call:
  assumes "Task_call t h = Inr h'" "blocking_ready h e"
  shows "blocking_ready h' e"
proof (cases t)
  case (Fill_after e' a)
  with assms show ?thesis
    by (auto simp: blocking_ready_def after_extra_def split: option.splits if_splits)
qed

lemma worker_step_ok:
  assumes "blocking_ok (h, s, p, out)" "i < length (br_workers s)" "BlockingWorker_step i (h, s) = Some (Inr (h', s'))"
  shows "blocking_ok (h', s', p, out)"
proof (cases rule: BlockingWorker_step_cases [OF assms(3)])
  case (1 w' m)
  have inv: "mutex_ok s" "tasks_ok h (br_events s) (mset p) (pending s)" using assms(1) by (auto simp: blocking_ok_def)
  have "mutex_ok s'" using mutex_ok_update [OF inv(1) assms(2) 1(3,2)] 1(1) by simp
  moreover have pend: "pending s' + mset (worker_closures (br_workers s ! i)) = pending s + mset (worker_closures w')"
    using pending_set_worker [of i "s\<lparr>br_mutex := m\<rparr>" w'] assms(2) by (simp add: 1(1) pending_def)
  moreover have "tasks_ok h' (br_events s) (mset p) (pending s')"
  proof -
    from 1(4) consider "h' = h" "pending s' = pending s"
      | t where "Task_call t h = Inr h'" "pending s = add_mset t (pending s')" using pend by auto
    then show ?thesis using inv(2) by cases (auto intro: tasks_ok_call)
  qed
  moreover have "blocking_ready h' e" if "blocking_ready h e" for e
    using 1(4) that blocking_ready_call by auto
  ultimately show ?thesis using assms(1) 1(1) by (auto simp: blocking_ok_def)
qed

lemma blocking_step_ok: "blocking_step st st' \<Longrightarrow> blocking_ok st \<Longrightarrow> blocking_ok st'"
proof (induction rule: blocking_step.induct)
  case (step_new e s out h p this addr)
  have "tasks_ok (snd (BlockingTask this e addr h)) (br_events s) (mset p) (pending s)"
    by (rule tasks_ok_heap [of h]) (use step_new in \<open>auto simp: blocking_ok_def BlockingTask_def\<close>)
  with step_new show ?case by (auto simp: blocking_ok_def BlockingTask_def blocking_ready_def after_extra_def)
next
  case (step_push s e h addr p out)
  have "pending (blocking_push e s) = pending s" "mutex_ok (blocking_push e s) = mutex_ok s"
    by (simp_all add: pending_def mutex_ok_def blocking_push_def)
  moreover have "\<not> blocking_ready h e" using step_push(3) by (simp add: blocking_ready_def after_extra_def)
  ultimately show ?case
    using step_push tasks_ok_push [of h "br_events s" "mset p" "pending s" e addr]
    by (auto simp: blocking_ok_def blocking_push_def)
next
  case (step_spawn e p h s h' s' out)
  then have inv: "mutex_ok s" "tasks_ok h (br_events s) (mset p) (pending s)" by (auto simp: blocking_ok_def)
  show ?case
  proof (cases rule: blocking_spawn_cases [OF step_spawn.hyps(2)])
    case (1 f r i)
    let ?w = "(br_workers s ! i)\<lparr>bw_tasks := bw_tasks (br_workers s ! i) @ [f]\<rparr>"
    have "worker_closures ?w = worker_closures (br_workers s ! i) @ [f]" by (simp add: worker_closures_def)
    with pending_set_worker [OF 1(3), of ?w] have "pending s' = add_mset f (pending s)" by (simp add: 1(5))
    moreover have "mutex_ok s'" using mutex_ok_update [OF inv(1) 1(3), of ?w "br_mutex s"] 1(5) by simp
    ultimately show ?thesis
      using step_spawn 1 tasks_ok_spawn [OF inv(2) _ 1(1)] by (auto simp: blocking_ok_def)
  qed
next
  case (step_select s t out h r out' h' s' p)
  then have inv: "mutex_ok s" "tasks_ok h (br_events s) (mset p) (pending s)" by (auto simp: blocking_ok_def)
  from step_select.hyps(2) have *: "h' = h" "out' = out @ filter (blocking_ready h) (br_events s)"
      "s' = s\<lparr>br_events := filter (\<lambda>e. \<not> blocking_ready h e) (br_events s)\<rparr>" by (auto simp: blocking_select_Inr)
  have "pending s' = pending s" "mutex_ok s' = mutex_ok s" by (simp_all add: *(3) pending_def mutex_ok_def)
  with * inv tasks_ok_take_ready [OF inv(2)] step_select.prems show ?case by (auto simp: blocking_ok_def)
next
  case (step_work i s h h' s' p out)
  show ?case by (rule worker_step_ok [OF step_work.prems step_work.hyps])
next
  case (step_end h s p out)
  have "worker_closures (w\<lparr>bw_end := True\<rparr>) = worker_closures w" for w by (simp add: worker_closures_def)
  then have "pending (BlockingPool_end s) = pending s" by (simp add: pending_def BlockingPool_end_def comp_def)
  moreover have "mutex_ok (BlockingPool_end s) = mutex_ok s" by (auto simp: mutex_ok_def BlockingPool_end_def)
  ultimately show ?case using step_end by (simp add: blocking_ok_def BlockingPool_end_def)
qed

lemma blocking_init_ok: "blocking_ok (h, BlockingRegistry n, [], [])"
  by (simp add: blocking_ok_def BlockingRegistry_def mutex_ok_def tasks_ok_def pending_def
      BlockingWorker_def worker_closures_def)

lemma blocking_reach_ok: "blocking_step\<^sup>*\<^sup>* (h0, BlockingRegistry n, [], []) st \<Longrightarrow> blocking_ok st"
  by (induction rule: rtranclp_induct) (auto intro: blocking_init_ok blocking_step_ok)

section \<open>The workers finish their work\<close>

definition pool_step :: "heap \<times> blocking_registry \<Rightarrow> heap \<times> blocking_registry \<Rightarrow> bool" where
  "pool_step st st' \<longleftrightarrow> (\<exists>i < length (br_workers (snd st)). BlockingWorker_step i st = Some (Inr st'))"

definition not_ended :: "blocking_registry \<Rightarrow> bool" where
  "not_ended s \<longleftrightarrow> (\<forall>w \<in> set (br_workers s). \<not> bw_end w \<and> bw_pc w \<noteq> Finished)"

definition worker_weight :: "blocking_worker \<Rightarrow> nat" where
  "worker_weight w = 4 * length (bw_tasks w) + (case bw_pc w of At_loop \<Rightarrow> 3 | Draining \<Rightarrow> 2 | Running t \<Rightarrow> 3
     | Waiting \<Rightarrow> (if bw_tasks w = [] then 0 else 4) | Finished \<Rightarrow> 0)"

definition pool_weight :: "blocking_registry \<Rightarrow> nat" where
  "pool_weight s = sum_list (map worker_weight (br_workers s))"

lemma sum_list_update_less:
  "i < length xs \<Longrightarrow> y < xs ! i \<Longrightarrow> sum_list (xs[i := y]) < sum_list (xs :: nat list)"
proof (induction xs arbitrary: i)
  case (Cons x xs)
  then show ?case by (cases i) auto
qed simp

lemma worker_step_decreases:
  assumes "BlockingWorker_step i (h, s) = Some (Inr (h', s'))" "i < length (br_workers s)" "not_ended s"
  obtains w' m where "s' = set_worker i w' (s\<lparr>br_mutex := m\<rparr>)" "worker_weight w' < worker_weight (br_workers s ! i)"
    "\<not> bw_end w'" "bw_pc w' \<noteq> Finished"
proof -
  let ?w = "br_workers s ! i"
  have w: "\<not> bw_end ?w" "bw_pc ?w \<noteq> Finished" using assms(2,3) by (auto simp: not_ended_def)
  from assms(1) w that show thesis
    by (cases "bw_pc ?w"; cases "bw_tasks ?w")
      (auto simp: BlockingWorker_step_def worker_weight_def Let_def outcome_simps split: if_splits
        intro: that [where m = "br_mutex s"])
qed

lemma pool_step_decreases:
  assumes "pool_step (h, s) (h', s')" "not_ended s"
  shows "pool_weight s' < pool_weight s \<and> not_ended s' \<and> br_events s' = br_events s"
proof -
  from assms(1) obtain i where i: "i < length (br_workers s)" "BlockingWorker_step i (h, s) = Some (Inr (h', s'))"
    by (auto simp: pool_step_def)
  obtain w' m where *: "s' = set_worker i w' (s\<lparr>br_mutex := m\<rparr>)" "worker_weight w' < worker_weight (br_workers s ! i)"
    "\<not> bw_end w'" "bw_pc w' \<noteq> Finished" by (rule worker_step_decreases [OF i(2,1) assms(2)])
  then have "pool_weight s' < pool_weight s"
    using sum_list_update_less [of i "map worker_weight (br_workers s)" "worker_weight w'"] i(1)
    by (simp add: pool_weight_def set_worker_def map_update)
  moreover have "not_ended s'"
    using * assms(2) by (auto simp: not_ended_def set_worker_def dest!: subsetD [OF set_update_subset_insert])
  ultimately show ?thesis using *(1) by simp
qed

text \<open>A worker that cannot go on runs nothing, and has nothing to run when it waits.\<close>

lemma stuck_worker_idle:
  assumes inv: "tasks_ok h (br_events s) {#} (pending s)" and i: "i < length (br_workers s)"
    and stuck: "\<nexists>st. BlockingWorker_step i (h, s) = Some (Inr st)"
  defines "w \<equiv> br_workers s ! i"
  shows "bw_pc w \<noteq> Draining" "bw_pc w \<noteq> Running t" "bw_pc w = Waiting \<Longrightarrow> bw_tasks w = []"
    "bw_pc w = At_loop \<Longrightarrow> br_mutex s \<noteq> None"
proof -
  show "bw_pc w \<noteq> Draining" using stuck unfolding w_def by (cases "bw_tasks (br_workers s ! i)") (auto simp: BlockingWorker_step_def)
  show "bw_tasks w = []" if "bw_pc w = Waiting" using that stuck unfolding w_def by (auto simp: BlockingWorker_step_def Let_def split: if_splits)
  show "br_mutex s \<noteq> None" if "bw_pc w = At_loop" using that stuck unfolding w_def by (auto simp: BlockingWorker_step_def Let_def split: if_splits)
  show "bw_pc w \<noteq> Running t"
  proof
    assume t: "bw_pc w = Running t"
    then have "t \<in> set (worker_closures w)" by (simp add: worker_closures_def)
    then have "t \<in># pending s" using i by (auto simp: pending_def w_def)
    moreover obtain e a where "t = Fill_after e a" by (cases t)
    ultimately have "Task_call t h = Inr (set_extra e (BlockingExtra t (Some a)) h)"
      using tasks_ok_queued(2) [OF inv, of e a] by simp
    with t stuck show False by (simp add: BlockingWorker_step_def w_def)
  qed
qed

lemma none_pending_ready:
  assumes "tasks_ok h es {#} {#}" "e \<in> set es"
  shows "blocking_ready h e"
proof -
  obtain a r where r: "as_blocking (ev_extra (h e)) = Some (Fill_after e a, r)"
      "count {#} (Fill_after e a) + count {#} e = (if r = None then 1 else 0)"
    by (rule tasks_okD [OF assms])
  then have "r \<noteq> None" by (auto split: if_splits)
  with r(1) show ?thesis by (auto simp: blocking_ready_def after_extra_def)
qed

lemma stuck_pool_ready:
  assumes "blocking_ok (h, s, [], out)" "not_ended s" "\<nexists>st'. pool_step (h, s) st'"
  shows "(\<forall>e \<in> set (br_events s). blocking_ready h e) \<and> br_mutex s = None"
proof -
  have inv: "mutex_ok s" "tasks_ok h (br_events s) {#} (pending s)" using assms(1) by (auto simp: blocking_ok_def)
  have stuck: "\<nexists>st. BlockingWorker_step i (h, s) = Some (Inr st)" if "i < length (br_workers s)" for i
    using assms(3) that by (auto simp: pool_step_def)
  note idle = stuck_worker_idle [OF inv(2) _ stuck]
  have mutex: "br_mutex s = None"
  proof (rule ccontr)
    assume "br_mutex s \<noteq> None"
    then obtain i where i: "br_mutex s = Some i" by auto
    with inv(1) have "i < length (br_workers s)" "holds_mutex (bw_pc (br_workers s ! i))" by (auto simp: mutex_ok_def)
    with idle(1,2) [OF this(1) this(1)] show False by (cases "bw_pc (br_workers s ! i)") auto
  qed
  have "worker_closures w = []" if w: "w \<in> set (br_workers s)" for w
  proof -
    from w obtain i where i: "w = br_workers s ! i" "i < length (br_workers s)" by (auto simp: in_set_conv_nth)
    from idle [OF i(2) i(2), folded i(1)] mutex assms(2) w show ?thesis
      by (cases "bw_pc w") (auto simp: worker_closures_def not_ended_def)
  qed
  then have "pending s = {#}" by (simp add: pending_def)
  with inv(2) have "tasks_ok h (br_events s) {#} {#}" by simp
  from none_pending_ready [OF this] mutex show ?thesis by blast
qed

lemma pool_step_ok: "pool_step (h, s) (h', s') \<Longrightarrow> blocking_ok (h, s, p, out) \<Longrightarrow> blocking_ok (h', s', p, out)"
  by (auto simp: pool_step_def intro: blocking_step_ok step_work)

lemma pool_quiesces:
  assumes "blocking_ok (h, s, [], out)" "not_ended s"
  shows "\<exists>h' s'. pool_step\<^sup>*\<^sup>* (h, s) (h', s') \<and> br_events s' = br_events s \<and> br_mutex s' = None
    \<and> (\<forall>e \<in> set (br_events s'). blocking_ready h' e)"
  using assms
proof (induction "pool_weight s" arbitrary: h s rule: less_induct)
  case less
  show ?case
  proof (cases "\<exists>st'. pool_step (h, s) st'")
    case True
    then obtain h1 s1 where 1: "pool_step (h, s) (h1, s1)" by auto
    note dec = pool_step_decreases [OF 1 less.prems(2)]
    from less.hyps [of s1 h1] dec pool_step_ok [OF 1 less.prems(1)] obtain h' s' where
      "pool_step\<^sup>*\<^sup>* (h1, s1) (h', s')" "br_events s' = br_events s1" "br_mutex s' = None"
      "\<forall>e \<in> set (br_events s'). blocking_ready h' e" by blast
    with dec 1 show ?thesis by (metis converse_rtranclp_into_rtranclp)
  next
    case False
    with stuck_pool_ready [OF less.prems] show ?thesis by blast
  qed
qed

end
