(* ===== verification/Registry_Object.thy ===== *)
theory Registry_Object
  imports Time_Registry Epoll_Registry Uring_Registry Blocking_Proofs
begin

text \<open>
  The objects behind \<open>std::shared_ptr<Registry>\<close>: one of the four registries. The virtual calls
  dispatch on it. What the outside world answers during one call (the clock, the kernel) is the
  record \<open>world\<close>. The sum again satisfies the registry contract, so that the driver's lemmas
  are proved once for all four.
\<close>

section \<open>Definitions\<close>

datatype registry_class = Time_class | Blocking_class | Epoll_class | Uring_class

datatype registry_obj =
    Time_obj wheel
  | Blocking_obj blocking_registry
  | Epoll_obj epoll_registry
  | Uring_obj uring_registry

record world =
  wo_now :: int
  wo_ctl :: "ctl_call \<Rightarrow> int \<times> int"
  wo_epoll_wait :: "int \<Rightarrow> wait_result"
  wo_epoll_create :: int
  wo_sqe :: "bool \<times> bool"
  wo_wait_cqe :: "int \<times> int \<Rightarrow> cqe_result"
  wo_queue_init :: int
  wo_stacktrace :: string

text \<open>The constructors of the two io registries panic when the kernel refuses.\<close>

definition epoll_IoRegistry :: "string \<Rightarrow> int \<Rightarrow> epoll_registry outcome" where
  "epoll_IoRegistry stacktrace epfd =
     (if epfd = -1 then panic stacktrace [] else Inr \<lparr>er_epfd = epfd, er_registered = []\<rparr>)"

definition uring_IoRegistry :: "string \<Rightarrow> int \<Rightarrow> uring_registry outcome" where
  "uring_IoRegistry stacktrace queue_init =
     (if queue_init \<noteq> 0 then panic stacktrace [] else Inr \<lparr>ui_registered = [], ui_calls = []\<rparr>)"

definition make_registry :: "world \<Rightarrow> registry_class \<Rightarrow> nat \<Rightarrow> registry_obj outcome" where
  "make_registry w cls n = (case cls of
     Time_class \<Rightarrow> Inr (Time_obj (Wheel (wo_now w)))
   | Blocking_class \<Rightarrow> Inr (Blocking_obj (BlockingRegistry n))
   | Epoll_class \<Rightarrow> and_then (epoll_IoRegistry (wo_stacktrace w) (wo_epoll_create w)) (\<lambda>s. Inr (Epoll_obj s))
   | Uring_class \<Rightarrow> and_then (uring_IoRegistry (wo_stacktrace w) (wo_queue_init w)) (\<lambda>s. Inr (Uring_obj s)))"

definition lift_reg :: "('s \<Rightarrow> registry_obj) \<Rightarrow> (unit result \<times> heap \<times> 's) outcome \<Rightarrow> (unit result \<times> heap \<times> registry_obj) outcome" where
  "lift_reg C m = and_then m (\<lambda>(r, h, s). Inr (r, h, C s))"

definition lift_sel ::
  "('s \<Rightarrow> registry_obj) \<Rightarrow> (unit result \<times> event_ptr list \<times> heap \<times> 's) outcome
   \<Rightarrow> (unit result \<times> event_ptr list \<times> heap \<times> registry_obj) outcome" where
  "lift_sel C m = and_then m (\<lambda>(r, evs, h, s). Inr (r, evs, h, C s))"

fun Registry_Register :: "world \<Rightarrow> event_ptr \<Rightarrow> heap \<times> registry_obj \<Rightarrow> (unit result \<times> heap \<times> registry_obj) outcome" where
  "Registry_Register w e (h, Time_obj s) = lift_reg Time_obj (TimeRegistry_Register e (h, s))"
| "Registry_Register w e (h, Blocking_obj s) = lift_reg Blocking_obj (blocking_Register e (h, s))"
| "Registry_Register w e (h, Epoll_obj s) = lift_reg Epoll_obj (epoll_Register (wo_ctl w) e (h, s))"
| "Registry_Register w e (h, Uring_obj s) = lift_reg Uring_obj (uring_Register (wo_sqe w) e (h, s))"

fun Registry_reregister :: "world \<Rightarrow> event_ptr \<Rightarrow> heap \<times> registry_obj \<Rightarrow> (unit result \<times> heap \<times> registry_obj) outcome" where
  "Registry_reregister w e (h, Time_obj s) = lift_reg Time_obj (TimeRegistry_reregister e (h, s))"
| "Registry_reregister w e (h, Blocking_obj s) = lift_reg Blocking_obj (blocking_reregister e (h, s))"
| "Registry_reregister w e (h, Epoll_obj s) = lift_reg Epoll_obj (epoll_reregister (wo_ctl w) e (h, s))"
| "Registry_reregister w e (h, Uring_obj s) = lift_reg Uring_obj (uring_reregister e (h, s))"

fun Registry_deregister :: "world \<Rightarrow> event_ptr \<Rightarrow> heap \<times> registry_obj \<Rightarrow> (unit result \<times> heap \<times> registry_obj) outcome" where
  "Registry_deregister w e (h, Time_obj s) = lift_reg Time_obj (TimeRegistry_deregister e (h, s))"
| "Registry_deregister w e (h, Blocking_obj s) = lift_reg Blocking_obj (blocking_deregister e (h, s))"
| "Registry_deregister w e (h, Epoll_obj s) = lift_reg Epoll_obj (epoll_deregister (wo_ctl w) e (h, s))"
| "Registry_deregister w e (h, Uring_obj s) = lift_reg Uring_obj (uring_deregister (wo_sqe w) e (h, s))"

fun Registry_select ::
  "world \<times> int \<Rightarrow> event_ptr list \<Rightarrow> heap \<times> registry_obj \<Rightarrow> (unit result \<times> event_ptr list \<times> heap \<times> registry_obj) outcome" where
  "Registry_select (w, timeout) evs (h, Time_obj s) = lift_sel Time_obj (TimeRegistry_select (timeout, wo_now w) evs (h, s))"
| "Registry_select (w, timeout) evs (h, Blocking_obj s) = lift_sel Blocking_obj (blocking_select timeout evs (h, s))"
| "Registry_select (w, timeout) evs (h, Epoll_obj s) =
     lift_sel Epoll_obj (epoll_select (timeout, wo_epoll_wait w) evs (h, s))"
| "Registry_select (w, timeout) evs (h, Uring_obj s) =
     lift_sel Uring_obj (uring_select (timeout, wo_wait_cqe w, wo_stacktrace w) evs (h, s))"

section \<open>The registry contract\<close>

fun obj_tracked :: "registry_obj \<Rightarrow> event_ptr multiset" where
  "obj_tracked (Time_obj s) = contents s"
| "obj_tracked (Blocking_obj s) = blocking_tracked s"
| "obj_tracked (Epoll_obj s) = epoll_tracked s"
| "obj_tracked (Uring_obj s) = uring_tracked s"

fun obj_invar :: "heap \<Rightarrow> registry_obj \<Rightarrow> bool" where
  "obj_invar h (Time_obj s) = time_invar h s"
| "obj_invar h (Blocking_obj s) = blocking_invar h s"
| "obj_invar h (Epoll_obj s) = epoll_invar h s"
| "obj_invar h (Uring_obj s) = uring_invar h s"

fun obj_wakeable :: "heap \<Rightarrow> registry_obj \<Rightarrow> event_ptr \<Rightarrow> bool" where
  "obj_wakeable h (Time_obj s) e = time_wakeable h s e"
| "obj_wakeable h (Blocking_obj s) e = blocking_wakeable h s e"
| "obj_wakeable h (Epoll_obj s) e = epoll_wakeable h s e"
| "obj_wakeable h (Uring_obj s) e = uring_wakeable h s e"

lemma lift_reg_Inr: "lift_reg C m = Inr (r, h, R) \<longleftrightarrow> (\<exists>s. m = Inr (r, h, s) \<and> R = C s)"
  by (cases m) (auto simp: lift_reg_def)

lemma lift_sel_Inr: "lift_sel C m = Inr (r, evs, h, R) \<longleftrightarrow> (\<exists>s. m = Inr (r, evs, h, s) \<and> R = C s)"
  by (cases m) (auto simp: lift_sel_def)

interpretation obj_reg: event_registry "Registry_Register w" Registry_select obj_tracked obj_invar obj_wakeable for w
proof
  fix e h R r h' R'
  assume reg: "Registry_Register w e (h, R) = Inr (r, h', R')"
  show "h' a = h a" if "a \<noteq> e" for a
    using reg that time_reg.reg_frame blocking_reg.reg_frame epoll_reg.reg_frame uring_reg.reg_frame [where q = "wo_sqe w"]
    by (cases R) (auto simp: lift_reg_Inr)
  show "ev_future (h' a) = ev_future (h a)" for a
    using reg time_reg.reg_future blocking_reg.reg_future epoll_reg.reg_future uring_reg.reg_future [where q = "wo_sqe w"]
    by (cases R) (auto simp: lift_reg_Inr)
  assume inv: "obj_invar h R" and wk: "obj_wakeable h R e"
  show "obj_invar h' R'"
    using reg inv wk time_reg.reg_invar blocking_reg.reg_invar epoll_reg.reg_invar uring_reg.reg_invar [where q = "wo_sqe w"]
    by (cases R) (auto simp: lift_reg_Inr)
  show "obj_tracked R' = (case r of Inl _ \<Rightarrow> obj_tracked R | Inr _ \<Rightarrow> add_mset e (obj_tracked R))"
    using reg inv wk time_reg.reg_tracked blocking_reg.reg_tracked epoll_reg.reg_tracked uring_reg.reg_tracked [where q = "wo_sqe w"]
    by (cases R; cases r) (auto simp: lift_reg_Inr)
next
  fix i :: "world \<times> int" and evs h R r evs' h' R'
  obtain w t where i: "i = (w, t)" by (cases i)
  assume "Registry_select i evs (h, R) = Inr (r, evs', h', R')"
  then have sel: "Registry_select (w, t) evs (h, R) = Inr (r, evs', h', R')" by (simp add: i)
  show "ev_future (h' a) = ev_future (h a)" for a
    using sel time_reg.sel_future blocking_reg.sel_future epoll_reg.sel_future uring_reg.sel_future
    by (cases R) (auto simp: lift_sel_Inr)
  assume inv: "obj_invar h R"
  show "obj_invar h' R'"
    using sel inv time_reg.sel_invar blocking_reg.sel_invar epoll_reg.sel_invar uring_reg.sel_invar
    by (cases R) (auto simp: lift_sel_Inr)
  show "\<exists>new. evs' = evs @ new \<and> obj_tracked R = obj_tracked R' + mset new"
    using sel inv time_reg.sel_tracked blocking_reg.sel_tracked epoll_reg.sel_tracked uring_reg.sel_tracked
    by (cases R) (auto simp: lift_sel_Inr)
  show "h' a = h a" if "a \<notin># obj_tracked R" for a
    using sel inv that time_reg.sel_frame blocking_reg.sel_frame epoll_reg.sel_frame uring_reg.sel_frame
    by (cases R) (auto simp: lift_sel_Inr)
next
  fix h h' :: heap and R
  assume "obj_invar h R" "\<And>e. e \<in># obj_tracked R \<Longrightarrow> ev_extra (h' e) = ev_extra (h e)"
  then show "obj_invar h' R"
    using time_reg.invar_local blocking_reg.invar_local epoll_reg.invar_local uring_reg.invar_local
    by (cases R) auto
qed

end
