(* ===== verification/Future_Store.thy ===== *)
theory Future_Store
  imports Xyco_Error
begin

text \<open>
  Futures, promises and awaitables (\<open>include/xyco/runtime/future.ccm\<close>,
  \<open>src/runtime/future.cc\<close>). The store maps addresses to \<open>Future\<close> objects and coroutine handles
  to frames; a frame holds the promise's \<open>future_\<close> and whether the coroutine is done. The
  compiler-generated parts (creating a frame, running a coroutine body) are outside: the operations
  here are the members the generated code calls. \<open>Future<void>\<close> and \<open>Future<Output>\<close> differ
  where the code differs; the flag \<open>fr_void\<close> of a frame and \<open>fu_void\<close> of a future select the
  class. Values are opaque.
\<close>

section \<open>Definitions\<close>

text \<open>The result of \<open>poll\<close>: none for \<open>Pending\<close>, or \<open>Ready\<close> with a value.\<close>

type_synonym 'a poll = "'a option"

datatype exn = CancelException | Other_exception nat

record fut =
  fu_void :: bool
  fu_return :: "nat option"
  fu_exception :: "exn option"
  fu_self :: "handle option"
  fu_waiting :: "handle option"
  fu_waited :: "handle option"
  fu_cancelled :: bool

record frame =
  fr_void :: bool
  fr_future :: "future_ptr option"
  fr_done :: bool

record store =
  st_futures :: "future_ptr \<Rightarrow> fut option"
  st_frames :: "handle \<Rightarrow> frame option"

text \<open>Dereferencing: an address without an object is dangling.\<close>

definition fut_at :: "future_ptr \<Rightarrow> store \<Rightarrow> fut outcome" where
  "fut_at p st = (case st_futures st p of None \<Rightarrow> Inl Null_deref | Some f \<Rightarrow> Inr f)"

definition frame_at :: "handle \<Rightarrow> store \<Rightarrow> frame outcome" where
  "frame_at co st = (case st_frames st co of None \<Rightarrow> Inl Null_deref | Some fr \<Rightarrow> Inr fr)"

definition set_fut :: "future_ptr \<Rightarrow> fut \<Rightarrow> store \<Rightarrow> store" where
  "set_fut p f st = st\<lparr>st_futures := (st_futures st)(p \<mapsto> f)\<rparr>"

definition set_frame :: "handle \<Rightarrow> frame \<Rightarrow> store \<Rightarrow> store" where
  "set_frame co fr st = st\<lparr>st_frames := (st_frames st)(co \<mapsto> fr)\<rparr>"

definition destroy :: "handle \<Rightarrow> store \<Rightarrow> store" where
  "destroy co st = st\<lparr>st_frames := (st_frames st)(co := None)\<rparr>"

text \<open>The constructor; \<open>get_return_object\<close> calls it with the frame's own handle.\<close>

definition Future_ctor :: "bool \<Rightarrow> future_ptr \<Rightarrow> handle option \<Rightarrow> store \<Rightarrow> store outcome" where
  "Future_ctor void this self st =
     (let st = set_fut this \<lparr>fu_void = void, fu_return = None, fu_exception = None, fu_self = self,
                  fu_waiting = None, fu_waited = None, fu_cancelled = False\<rparr> st
      in case self of
           None \<Rightarrow> Inr st
         | Some co \<Rightarrow> and_then (frame_at co st) (\<lambda>fr. Inr (set_frame co (fr\<lparr>fr_future := Some this\<rparr>) st)))"

definition get_return_object :: "handle \<Rightarrow> future_ptr \<Rightarrow> store \<Rightarrow> store outcome" where
  "get_return_object co this st = and_then (frame_at co st) (\<lambda>fr. Future_ctor (fr_void fr) this (Some co) st)"

definition promise_future :: "handle \<Rightarrow> store \<Rightarrow> future_ptr option outcome" where
  "promise_future co st = and_then (frame_at co st) (\<lambda>fr. Inr (fr_future fr))"

definition get_handle :: "future_ptr \<Rightarrow> store \<Rightarrow> handle option outcome" where
  "get_handle this st = and_then (fut_at this st) (\<lambda>f.
     Inr (if fu_self f = None then fu_waiting f else fu_self f))"

text \<open>Members of the promise; \<open>co\<close> is the frame the promise lives in.\<close>

definition final_suspend :: "handle \<Rightarrow> store \<Rightarrow> handle option outcome" where
  "final_suspend co st = and_then (frame_at co st) (\<lambda>fr.
     case fr_future fr of
       None \<Rightarrow> if fr_void fr then Inr None else Inl Null_deref
     | Some p \<Rightarrow> and_then (fut_at p st) (\<lambda>f. Inr (fu_waiting f)))"

text \<open>Storing into the future, or the rethrow when it has been dropped (\<open>Inl\<close> of the exception).\<close>

definition unhandled_exception :: "handle \<Rightarrow> exn \<Rightarrow> store \<Rightarrow> (exn + store) outcome" where
  "unhandled_exception co e st = and_then (frame_at co st) (\<lambda>fr.
     case fr_future fr of
       None \<Rightarrow> if fr_void fr then Inr (Inl e) else Inl Null_deref
     | Some p \<Rightarrow> and_then (fut_at p st) (\<lambda>f. Inr (Inr (set_fut p (f\<lparr>fu_exception := Some e\<rparr>) st))))"

definition return_value :: "handle \<Rightarrow> nat \<Rightarrow> store \<Rightarrow> store outcome" where
  "return_value co v st = and_then (frame_at co st) (\<lambda>fr.
     case fr_future fr of
       None \<Rightarrow> if fr_void fr then Inr st else Inl Null_deref
     | Some p \<Rightarrow> and_then (fut_at p st) (\<lambda>f. Inr (set_fut p (f\<lparr>fu_return := Some v\<rparr>) st)))"

definition set_waited :: "handle \<Rightarrow> handle option \<Rightarrow> store \<Rightarrow> store outcome" where
  "set_waited co waited st = and_then (frame_at co st) (\<lambda>fr.
     case fr_future fr of
       None \<Rightarrow> if fr_void fr then Inr st else Inl Null_deref
     | Some p \<Rightarrow> and_then (fut_at p st) (\<lambda>f. Inr (set_fut p (f\<lparr>fu_waited := waited\<rparr>) st)))"

text \<open>What \<open>poll\<close> of a future object gives: ready with a value, pending, or an exception.\<close>

datatype poll_result = Poll_Ready nat | Poll_Pending | Poll_Thrown exn

text \<open>The \<open>poll\<close> of a future that does not override it, as those of coroutines.\<close>

definition Future_poll :: poll_result where
  "Future_poll = Poll_Pending"

text \<open>\<open>poll_wrapper\<close> after \<open>poll\<close> gave \<open>r\<close>; true when the coroutine is to be resumed.\<close>

definition poll_wrapper :: "poll_result \<Rightarrow> future_ptr \<Rightarrow> store \<Rightarrow> (bool \<times> store) outcome" where
  "poll_wrapper r this st = and_then (fut_at this st) (\<lambda>f.
     case r of
       Poll_Pending \<Rightarrow> Inr (False, st)
     | Poll_Ready v \<Rightarrow> Inr (True, if fu_void f then st else set_fut this (f\<lparr>fu_return := Some v\<rparr>) st)
     | Poll_Thrown e \<Rightarrow> Inr (True, set_fut this (f\<lparr>fu_exception := Some e\<rparr>) st))"

text \<open>\<open>cancel\<close> follows the chain of awaited coroutines.\<close>

partial_function (option) cancel :: "future_ptr \<Rightarrow> store \<Rightarrow> store outcome option" where
  "cancel this st =
     (case st_futures st this of
        None \<Rightarrow> Some (Inl Null_deref)
      | Some f \<Rightarrow>
          (let st = set_fut this (f\<lparr>fu_cancelled := True\<rparr>) st
           in case fu_waited f of
                None \<Rightarrow> Some (Inr st)
              | Some co \<Rightarrow>
                  (case st_frames st co of
                     None \<Rightarrow> Some (Inl Null_deref)
                   | Some fr \<Rightarrow>
                       (case fr_future fr of
                          None \<Rightarrow> Some (Inl Null_deref)
                        | Some p \<Rightarrow> cancel p st))))"

declare cancel.simps [code]

text \<open>The move constructor and assignment: \<open>return_\<close> moves along for \<open>Future<Output>\<close> only.\<close>

definition move_assign :: "future_ptr \<Rightarrow> future_ptr \<Rightarrow> store \<Rightarrow> store outcome" where
  "move_assign this from st =
     and_then (fut_at this st) (\<lambda>f.
     and_then (fut_at from st) (\<lambda>g.
     let st = set_fut this (f\<lparr>fu_return := (if fu_void f then fu_return f else fu_return g),
                   fu_self := fu_self g, fu_waiting := fu_waiting g, fu_waited := fu_waited g\<rparr>) st
     in and_then (fut_at from st) (\<lambda>g.
     let st = set_fut from (g\<lparr>fu_self := None, fu_waiting := None, fu_waited := None\<rparr>) st
     in and_then (fut_at this st) (\<lambda>f.
        case fu_self f of
          None \<Rightarrow> Inr st
        | Some co \<Rightarrow> and_then (frame_at co st) (\<lambda>fr. Inr (set_frame co (fr\<lparr>fr_future := Some this\<rparr>) st))))))"

definition move_ctor :: "bool \<Rightarrow> future_ptr \<Rightarrow> future_ptr \<Rightarrow> store \<Rightarrow> store outcome" where
  "move_ctor void this from st =
     move_assign this from
       (set_fut this \<lparr>fu_void = void, fu_return = None, fu_exception = None, fu_self = None,
                      fu_waiting = None, fu_waited = None, fu_cancelled = False\<rparr> st)"

text \<open>
  The destructor. A \<open>Future<void>\<close> nobody awaits leaves its coroutine running and only unbinds
  it; otherwise the frame is destroyed.
\<close>

definition Future_dtor :: "future_ptr \<Rightarrow> store \<Rightarrow> store outcome" where
  "Future_dtor this st = and_then (fut_at this st) (\<lambda>f.
     let gone = (\<lambda>st. st\<lparr>st_futures := (st_futures st)(this := None)\<rparr>)
     in case fu_self f of
          None \<Rightarrow> Inr (gone st)
        | Some co \<Rightarrow>
            if fu_void f \<and> fu_waiting f = None
            then and_then (frame_at co st) (\<lambda>fr. Inr (gone (set_frame co (fr\<lparr>fr_future := None\<rparr>) st)))
            else and_then (frame_at co st) (\<lambda>_. Inr (gone (destroy co st))))"

text \<open>
  The end of a coroutine: \<open>co_await final_suspend()\<close>. Without a waiting coroutine
  \<open>FinalAwaitable::await_ready\<close> holds and the frame goes away; otherwise the frame stays, done,
  and the waiting coroutine is resumed.
\<close>

definition coroutine_end :: "handle \<Rightarrow> store \<Rightarrow> (handle option \<times> store) outcome" where
  "coroutine_end co st = and_then (final_suspend co st) (\<lambda>waiting.
     and_then (frame_at co st) (\<lambda>fr.
     Inr (waiting, if waiting = None then destroy co st else set_frame co (fr\<lparr>fr_done := True\<rparr>) st)))"

section \<open>Awaiting\<close>

definition await_ready :: "future_ptr \<Rightarrow> store \<Rightarrow> bool outcome" where
  "await_ready this st = and_then (fut_at this st) (\<lambda>f.
     case fu_self f of None \<Rightarrow> Inr False | Some co \<Rightarrow> and_then (frame_at co st) (\<lambda>fr. Inr (fr_done fr)))"

text \<open>
  \<open>await_suspend\<close> up to the point where it resumes the awaited coroutine or polls the future
  object. An exception of \<open>poll\<close> leaves it.
\<close>

datatype suspend_action = Resume handle | Poll_object

definition await_suspend_bind :: "future_ptr \<Rightarrow> handle \<Rightarrow> store \<Rightarrow> (suspend_action \<times> store) outcome" where
  "await_suspend_bind this waiting_coroutine st = and_then (fut_at this st) (\<lambda>f.
     let st = set_fut this (f\<lparr>fu_waiting := Some waiting_coroutine\<rparr>) st
     in and_then (set_waited waiting_coroutine (fu_self f) st) (\<lambda>st.
        Inr (case fu_self f of Some co \<Rightarrow> Resume co | None \<Rightarrow> Poll_object, st)))"

definition await_suspend_polled :: "poll_result \<Rightarrow> future_ptr \<Rightarrow> store \<Rightarrow> (exn + bool \<times> store) outcome" where
  "await_suspend_polled res this st = and_then (fut_at this st) (\<lambda>f.
     case res of
       Poll_Pending \<Rightarrow> Inr (Inr (True, st))
     | Poll_Ready v \<Rightarrow> Inr (Inr (False, if fu_void f then st else set_fut this (f\<lparr>fu_return := Some v\<rparr>) st))
     | Poll_Thrown e \<Rightarrow> Inr (Inl e))"

text \<open>
  \<open>await_resume\<close>: the exception of the future, else \<open>CancelException\<close> when it was cancelled,
  else its value (0 stands for no value of a \<open>Future<void>\<close>).
\<close>

definition await_resume :: "future_ptr \<Rightarrow> store \<Rightarrow> ((exn + nat) \<times> store) outcome" where
  "await_resume this st = and_then (fut_at this st) (\<lambda>f.
     and_then (case fu_waiting f of None \<Rightarrow> Inr st | Some co \<Rightarrow> set_waited co None st) (\<lambda>st.
     case fu_exception f of
       Some e \<Rightarrow> Inr (Inl e, st)
     | None \<Rightarrow>
         if fu_cancelled f then Inr (Inl CancelException, st)
         else if fu_void f then Inr (Inr 0, st)
         else (case fu_return f of None \<Rightarrow> Inl Bad_optional | Some v \<Rightarrow> Inr (Inr v, st))))"

section \<open>Frames and futures stay linked\<close>

lemmas store_defs = fut_at_def frame_at_def set_fut_def set_frame_def destroy_def

text \<open>The two directions of the link, and the classes of both ends.\<close>

definition self_of :: "store \<Rightarrow> future_ptr \<Rightarrow> handle option" where
  "self_of st p = Option.bind (st_futures st p) fu_self"

definition future_of :: "store \<Rightarrow> handle \<Rightarrow> future_ptr option" where
  "future_of st co = Option.bind (st_frames st co) fr_future"

definition void_future :: "store \<Rightarrow> future_ptr \<Rightarrow> bool" where
  "void_future st p = (case st_futures st p of None \<Rightarrow> False | Some f \<Rightarrow> fu_void f)"

definition void_frame :: "store \<Rightarrow> handle \<Rightarrow> bool" where
  "void_frame st co = (case st_frames st co of None \<Rightarrow> True | Some fr \<Rightarrow> fr_void fr)"

lemma view_set_fut [simp]:
  "self_of (set_fut p f st) q = (if q = p then fu_self f else self_of st q)"
  "void_future (set_fut p f st) q = (if q = p then fu_void f else void_future st q)"
  "future_of (set_fut p f st) = future_of st"
  "void_frame (set_fut p f st) = void_frame st"
  "st_frames (set_fut p f st) = st_frames st"
  "st_futures (set_fut p f st) = (st_futures st)(p \<mapsto> f)"
  by (auto simp: self_of_def void_future_def future_of_def void_frame_def set_fut_def fun_eq_iff)

lemma view_set_frame [simp]:
  "future_of (set_frame co fr st) c = (if c = co then fr_future fr else future_of st c)"
  "void_frame (set_frame co fr st) c = (if c = co then fr_void fr else void_frame st c)"
  "self_of (set_frame co fr st) = self_of st"
  "void_future (set_frame co fr st) = void_future st"
  "st_futures (set_frame co fr st) = st_futures st"
  "st_frames (set_frame co fr st) = (st_frames st)(co \<mapsto> fr)"
  by (auto simp: self_of_def void_future_def future_of_def void_frame_def set_frame_def fun_eq_iff)

lemma view_destroy [simp]:
  "future_of (destroy co st) c = (if c = co then None else future_of st c)"
  "void_frame (destroy co st) c = (c = co \<or> void_frame st c)"
  "self_of (destroy co st) = self_of st"
  "void_future (destroy co st) = void_future st"
  "st_futures (destroy co st) = st_futures st"
  "st_frames (destroy co st) = (st_frames st)(co := None)"
  by (auto simp: self_of_def void_future_def future_of_def void_frame_def destroy_def fun_eq_iff)

definition drop_fut :: "future_ptr \<Rightarrow> store \<Rightarrow> store" where
  "drop_fut p st = st\<lparr>st_futures := (st_futures st)(p := None)\<rparr>"

lemma view_drop_fut [simp]:
  "self_of (drop_fut p st) q = (if q = p then None else self_of st q)"
  "void_future (drop_fut p st) q = (q \<noteq> p \<and> void_future st q)"
  "future_of (drop_fut p st) = future_of st"
  "void_frame (drop_fut p st) = void_frame st"
  "st_frames (drop_fut p st) = st_frames st"
  by (auto simp: self_of_def void_future_def future_of_def void_frame_def drop_fut_def fun_eq_iff)

text \<open>
  Between a living frame and the future that owns it the links point both ways; only the frame of a
  \<open>Future<void>\<close> may outlive its future. A future may still hold the handle of a frame that is gone.
\<close>

definition linked :: "store \<Rightarrow> bool" where
  "linked st \<longleftrightarrow>
     (\<forall>p co. future_of st co = Some p \<longrightarrow> self_of st p = Some co \<and> void_frame st co = void_future st p) \<and>
     (\<forall>p co. self_of st p = Some co \<longrightarrow> st_frames st co = None \<or> future_of st co = Some p) \<and>
     (\<forall>co. void_frame st co \<or> future_of st co \<noteq> None)"

definition owned :: "store \<Rightarrow> bool" where
  "owned st \<longleftrightarrow> (\<forall>p co. self_of st p = Some co \<longrightarrow> st_frames st co \<noteq> None)"

lemma fut_at_Inr [simp]: "fut_at p st = Inr f \<longleftrightarrow> st_futures st p = Some f"
  by (auto simp: fut_at_def split: option.splits)

lemma frame_at_Inr [simp]: "frame_at co st = Inr fr \<longleftrightarrow> st_frames st co = Some fr"
  by (auto simp: frame_at_def split: option.splits)

lemma self_of_Some: "st_futures st p = Some f \<Longrightarrow> self_of st p = fu_self f"
  by (simp add: self_of_def)

lemma self_of_None: "st_futures st p = None \<Longrightarrow> self_of st p = None"
  by (simp add: self_of_def)

lemma void_future_Some: "st_futures st p = Some f \<Longrightarrow> void_future st p = fu_void f"
  by (simp add: void_future_def)

lemma future_of_Some: "st_frames st co = Some fr \<Longrightarrow> future_of st co = fr_future fr"
  by (simp add: future_of_def)

lemma future_of_None: "st_frames st co = None \<Longrightarrow> future_of st co = None"
  by (simp add: future_of_def)

lemma void_frame_Some: "st_frames st co = Some fr \<Longrightarrow> void_frame st co = fr_void fr"
  by (simp add: void_frame_def)

lemmas view_simps = self_of_Some self_of_None void_future_Some future_of_Some future_of_None void_frame_Some

lemma linkedD:
  assumes "linked st"
  shows "future_of st co = Some p \<Longrightarrow> self_of st p = Some co"
    and "future_of st co = Some p \<Longrightarrow> void_frame st co = void_future st p"
    and "self_of st p = Some co \<Longrightarrow> st_frames st co = None \<or> future_of st co = Some p"
    and "void_frame st co \<or> future_of st co \<noteq> None"
  using assms by (auto simp: linked_def)

lemma linkedI:
  assumes "\<And>p co. future_of st co = Some p \<Longrightarrow> self_of st p = Some co \<and> void_frame st co = void_future st p"
    and "\<And>p co. self_of st p = Some co \<Longrightarrow> st_frames st co = None \<or> future_of st co = Some p"
    and "\<And>co. void_frame st co \<or> future_of st co \<noteq> None"
  shows "linked st"
  using assms by (auto simp: linked_def)

text \<open>
  One event in the life of the futures of a program. A move assignment is onto a future without a
  coroutine (it does not look at the one it overwrites), and a coroutine ends with its future awaited
  or gone. The allocator gives out no address that a future still refers to.
\<close>

inductive fut_step :: "store \<Rightarrow> store \<Rightarrow> bool" where
  call_async: "st_futures st p = None \<Longrightarrow> st_frames st co = None \<Longrightarrow> \<forall>q. self_of st q \<noteq> Some co \<Longrightarrow>
     Future_ctor v p (Some co) (set_frame co \<lparr>fr_void = v, fr_future = None, fr_done = False\<rparr> st) = Inr st'
     \<Longrightarrow> fut_step st st'"
| make_object: "st_futures st p = None \<Longrightarrow> Future_ctor v p None st = Inr st' \<Longrightarrow> fut_step st st'"
| move: "st_futures st q = None \<Longrightarrow> st_futures st p = Some f \<Longrightarrow>
     move_ctor (fu_void f) q p st = Inr st' \<Longrightarrow> fut_step st st'"
| assign: "st_futures st q = Some g \<Longrightarrow> st_futures st p = Some f \<Longrightarrow> p \<noteq> q \<Longrightarrow> fu_self g = None \<Longrightarrow>
     fu_void g = fu_void f \<Longrightarrow> move_assign q p st = Inr st' \<Longrightarrow> fut_step st st'"
| drop_future: "Future_dtor p st = Inr st' \<Longrightarrow> fut_step st st'"
| cancels: "cancel p st = Some (Inr st') \<Longrightarrow> fut_step st st'"
| throws: "unhandled_exception co e st = Inr (Inr st') \<Longrightarrow> fut_step st st'"
| returns: "return_value co v st = Inr st' \<Longrightarrow> fut_step st st'"
| awaits: "await_suspend_bind p w st = Inr (a, st') \<Longrightarrow> fut_step st st'"
| polled_inline: "await_suspend_polled r p st = Inr (Inr (b, st')) \<Longrightarrow> fut_step st st'"
| polled: "poll_wrapper r p st = Inr (b, st') \<Longrightarrow> fut_step st st'"
| resumed: "await_resume p st = Inr (x, st') \<Longrightarrow> fut_step st st'"
| finished: "st_frames st co = Some fr \<Longrightarrow> fr_future fr = None \<or> w \<noteq> None \<Longrightarrow>
     coroutine_end co st = Inr (w, st') \<Longrightarrow> fut_step st st'"

inductive fut_reach :: "store \<Rightarrow> bool" where
  start: "fut_reach \<lparr>st_futures = \<lambda>_. None, st_frames = \<lambda>_. None\<rparr>"
| step: "fut_reach st \<Longrightarrow> fut_step st st' \<Longrightarrow> fut_reach st'"

text \<open>The same with coroutines that end while their future is alive and nobody awaits it.\<close>

inductive loose_reach :: "store \<Rightarrow> bool" where
  loose_start: "loose_reach \<lparr>st_futures = \<lambda>_. None, st_frames = \<lambda>_. None\<rparr>"
| loose_step: "loose_reach st \<Longrightarrow> fut_step st st' \<Longrightarrow> loose_reach st'"
| ends_alone: "loose_reach st \<Longrightarrow> coroutine_end co st = Inr (None, st') \<Longrightarrow> loose_reach st'"

text \<open>Writing a future without touching \<open>self_\<close> or its class keeps the links.\<close>

definition same_links :: "store \<Rightarrow> store \<Rightarrow> bool" where
  "same_links st st' \<longleftrightarrow> self_of st' = self_of st \<and> void_future st' = void_future st
     \<and> future_of st' = future_of st \<and> void_frame st' = void_frame st \<and> dom (st_frames st') = dom (st_frames st)"

lemma same_links_refl: "same_links st st"
  by (simp add: same_links_def)

lemma same_links_trans: "same_links st st' \<Longrightarrow> same_links st' st'' \<Longrightarrow> same_links st st''"
  by (simp add: same_links_def)

lemma same_links_keep:
  assumes "same_links st st'"
  shows "linked st \<Longrightarrow> linked st'" "owned st \<Longrightarrow> owned st'"
proof -
  have "st_frames st' co = None \<longleftrightarrow> st_frames st co = None" for co
    using assms by (metis domIff same_links_def)
  then show "linked st \<Longrightarrow> linked st'" "owned st \<Longrightarrow> owned st'"
    using assms by (simp_all add: linked_def owned_def same_links_def)
qed

lemma same_set_fut:
  assumes "st_futures st p = Some f" "fu_self f' = fu_self f" "fu_void f' = fu_void f"
  shows "same_links st (set_fut p f' st)"
  by (simp add: same_links_def fun_eq_iff view_simps assms)

lemma same_set_fields:
  assumes "st_futures st p = Some f"
  shows "same_links st (set_fut p (f\<lparr>fu_return := r\<rparr>) st)" "same_links st (set_fut p (f\<lparr>fu_exception := x\<rparr>) st)"
    "same_links st (set_fut p (f\<lparr>fu_waiting := w\<rparr>) st)" "same_links st (set_fut p (f\<lparr>fu_waited := w\<rparr>) st)"
    "same_links st (set_fut p (f\<lparr>fu_cancelled := b\<rparr>) st)"
  by (rule same_set_fut [OF assms]; simp)+

lemma same_done: "st_frames st co = Some fr \<Longrightarrow> same_links st (set_frame co (fr\<lparr>fr_done := True\<rparr>) st)"
  by (auto simp: same_links_def fun_eq_iff view_simps)

lemma same_set_waited: "set_waited co w st = Inr st' \<Longrightarrow> same_links st st'"
  by (auto simp: set_waited_def outcome_simps same_set_fields same_links_refl split: option.splits if_splits)

lemma same_cancel:
  assumes "cancel p st = Some (Inr st')"
  shows "same_links st st'"
proof -
  have "\<forall>st'. r = Inr st' \<longrightarrow> same_links st st'" if "cancel p st = Some r" for r
  proof (rule cancel.raw_induct [OF _ that], intro allI impI)
    fix rest p st r st'
    assume IH: "\<And>p st r. rest p st = Some r \<Longrightarrow> \<forall>st'. r = Inr st' \<longrightarrow> same_links st st'"
      and C: "(case st_futures st p of None \<Rightarrow> Some (Inl Null_deref)
        | Some f \<Rightarrow> let st = set_fut p (f\<lparr>fu_cancelled := True\<rparr>) st
            in case fu_waited f of None \<Rightarrow> Some (Inr st)
               | Some co \<Rightarrow> case st_frames st co of None \<Rightarrow> Some (Inl Null_deref)
                   | Some fr \<Rightarrow> case fr_future fr of None \<Rightarrow> Some (Inl Null_deref)
                       | Some q \<Rightarrow> rest q st) = Some r"
      and r: "r = Inr st'"
    obtain f where f: "st_futures st p = Some f" using C r by (cases "st_futures st p") auto
    note S = same_set_fields(5) [OF f, of True]
    show "same_links st st'"
    proof (cases "fu_waited f")
      case None
      then show ?thesis using C r f S by (simp add: Let_def)
    next
      case (Some co)
      then obtain q where "rest q (set_fut p (f\<lparr>fu_cancelled := True\<rparr>) st) = Some r"
        using C r f by (auto simp: Let_def split: option.splits)
      then have "same_links (set_fut p (f\<lparr>fu_cancelled := True\<rparr>) st) st'" using IH r by blast
      with S show ?thesis by (rule same_links_trans)
    qed
  qed
  then show ?thesis using assms by simp
qed

lemma linked_set_fields:
  assumes "linked st" "st_futures st p = Some f"
  shows "linked (set_fut p (f\<lparr>fu_return := r\<rparr>) st)" "linked (set_fut p (f\<lparr>fu_exception := x\<rparr>) st)"
  by (rule same_links_keep(1) [OF same_set_fields(1) [OF assms(2)] assms(1)])
    (rule same_links_keep(1) [OF same_set_fields(2) [OF assms(2)] assms(1)])

text \<open>The steps that do touch the links: construction, moving, destruction and the end of a coroutine.\<close>

lemma linked_call:
  assumes L: "linked st" and fresh: "st_futures st p = None" "st_frames st co = None" "\<forall>q. self_of st q \<noteq> Some co"
    and C: "Future_ctor v p (Some co) (set_frame co \<lparr>fr_void = v, fr_future = None, fr_done = False\<rparr> st) = Inr st'"
  shows "linked st' \<and> (owned st \<longrightarrow> owned st')"
proof -
  note N = self_of_None [OF fresh(1)] future_of_None [OF fresh(2)]
  from C have "\<exists>f. st' = set_frame co \<lparr>fr_void = v, fr_future = Some p, fr_done = False\<rparr> (set_fut p f st)
      \<and> fu_self f = Some co \<and> fu_void f = v"
    by (auto simp: Future_ctor_def frame_at_def set_frame_def set_fut_def Let_def intro!: exI)
  then obtain f where st': "st' = set_frame co \<lparr>fr_void = v, fr_future = Some p, fr_done = False\<rparr> (set_fut p f st)"
    "fu_self f = Some co" "fu_void f = v" by blast
  have "linked st'"
  proof (rule linkedI)
    show "self_of st' q = Some c \<and> void_frame st' c = void_future st' q" if "future_of st' c = Some q" for q c
      using linkedD(1,2) [OF L, of c q] that N by (auto simp: st' split: if_splits)
    show "st_frames st' c = None \<or> future_of st' c = Some q" if "self_of st' q = Some c" for q c
      using linkedD(3) [OF L, of q c] that fresh(3) by (auto simp: st' split: if_splits)
    show "void_frame st' c \<or> future_of st' c \<noteq> None" for c
      using linkedD(4) [OF L, of c] by (simp add: st')
  qed
  moreover have "owned st \<longrightarrow> owned st'" by (auto simp: owned_def st')
  ultimately show ?thesis ..
qed

lemma linked_fresh:
  assumes L: "linked st" and fresh: "st_futures st p = None" and f: "fu_self f = None"
  shows "linked (set_fut p f st)" "owned st \<Longrightarrow> owned (set_fut p f st)"
proof -
  have no: "future_of st c \<noteq> Some p" for c using linkedD(1) [OF L, of c p] self_of_None [OF fresh] by auto
  show "linked (set_fut p f st)"
    using no L f by (auto intro!: linkedI dest: linkedD split: if_splits)
  show "owned st \<Longrightarrow> owned (set_fut p f st)" using f by (auto simp: owned_def)
qed

lemma linked_object:
  assumes "linked st" "st_futures st p = None" "Future_ctor v p None st = Inr st'"
  shows "linked st' \<and> (owned st \<longrightarrow> owned st')"
proof -
  obtain f where "st' = set_fut p f st" "fu_self f = None"
    using assms(3) by (auto simp: Future_ctor_def Let_def)
  then show ?thesis using linked_fresh [OF assms(1,2)] by simp
qed

lemma move_assign_cases:
  assumes "move_assign q p st = Inr st'" "st_futures st q = Some g" "st_futures st p = Some f" "p \<noteq> q" "fu_void g = fu_void f"
  obtains a b where "fu_self a = fu_self f" "fu_void a = fu_void f" "fu_self b = None" "fu_void b = fu_void f"
    "fu_self f = None \<and> st' = set_fut p b (set_fut q a st) \<or>
      (\<exists>co fr. fu_self f = Some co \<and> st_frames st co = Some fr \<and>
         st' = set_frame co (fr\<lparr>fr_future := Some q\<rparr>) (set_fut p b (set_fut q a st)))"
proof (rule that)
  let ?a = "g\<lparr>fu_return := (if fu_void g then fu_return g else fu_return f),
    fu_self := fu_self f, fu_waiting := fu_waiting f, fu_waited := fu_waited f\<rparr>"
  let ?b = "f\<lparr>fu_self := None, fu_waiting := None, fu_waited := None\<rparr>"
  show "fu_self ?a = fu_self f" "fu_void ?a = fu_void f" "fu_self ?b = None" "fu_void ?b = fu_void f"
    using assms(5) by simp_all
  show "fu_self f = None \<and> st' = set_fut p ?b (set_fut q ?a st) \<or>
      (\<exists>co fr. fu_self f = Some co \<and> st_frames st co = Some fr \<and>
         st' = set_frame co (fr\<lparr>fr_future := Some q\<rparr>) (set_fut p ?b (set_fut q ?a st)))"
    using assms(1-4) by (auto simp: move_assign_def Let_def outcome_simps split: option.splits)
qed

lemma linked_assign:
  assumes L: "linked st" and q: "st_futures st q = Some g" "fu_self g = None" and p: "st_futures st p = Some f"
    and pq: "p \<noteq> q" and cls: "fu_void g = fu_void f" and M: "move_assign q p st = Inr st'"
  shows "linked st' \<and> (owned st \<longrightarrow> owned st')"
proof -
  obtain a b where ab: "fu_self a = fu_self f" "fu_void a = fu_void f" "fu_self b = None" "fu_void b = fu_void f"
    and cs: "fu_self f = None \<and> st' = set_fut p b (set_fut q a st) \<or>
      (\<exists>co fr. fu_self f = Some co \<and> st_frames st co = Some fr \<and>
         st' = set_frame co (fr\<lparr>fr_future := Some q\<rparr>) (set_fut p b (set_fut q a st)))"
    by (rule move_assign_cases [OF M q(1) p pq cls])
  note N = self_of_Some [OF q(1)] self_of_Some [OF p] void_future_Some [OF p]
  show ?thesis using cs
  proof (elim disjE exE conjE)
    assume self: "fu_self f = None" and st': "st' = set_fut p b (set_fut q a st)"
    have no: "future_of st c \<noteq> Some p" "future_of st c \<noteq> Some q" for c
      using linkedD(1) [OF L, of c p] linkedD(1) [OF L, of c q] N self q(2) by auto
    have "linked st'"
    proof (rule linkedI)
      show "self_of st' r = Some c \<and> void_frame st' c = void_future st' r" if "future_of st' c = Some r" for r c
        using linkedD(1,2) [OF L, of c r] that no [of c] by (auto simp: st')
      show "st_frames st' c = None \<or> future_of st' c = Some r" if "self_of st' r = Some c" for r c
        using linkedD(3) [OF L, of r c] that self by (auto simp: st' ab split: if_splits)
      show "void_frame st' c \<or> future_of st' c \<noteq> None" for c
        using linkedD(4) [OF L, of c] by (simp add: st')
    qed
    then show ?thesis using self by (auto simp: owned_def st' ab)
  next
    fix co fr
    assume self: "fu_self f = Some co" and fr: "st_frames st co = Some fr"
      and st': "st' = set_frame co (fr\<lparr>fr_future := Some q\<rparr>) (set_fut p b (set_fut q a st))"
    have co: "future_of st co = Some p" using linkedD(3) [OF L, of p co] N(2) self fr by simp
    have no: "future_of st c \<noteq> Some q" "future_of st c = Some p \<Longrightarrow> c = co" for c
      using linkedD(1) [OF L, of c p] linkedD(1) [OF L, of c q] N(1,2) self q(2) by auto
    have vq: "void_frame st co = fu_void f" using linkedD(2) [OF L co] N(3) by simp
    have "linked st'"
    proof (rule linkedI)
      show "self_of st' r = Some c \<and> void_frame st' c = void_future st' r" if "future_of st' c = Some r" for r c
        using linkedD(1,2) [OF L, of c r] that no [of c] self vq void_frame_Some [OF fr] pq
        by (auto simp: st' ab split: if_splits)
      show "st_frames st' c = None \<or> future_of st' c = Some r" if "self_of st' r = Some c" for r c
        using linkedD(3) [OF L, of r c] that co self fr pq by (auto simp: st' ab split: if_splits)
      show "void_frame st' c \<or> future_of st' c \<noteq> None" for c
        using linkedD(4) [OF L, of c] by (simp add: st')
    qed
    then show ?thesis using self fr by (auto simp: owned_def st' ab)
  qed
qed

lemma linked_move:
  assumes L: "linked st" and q: "st_futures st q = None" and p: "st_futures st p = Some f"
    and M: "move_ctor (fu_void f) q p st = Inr st'"
  shows "linked st' \<and> (owned st \<longrightarrow> owned st')"
proof -
  define g where "g = \<lparr>fu_void = fu_void f, fu_return = None, fu_exception = None, fu_self = None,
    fu_waiting = None, fu_waited = None, fu_cancelled = False\<rparr>"
  have g: "fu_self g = None" "fu_void g = fu_void f" by (simp_all add: g_def)
  have "move_assign q p (set_fut q g st) = Inr st'" using M by (simp add: move_ctor_def g_def)
  moreover have "p \<noteq> q" using p q by auto
  ultimately show ?thesis
    using linked_assign [of "set_fut q g st" q g p f st'] linked_fresh [OF L q g(1)] g p by auto
qed

lemma linked_dtor:
  assumes L: "linked st" and D: "Future_dtor p st = Inr st'"
  shows "linked st' \<and> (owned st \<longrightarrow> owned st')"
proof -
  obtain f where f: "st_futures st p = Some f"
    using D by (auto simp: Future_dtor_def outcome_simps)
  note N = self_of_Some [OF f] void_future_Some [OF f]
  show ?thesis
  proof (cases "fu_self f")
    case None
    then have st': "st' = drop_fut p st" using D f by (simp add: Future_dtor_def fut_at_def drop_fut_def)
    have free: "future_of st c \<noteq> Some p" for c using linkedD(1) [OF L, of c p] N None by auto
    have "linked st'" using free L by (auto simp: st' intro!: linkedI dest: linkedD split: if_splits)
    then show ?thesis by (auto simp: owned_def st')
  next
    case (Some co)
    then obtain fr where fr: "st_frames st co = Some fr"
      and st': "st' = drop_fut p (if fu_void f \<and> fu_waiting f = None
        then set_frame co (fr\<lparr>fr_future := None\<rparr>) st else destroy co st)"
      using D f by (auto simp: Future_dtor_def fut_at_def outcome_simps drop_fut_def split: if_splits)
    have co: "future_of st co = Some p" using linkedD(3) [OF L, of p co] N Some fr by auto
    have unique: "future_of st c = Some p \<longleftrightarrow> c = co" for c
      using linkedD(1) [OF L, of c p] N Some co by auto
    have other: "self_of st q = Some co \<Longrightarrow> q = p" for q using linkedD(3) [OF L, of q co] co fr by auto
    have cls: "fr_void fr = fu_void f" using linkedD(2) [OF L co] N fr by (simp add: view_simps)
    have "linked st'"
    proof (rule linkedI)
      show "self_of st' q = Some c \<and> void_frame st' c = void_future st' q" if "future_of st' c = Some q" for q c
        using linkedD(1,2) [OF L, of c q] that unique [of c] by (auto simp: st' split: if_splits)
      show "st_frames st' c = None \<or> future_of st' c = Some q" if "self_of st' q = Some c" for q c
        using linkedD(3) [OF L, of q c] that other [of q] by (auto simp: st' split: if_splits)
      show "void_frame st' c \<or> future_of st' c \<noteq> None" for c
        using linkedD(4) [OF L, of c] by (simp add: st' cls)
    qed
    then show ?thesis using other by (auto simp: owned_def st')
  qed
qed

lemma linked_destroy:
  assumes L: "linked st"
  shows "linked (destroy co st)"
  using L by (auto intro!: linkedI dest: linkedD split: if_splits)

lemma coroutine_end_cases:
  assumes "coroutine_end co st = Inr (w, st')"
  shows "w = None \<and> st' = destroy co st \<or>
    (\<exists>x fr. w = Some x \<and> st_frames st co = Some fr \<and> st' = set_frame co (fr\<lparr>fr_done := True\<rparr>) st)"
  using assms by (auto simp: coroutine_end_def outcome_simps split: option.splits)

lemma linked_end:
  assumes L: "linked st" and fr: "st_frames st co = Some fr" "fr_future fr = None \<or> w \<noteq> None"
    and E: "coroutine_end co st = Inr (w, st')"
  shows "linked st' \<and> (owned st \<longrightarrow> owned st')"
  using coroutine_end_cases [OF E]
proof (elim disjE exE conjE)
  assume w: "w = None" and st': "st' = destroy co st"
  have "self_of st q \<noteq> Some co" for q
    using linkedD(3) [OF L, of q co] fr w by (auto simp: view_simps)
  then show ?thesis using linked_destroy [OF L, of co] by (auto simp: st' owned_def)
next
  fix x fr' assume "w = Some x" "st_frames st co = Some fr'" "st' = set_frame co (fr'\<lparr>fr_done := True\<rparr>) st"
  then show ?thesis using same_links_keep [OF same_done] L by simp
qed

lemmas same_steps = same_set_fields same_links_refl same_set_waited same_links_trans [OF same_set_fields(3) same_set_waited]

lemma fut_step_linked: "fut_step st st' \<Longrightarrow> linked st \<Longrightarrow> linked st' \<and> (owned st \<longrightarrow> owned st')"
proof (induction rule: fut_step.induct)
  case (call_async st p co v st')
  then show ?case using linked_call [of st p co v st'] by simp
next
  case (make_object st p v st')
  then show ?case using linked_object [of st p v st'] by simp
next
  case (move st q p f st')
  then show ?case using linked_move [of st q p f st'] by simp
next
  case (assign st q g p f st')
  then show ?case using linked_assign [of st q g p f st'] by simp
next
  case (drop_future p st st')
  then show ?case using linked_dtor [of st p st'] by simp
next
  case (cancels p st st')
  then show ?case using same_links_keep [OF same_cancel [of p st st']] by simp
next
  case (throws co e st st')
  then have "same_links st st'"
    by (auto simp: unhandled_exception_def outcome_simps same_steps split: option.splits if_splits)
  then show ?case using throws same_links_keep [of st st'] by simp
next
  case (returns co v st st')
  then have "same_links st st'"
    by (auto simp: return_value_def outcome_simps same_steps split: option.splits if_splits)
  then show ?case using returns same_links_keep [of st st'] by simp
next
  case (awaits p w st a st')
  then have "same_links st st'"
    by (auto simp: await_suspend_bind_def Let_def outcome_simps intro: same_steps)
  then show ?case using awaits same_links_keep [of st st'] by simp
next
  case (polled_inline r p st b st')
  then have "same_links st st'"
    by (cases r) (auto simp: await_suspend_polled_def outcome_simps same_steps split: if_splits)
  then show ?case using polled_inline same_links_keep [of st st'] by simp
next
  case (polled r p st b st')
  then have "same_links st st'"
    by (cases r) (auto simp: poll_wrapper_def outcome_simps same_steps split: if_splits)
  then show ?case using polled same_links_keep [of st st'] by simp
next
  case (resumed p st x st')
  then have "same_links st st'"
    by (auto simp: await_resume_def outcome_simps intro: same_steps split: option.splits if_splits)
  then show ?case using resumed same_links_keep [of st st'] by simp
next
  case (finished st co fr w st')
  then show ?case using linked_end [of st co fr w st'] by simp
qed

lemma linked_empty: "linked \<lparr>st_futures = \<lambda>_. None, st_frames = \<lambda>_. None\<rparr>"
  by (simp add: linked_def self_of_def future_of_def void_frame_def)

lemma fut_reach_linked: "fut_reach st \<Longrightarrow> linked st \<and> owned st"
proof (induction rule: fut_reach.induct)
  case start
  then show ?case using linked_empty by (simp add: owned_def self_of_def)
qed (blast dest: fut_step_linked)

lemma fut_reach_self:
  assumes "fut_reach st" "self_of st p = Some co"
  shows "future_of st co = Some p" "void_frame st co = void_future st p"
proof -
  have L: "linked st" "owned st" using fut_reach_linked [OF assms(1)] by simp_all
  then show "future_of st co = Some p" using linkedD(3) [OF L(1) assms(2)] assms(2) unfolding owned_def by blast
  then show "void_frame st co = void_future st p" by (rule linkedD(2) [OF L(1)])
qed

lemma loose_reach_linked: "loose_reach st \<Longrightarrow> linked st"
proof (induction rule: loose_reach.induct)
  case (ends_alone st co st')
  then show ?case using coroutine_end_cases [OF ends_alone(2)] linked_destroy by blast
qed (use linked_empty fut_step_linked in blast)+

text \<open>With the links in place the promise finds its future.\<close>

lemma linked_frame:
  assumes "linked st" "st_frames st co = Some fr"
  shows "fr_future fr = None \<and> fr_void fr \<or>
    (\<exists>p f. fr_future fr = Some p \<and> st_futures st p = Some f \<and> fu_self f = Some co \<and> fu_void f = fr_void fr)"
proof (cases "fr_future fr")
  case None
  then show ?thesis using linkedD(4) [OF assms(1), of co] assms(2) by (simp add: view_simps)
next
  case (Some p)
  then have "self_of st p = Some co" "void_frame st co = void_future st p"
    using linkedD(1,2) [OF assms(1), of co p] assms(2) by (simp_all add: view_simps)
  moreover from this obtain f where "st_futures st p = Some f" "fu_self f = Some co"
    by (auto simp: self_of_def bind_eq_Some_conv)
  ultimately show ?thesis using assms(2) Some by (simp add: view_simps)
qed

section \<open>Cancelling\<close>

text \<open>The chain of futures, each awaiting the coroutine of the next.\<close>

inductive await_chain :: "store \<Rightarrow> future_ptr list \<Rightarrow> bool" where
  chain_end: "st_futures st p = Some f \<Longrightarrow> fu_waited f = None \<Longrightarrow> await_chain st [p]"
| chain_next: "st_futures st p = Some f \<Longrightarrow> fu_waited f = Some co \<Longrightarrow> st_frames st co = Some fr \<Longrightarrow>
    fr_future fr = Some q \<Longrightarrow> await_chain st (q # ps) \<Longrightarrow> await_chain st (p # q # ps)"

definition cancel_all :: "future_ptr set \<Rightarrow> store \<Rightarrow> store" where
  "cancel_all A st = st\<lparr>st_futures := \<lambda>p. if p \<in> A
     then map_option (\<lambda>f. f\<lparr>fu_cancelled := True\<rparr>) (st_futures st p) else st_futures st p\<rparr>"

lemma cancel_one:
  assumes "st_futures st p = Some f"
  shows "\<exists>g. st_futures (cancel_all A st) p = Some g \<and> fu_waited g = fu_waited f \<and>
    set_fut p (g\<lparr>fu_cancelled := True\<rparr>) (cancel_all A st) = cancel_all (insert p A) st"
  using assms by (auto simp: cancel_all_def set_fut_def fun_eq_iff)

lemma cancel_chain:
  assumes "await_chain st ps"
  shows "cancel (hd ps) (cancel_all A st) = Some (Inr (cancel_all (A \<union> set ps) st))"
  using assms
proof (induction arbitrary: A rule: await_chain.induct)
  case (chain_end st p f)
  from cancel_one [OF chain_end(1), of A] obtain g where
    "st_futures (cancel_all A st) p = Some g" "fu_waited g = fu_waited f"
    "set_fut p (g\<lparr>fu_cancelled := True\<rparr>) (cancel_all A st) = cancel_all (insert p A) st" by blast
  then show ?case using chain_end(2) by (subst cancel.simps) (simp add: Un_commute)
next
  case (chain_next st p f co fr q ps)
  from cancel_one [OF chain_next(1), of A] obtain g where
    g: "st_futures (cancel_all A st) p = Some g" "fu_waited g = fu_waited f"
    "set_fut p (g\<lparr>fu_cancelled := True\<rparr>) (cancel_all A st) = cancel_all (insert p A) st" by blast
  have fr: "st_frames (cancel_all (insert p A) st) co = Some fr"
    using chain_next(3) by (simp add: cancel_all_def)
  show ?case
    using g fr chain_next(2,4) chain_next.IH [of "insert p A"]
    by (subst cancel.simps) (simp add: Let_def insert_commute)
qed

lemma cancel_all_empty [simp]: "cancel_all {} st = st"
  by (simp add: cancel_all_def)

end
