(* ===== verification/Runtime_Core.thy ===== *)
theory Runtime_Core
  imports Registry_Object Future_Store "HOL-Library.AList"
begin

text \<open>
  The runtime: ready queues, workers, the driver that polls the registries and the launch of the
  workers (\<open>src/runtime/core.cc\<close>, \<open>src/runtime/driver.cc\<close> and the templates of
  \<open>include/xyco/runtime/\<close>). The record \<open>core\<close> is the \<open>RuntimeCore\<close> with the objects it
  reaches: the events, the futures and the registries. A \<open>shared_ptr<Registry>\<close> is an index
  into the registries. The running of coroutines and of user-defined \<open>poll\<close> functions is a
  parameter that may change the whole core. Critical sections are atomic.
\<close>

section \<open>Definitions\<close>

type_synonym thread_id = nat
type_synonym ready_task = "handle option \<times> future_ptr option"

record worker =
  wk_suspend :: bool
  wk_handles :: "ready_task list"

record driver =
  dr_initializers :: "(registry_class \<times> nat) list"
  dr_local :: "thread_id \<Rightarrow> (registry_class \<times> nat) list option"
  dr_objects :: "registry_obj list"
  dr_instances :: "registry_class \<Rightarrow> nat option"

record core =
  co_handles :: "ready_task list"
  co_in_place :: worker
  co_workers :: "thread_id \<Rightarrow> worker option"
  co_driver :: driver
  co_heap :: heap
  co_store :: store

definition Worker :: worker where
  "Worker = \<lparr>wk_suspend = False, wk_handles = []\<rparr>"

definition Driver :: "(registry_class \<times> nat) list \<Rightarrow> driver" where
  "Driver registry_initializers =
     \<lparr>dr_initializers = registry_initializers, dr_local = \<lambda>_. None, dr_objects = [], dr_instances = \<lambda>_. None\<rparr>"

subsection \<open>Ready queues\<close>

definition push_handle :: "ready_task \<Rightarrow> 'a core_scheme \<Rightarrow> 'a core_scheme" where
  "push_handle t c = c\<lparr>co_handles := emplace_begin t (co_handles c)\<rparr>"

definition register_future :: "future_ptr \<Rightarrow> 'a core_scheme \<Rightarrow> 'a core_scheme outcome" where
  "register_future future c =
     and_then (get_handle future (co_store c)) (\<lambda>co. Inr (push_handle (co, Some future) c))"

text \<open>
  \<open>spawn_impl\<close>, after \<open>spawn_with_exception_handling\<close> made the wrapper's future at
  \<open>future_wrapper\<close>; the future is destroyed on return.
\<close>

definition spawn_push :: "future_ptr \<Rightarrow> 'a core_scheme \<Rightarrow> 'a core_scheme outcome" where
  "spawn_push future_wrapper c =
     and_then (get_handle future_wrapper (co_store c)) (\<lambda>co.
     Inr (if co \<noteq> None then push_handle (co, None) c else c))"

definition spawn_drop :: "future_ptr \<Rightarrow> 'a core_scheme \<Rightarrow> 'a core_scheme outcome" where
  "spawn_drop future_wrapper c =
     and_then (Future_dtor future_wrapper (co_store c)) (\<lambda>st. Inr (c\<lparr>co_store := st\<rparr>))"

definition spawn_impl :: "future_ptr \<Rightarrow> 'a core_scheme \<Rightarrow> 'a core_scheme outcome" where
  "spawn_impl future_wrapper c = and_then (spawn_push future_wrapper c) (spawn_drop future_wrapper)"

definition wake_one :: "event_ptr \<Rightarrow> 'a core_scheme \<Rightarrow> 'a core_scheme outcome" where
  "wake_one e c =
     (let future = ev_future (co_heap c e);
          c = c\<lparr>co_heap := set_future e None (co_heap c)\<rparr>
      in case future of
           None \<Rightarrow> Inl Null_deref
         | Some p \<Rightarrow> and_then (get_handle p (co_store c)) (\<lambda>co. Inr (push_handle (co, Some p) c)))"

definition wake :: "event_ptr list \<Rightarrow> 'a core_scheme \<Rightarrow> (event_ptr list \<times> 'a core_scheme) outcome" where
  "wake events c = and_then (for_each wake_one events c) (\<lambda>c. Inr ([], c))"

definition wake_local_one :: "thread_id \<Rightarrow> event_ptr \<Rightarrow> 'a core_scheme \<Rightarrow> 'a core_scheme outcome" where
  "wake_local_one tid e c =
     (let future = ev_future (co_heap c e);
          c = c\<lparr>co_heap := set_future e None (co_heap c)\<rparr>
      in case future of
           None \<Rightarrow> Inl Null_deref
         | Some p \<Rightarrow> and_then (get_handle p (co_store c)) (\<lambda>co.
             case co_workers c tid of
               None \<Rightarrow> Inl End_deref
             | Some wk \<Rightarrow>
                 Inr (c\<lparr>co_workers := (co_workers c)
                   (tid \<mapsto> wk\<lparr>wk_handles := emplace_begin (co, Some p) (wk_handles wk)\<rparr>)\<rparr>)))"

definition wake_local :: "thread_id \<Rightarrow> event_ptr list \<Rightarrow> 'a core_scheme \<Rightarrow> (event_ptr list \<times> 'a core_scheme) outcome" where
  "wake_local tid events c = (case co_workers c tid of
     None \<Rightarrow> Inl End_deref
   | Some _ \<Rightarrow> and_then (for_each (wake_local_one tid) events c) (\<lambda>c. Inr ([], c)))"

subsection \<open>The driver\<close>

abbreviation (input) MAX_TIMEOUT :: int where "MAX_TIMEOUT \<equiv> 2"

text \<open>\<open>w\<close> gives the outside world of the call on each registry.\<close>

definition poll_registry ::
  "(nat \<Rightarrow> world) \<Rightarrow> registry_class \<times> nat \<Rightarrow> event_ptr list \<times> 'a core_scheme \<Rightarrow> (event_ptr list \<times> 'a core_scheme) outcome" where
  "poll_registry w = (\<lambda>(key, i) (events, c).
     and_then (Registry_select (w i, MAX_TIMEOUT) events (co_heap c, dr_objects (co_driver c) ! i)) (\<lambda>(r, events, h, R).
     case r of
       Inl err \<Rightarrow> Inl Bad_expected
     | Inr _ \<Rightarrow> wake events
         (c\<lparr>co_heap := h, co_driver := (co_driver c)\<lparr>dr_objects := (dr_objects (co_driver c))[i := R]\<rparr>\<rparr>)))"

definition Driver_poll :: "(nat \<Rightarrow> world) \<Rightarrow> thread_id \<Rightarrow> 'a core_scheme \<Rightarrow> 'a core_scheme outcome" where
  "Driver_poll w tid c = (case dr_local (co_driver c) tid of
     None \<Rightarrow> Inl End_deref
   | Some local_registry \<Rightarrow>
       and_then (for_each (poll_registry w) local_registry ([], c)) (\<lambda>(events, c). Inr c))"

text \<open>The lookup and the call of \<open>Register\<close>, \<open>reregister\<close> and \<open>deregister\<close> of the driver.\<close>

definition Driver_call ::
  "(event_ptr \<Rightarrow> heap \<times> registry_obj \<Rightarrow> (unit result \<times> heap \<times> registry_obj) outcome)
   \<Rightarrow> thread_id \<Rightarrow> registry_class \<Rightarrow> event_ptr \<Rightarrow> 'a core_scheme \<Rightarrow> 'a core_scheme outcome" where
  "Driver_call op tid cls e c = (case dr_local (co_driver c) tid of
     None \<Rightarrow> Inl End_deref
   | Some local_registry \<Rightarrow> (case map_of local_registry cls of
       None \<Rightarrow> Inl End_deref
     | Some i \<Rightarrow>
         and_then (op e (co_heap c, dr_objects (co_driver c) ! i)) (\<lambda>(r, h, R).
         case r of
           Inl err \<Rightarrow> Inl Bad_expected
         | Inr _ \<Rightarrow> Inr (c\<lparr>co_heap := h,
             co_driver := (co_driver c)\<lparr>dr_objects := (dr_objects (co_driver c))[i := R]\<rparr>\<rparr>))))"

definition Driver_Register :: "world \<Rightarrow> thread_id \<Rightarrow> registry_class \<Rightarrow> event_ptr \<Rightarrow> 'a core_scheme \<Rightarrow> 'a core_scheme outcome" where
  "Driver_Register w = Driver_call (Registry_Register w)"

definition Driver_reregister :: "world \<Rightarrow> thread_id \<Rightarrow> registry_class \<Rightarrow> event_ptr \<Rightarrow> 'a core_scheme \<Rightarrow> 'a core_scheme outcome" where
  "Driver_reregister w = Driver_call (Registry_reregister w)"

definition Driver_deregister :: "world \<Rightarrow> thread_id \<Rightarrow> registry_class \<Rightarrow> event_ptr \<Rightarrow> 'a core_scheme \<Rightarrow> 'a core_scheme outcome" where
  "Driver_deregister w = Driver_call (Registry_deregister w)"

text \<open>
  \<open>R::get_instance\<close>: the \<open>GlobalRegistry\<close> of a runtime is made once; the \<open>IoRegistry\<close> of
  io_uring is a \<open>ThreadLocalRegistry\<close>, made for each thread.
\<close>

definition get_instance :: "world \<Rightarrow> registry_class \<Rightarrow> nat \<Rightarrow> driver \<Rightarrow> (nat \<times> driver) outcome" where
  "get_instance w cls n d =
     (case (if cls = Uring_class then None else dr_instances d cls) of
        Some i \<Rightarrow> Inr (i, d)
      | None \<Rightarrow>
          and_then (make_registry w cls n) (\<lambda>R.
          let i = length (dr_objects d);
              d = d\<lparr>dr_objects := dr_objects d @ [R]\<rparr>
          in Inr (i, if cls = Uring_class then d else d\<lparr>dr_instances := (dr_instances d)(cls \<mapsto> i)\<rparr>)))"

definition add_registry :: "world \<Rightarrow> thread_id \<Rightarrow> registry_class \<times> nat \<Rightarrow> driver \<Rightarrow> driver outcome" where
  "add_registry w tid = (\<lambda>(cls, n) d.
     and_then (get_instance w cls n d) (\<lambda>(i, d).
     let regs = (case dr_local d tid of None \<Rightarrow> [] | Some regs \<Rightarrow> regs)
     in Inr (d\<lparr>dr_local := (dr_local d)(tid \<mapsto> AList.update cls i regs)\<rparr>)))"

definition add_thread :: "world \<Rightarrow> thread_id \<Rightarrow> driver \<Rightarrow> driver outcome" where
  "add_thread w tid d =
     for_each (add_registry w tid) (dr_initializers d) (d\<lparr>dr_local := (dr_local d)(tid \<mapsto> [])\<rparr>)"

subsection \<open>The worker loop\<close>

text \<open>A worker is the in-place worker (None) or that of a thread.\<close>

definition suspended :: "thread_id option \<Rightarrow> 'a core_scheme \<Rightarrow> bool" where
  "suspended wid c = (case wid of
     None \<Rightarrow> wk_suspend (co_in_place c)
   | Some tid \<Rightarrow> (case co_workers c tid of None \<Rightarrow> True | Some wk \<Rightarrow> wk_suspend wk))"

definition set_suspend :: "bool \<Rightarrow> thread_id option \<Rightarrow> 'a core_scheme \<Rightarrow> 'a core_scheme" where
  "set_suspend b wid c = (case wid of
     None \<Rightarrow> c\<lparr>co_in_place := (co_in_place c)\<lparr>wk_suspend := b\<rparr>\<rparr>
   | Some tid \<Rightarrow> (case co_workers c tid of
       None \<Rightarrow> c
     | Some wk \<Rightarrow> c\<lparr>co_workers := (co_workers c)(tid \<mapsto> wk\<lparr>wk_suspend := b\<rparr>)\<rparr>))"

definition suspend :: "thread_id option \<Rightarrow> 'a core_scheme \<Rightarrow> 'a core_scheme" where
  "suspend wid c = set_suspend True wid c"

datatype queue_id = Global_queue | Local_queue "thread_id option"

fun queue_at :: "queue_id \<Rightarrow> 'a core_scheme \<Rightarrow> ready_task list" where
  "queue_at Global_queue c = co_handles c"
| "queue_at (Local_queue None) c = wk_handles (co_in_place c)"
| "queue_at (Local_queue (Some tid)) c = (case co_workers c tid of None \<Rightarrow> [] | Some wk \<Rightarrow> wk_handles wk)"

fun set_queue :: "queue_id \<Rightarrow> ready_task list \<Rightarrow> 'a core_scheme \<Rightarrow> 'a core_scheme" where
  "set_queue Global_queue q c = c\<lparr>co_handles := q\<rparr>"
| "set_queue (Local_queue None) q c = c\<lparr>co_in_place := (co_in_place c)\<lparr>wk_handles := q\<rparr>\<rparr>"
| "set_queue (Local_queue (Some tid)) q c = (case co_workers c tid of
     None \<Rightarrow> c | Some wk \<Rightarrow> c\<lparr>co_workers := (co_workers c)(tid \<mapsto> wk\<lparr>wk_handles := q\<rparr>)\<rparr>)"

text \<open>
  \<open>pw\<close> is \<open>poll_wrapper\<close> of a future, \<open>rs\<close> the resumption of a coroutine.
\<close>

definition run_task ::
  "(future_ptr \<Rightarrow> 'a core_scheme \<Rightarrow> (bool \<times> 'a core_scheme) outcome) \<Rightarrow> (handle \<Rightarrow> 'a core_scheme \<Rightarrow> 'a core_scheme outcome)
   \<Rightarrow> ready_task \<Rightarrow> 'a core_scheme \<Rightarrow> 'a core_scheme outcome" where
  "run_task pw rs = (\<lambda>(handle, future) c.
     let resume = (\<lambda>c. case handle of None \<Rightarrow> Inl Null_deref | Some co \<Rightarrow> rs co c)
     in case future of
          None \<Rightarrow> resume c
        | Some p \<Rightarrow> and_then (pw p c) (\<lambda>(ends, c). if ends then resume c else Inr c))"

partial_function (option) resume_loop ::
  "(ready_task \<Rightarrow> 'a core_scheme \<Rightarrow> 'a core_scheme outcome) \<Rightarrow> thread_id option \<Rightarrow> queue_id \<Rightarrow> 'a core_scheme
   \<Rightarrow> 'a core_scheme outcome option" where
  "resume_loop run wid q c =
     (if suspended wid c then Some (Inr c)
      else case pop_back (queue_at q c) of
             None \<Rightarrow> Some (Inr c)
           | Some (t, rest) \<Rightarrow>
               (case run t (set_queue q rest c) of
                  Inl e \<Rightarrow> Some (Inl e)
                | Inr c \<Rightarrow> resume_loop run wid q c))"

declare resume_loop.simps [code]

text \<open>\<open>locked\<close> tells whether \<open>try_to_lock\<close> got the mutex.\<close>

definition resume ::
  "(ready_task \<Rightarrow> 'a core_scheme \<Rightarrow> 'a core_scheme outcome) \<Rightarrow> bool \<Rightarrow> thread_id option \<Rightarrow> queue_id \<Rightarrow> 'a core_scheme
   \<Rightarrow> 'a core_scheme outcome option" where
  "resume run locked wid q c = (if locked then resume_loop run wid q c else Some (Inr c))"

definition option_then :: "'b outcome option \<Rightarrow> ('b \<Rightarrow> 'c outcome option) \<Rightarrow> 'c outcome option" where
  "option_then m f = (case m of None \<Rightarrow> None | Some (Inl e) \<Rightarrow> Some (Inl e) | Some (Inr x) \<Rightarrow> f x)"

definition run_loop_once ::
  "(ready_task \<Rightarrow> 'a core_scheme \<Rightarrow> 'a core_scheme outcome) \<Rightarrow> bool \<times> bool \<Rightarrow> (nat \<Rightarrow> world) \<Rightarrow> thread_id option \<Rightarrow> thread_id
   \<Rightarrow> 'a core_scheme \<Rightarrow> 'a core_scheme outcome option" where
  "run_loop_once run locks w wid tid c =
     option_then (resume run (fst locks) wid (Local_queue wid) c) (\<lambda>c.
     if suspended wid c then Some (Inr c)
     else option_then (resume run (snd locks) wid Global_queue c) (\<lambda>c.
          if suspended wid c then Some (Inr c) else Some (Driver_poll w tid c)))"

text \<open>The loop of \<open>run_in_place\<close>; the locks and the outside world of each round are given.\<close>

partial_function (option) run_rounds ::
  "(ready_task \<Rightarrow> 'a core_scheme \<Rightarrow> 'a core_scheme outcome) \<Rightarrow> (nat \<Rightarrow> (bool \<times> bool) \<times> (nat \<Rightarrow> world)) \<Rightarrow> thread_id option
   \<Rightarrow> thread_id \<Rightarrow> nat \<Rightarrow> 'a core_scheme \<Rightarrow> 'a core_scheme outcome option" where
  "run_rounds run env wid tid n c =
     (if suspended wid c then Some (Inr c)
      else case run_loop_once run (fst (env n)) (snd (env n)) wid tid c of
             None \<Rightarrow> None
           | Some (Inl e) \<Rightarrow> Some (Inl e)
           | Some (Inr c) \<Rightarrow> run_rounds run env wid tid (Suc n) c)"

declare run_rounds.simps [code]

definition run_in_place ::
  "(ready_task \<Rightarrow> 'a core_scheme \<Rightarrow> 'a core_scheme outcome) \<Rightarrow> (nat \<Rightarrow> (bool \<times> bool) \<times> (nat \<Rightarrow> world)) \<Rightarrow> thread_id option
   \<Rightarrow> thread_id \<Rightarrow> 'a core_scheme \<Rightarrow> 'a core_scheme outcome option" where
  "run_in_place run env wid tid c =
     option_then (run_rounds run env wid tid 0 c) (\<lambda>c. Some (Inr (set_suspend False wid c)))"

text \<open>
  The interface of \<open>Runtime\<close>. \<open>block_on\<close> spawns a coroutine that awaits the future, stores its
  value in the local variable \<open>result\<close> and suspends the worker of the calling thread, which runs
  until then. \<open>future_wrapper\<close> is the future \<open>spawn_impl\<close> makes for this coroutine, and
  \<open>result\<close> reads the variable.
\<close>

definition Runtime_spawn :: "future_ptr \<Rightarrow> 'a core_scheme \<Rightarrow> 'a core_scheme outcome" where
  "Runtime_spawn future_wrapper c = spawn_impl future_wrapper c"

text \<open>
  Spawning a coroutine: \<open>co\<close> is the frame of \<open>spawn_with_exception_handling\<close>, which
  the call makes and which awaits the coroutine, and \<open>wrapper\<close> the address of its future.
\<close>

definition spawn_coroutine :: "handle \<Rightarrow> future_ptr \<Rightarrow> 'a core_scheme \<Rightarrow> 'a core_scheme outcome" where
  "spawn_coroutine co wrapper c =
     and_then (get_return_object co wrapper (set_frame co \<lparr>fr_void = True, fr_future = None, fr_done = False\<rparr> (co_store c)))
       (\<lambda>st. Runtime_spawn wrapper (c\<lparr>co_store := st\<rparr>))"

definition block_on ::
  "(ready_task \<Rightarrow> 'a core_scheme \<Rightarrow> 'a core_scheme outcome) \<Rightarrow> (nat \<Rightarrow> (bool \<times> bool) \<times> (nat \<Rightarrow> world)) \<Rightarrow> thread_id
   \<Rightarrow> future_ptr \<Rightarrow> ('a core_scheme \<Rightarrow> 'v option) \<Rightarrow> 'a core_scheme \<Rightarrow> ('v \<times> 'a core_scheme) outcome option" where
  "block_on run env tid future_wrapper result c =
     option_then (Some (spawn_impl future_wrapper c)) (\<lambda>c.
     option_then (run_in_place run env None tid c) (\<lambda>c.
     Some (case result c of None \<Rightarrow> Inl Bad_optional | Some v \<Rightarrow> Inr (v, c))))"

definition block_on_void ::
  "(ready_task \<Rightarrow> 'a core_scheme \<Rightarrow> 'a core_scheme outcome) \<Rightarrow> (nat \<Rightarrow> (bool \<times> bool) \<times> (nat \<Rightarrow> world)) \<Rightarrow> thread_id
   \<Rightarrow> future_ptr \<Rightarrow> 'a core_scheme \<Rightarrow> 'a core_scheme outcome option" where
  "block_on_void run env tid future_wrapper c =
     option_then (Some (spawn_impl future_wrapper c)) (\<lambda>c. run_in_place run env None tid c)"

text \<open>The destructor of the core suspends the workers of its threads.\<close>

definition RuntimeCore_dtor :: "'a core_scheme \<Rightarrow> 'a core_scheme" where
  "RuntimeCore_dtor c = c\<lparr>co_workers := \<lambda>tid. map_option (\<lambda>wk. wk\<lparr>wk_suspend := True\<rparr>) (co_workers c tid)\<rparr>"

subsection \<open>The context of a thread\<close>

text \<open>
  \<open>RuntimeCtxImpl::core_\<close> of each thread; with one core it is whether the pointer is set. The
  functions of \<open>RuntimeCtx\<close> call the core through it.
\<close>

type_synonym ctx = "thread_id \<Rightarrow> bool"

definition set_ctx :: "bool \<Rightarrow> thread_id \<Rightarrow> ctx \<Rightarrow> ctx" where
  "set_ctx core tid ctx = ctx(tid := core)"

definition is_in_ctx :: "thread_id \<Rightarrow> ctx \<Rightarrow> bool" where
  "is_in_ctx tid ctx = ctx tid"

definition get_ctx :: "thread_id \<Rightarrow> ctx \<Rightarrow> 'a core_scheme \<Rightarrow> 'a core_scheme outcome" where
  "get_ctx tid ctx c = (if ctx tid then Inr c else Inl Null_deref)"

definition RuntimeCtx_get_ctx :: "thread_id \<Rightarrow> ctx \<Rightarrow> 'a core_scheme \<Rightarrow> 'a core_scheme outcome" where
  "RuntimeCtx_get_ctx tid ctx c = get_ctx tid ctx c"

definition RuntimeCore_driver :: "'a core_scheme \<Rightarrow> driver" where
  "RuntimeCore_driver c = co_driver c"

definition RuntimeCtx_register_future :: "thread_id \<Rightarrow> ctx \<Rightarrow> future_ptr \<Rightarrow> 'a core_scheme \<Rightarrow> 'a core_scheme outcome" where
  "RuntimeCtx_register_future tid ctx future c = and_then (get_ctx tid ctx c) (register_future future)"

definition RuntimeCtx_driver :: "thread_id \<Rightarrow> ctx \<Rightarrow> 'a core_scheme \<Rightarrow> driver outcome" where
  "RuntimeCtx_driver tid ctx c = and_then (get_ctx tid ctx c) (\<lambda>c. Inr (RuntimeCore_driver c))"

definition RuntimeCtx_wake :: "thread_id \<Rightarrow> ctx \<Rightarrow> event_ptr list \<Rightarrow> 'a core_scheme \<Rightarrow> (event_ptr list \<times> 'a core_scheme) outcome" where
  "RuntimeCtx_wake tid ctx events c = and_then (get_ctx tid ctx c) (wake events)"

definition RuntimeCtx_wake_local :: "thread_id \<Rightarrow> ctx \<Rightarrow> event_ptr list \<Rightarrow> 'a core_scheme \<Rightarrow> (event_ptr list \<times> 'a core_scheme) outcome" where
  "RuntimeCtx_wake_local tid ctx events c = and_then (get_ctx tid ctx c) (wake_local tid events)"

subsection \<open>The builder\<close>

record builder =
  bu_worker_num :: "16 word"
  bu_initializers :: "(registry_class \<times> nat) list"

definition new_multi_thread :: builder where
  "new_multi_thread = \<lparr>bu_worker_num = 0, bu_initializers = []\<rparr>"

definition worker_threads :: "16 word \<Rightarrow> builder \<Rightarrow> builder" where
  "worker_threads val b = b\<lparr>bu_worker_num := val\<rparr>"

definition registry :: "registry_class \<Rightarrow> nat \<Rightarrow> builder \<Rightarrow> builder" where
  "registry cls n b = b\<lparr>bu_initializers := bu_initializers b @ [(cls, n)]\<rparr>"

text \<open>
  The constructor of the core on the thread \<open>tid\<close>: the driver learns the thread, then a worker is
  made for each of \<open>threads\<close>, the ids the system gives.
\<close>

definition RuntimeCore :: "world \<Rightarrow> thread_id \<Rightarrow> thread_id list \<Rightarrow> (registry_class \<times> nat) list \<Rightarrow> heap \<Rightarrow> store \<Rightarrow> core outcome" where
  "RuntimeCore w tid threads registry_initializers h st =
     and_then (add_thread w tid (Driver registry_initializers)) (\<lambda>d.
     Inr \<lparr>co_handles = [], co_in_place = Worker,
          co_workers = (\<lambda>t. if t \<in> set threads then Some Worker else None),
          co_driver = d, co_heap = h, co_store = st\<rparr>)"

definition Runtime :: "world \<Rightarrow> thread_id \<Rightarrow> thread_id list \<Rightarrow> (registry_class \<times> nat) list \<Rightarrow> 16 word \<Rightarrow> heap \<Rightarrow> store \<Rightarrow> core outcome" where
  "Runtime w tid threads registry_initializers worker_num h st =
     RuntimeCore w tid (take (unat worker_num) threads) registry_initializers h st"

definition build :: "world \<Rightarrow> thread_id \<Rightarrow> thread_id list \<Rightarrow> builder \<Rightarrow> heap \<Rightarrow> store \<Rightarrow> core outcome" where
  "build w tid threads b h st =
     Runtime w tid threads (bu_initializers b) (bu_worker_num b) h st"

section \<open>The launch of the workers\<close>

text \<open>
  \<open>init_in_thread\<close> of the worker threads as a transition system: each thread arrives, adds
  itself to the driver and counts itself under the mutex; the last one lets all waiting threads
  go. Waiting on the condition variable may also end spuriously.
\<close>

datatype launch_pc = Not_arrived | Cv_wait | Launched

record launch =
  la_worker_num :: "16 word"
  la_init_num :: int
  la_pc :: "launch_pc list"

definition init_in_thread :: "nat \<Rightarrow> launch \<Rightarrow> launch" where
  "init_in_thread i l =
     (let l = l\<lparr>la_init_num := la_init_num l + 1\<rparr>
      in if la_init_num l = uint (la_worker_num l)
         then l\<lparr>la_pc := (map (\<lambda>pc. if pc = Cv_wait then Launched else pc) (la_pc l))[i := Launched]\<rparr>
         else l\<lparr>la_pc := (la_pc l)[i := Cv_wait]\<rparr>)"

inductive launch_step :: "bool \<Rightarrow> launch \<Rightarrow> launch \<Rightarrow> bool" for spurious where
  arrive: "i < length (la_pc l) \<Longrightarrow> la_pc l ! i = Not_arrived \<Longrightarrow> launch_step spurious l (init_in_thread i l)"
| wake_up: "spurious \<Longrightarrow> i < length (la_pc l) \<Longrightarrow> la_pc l ! i = Cv_wait \<Longrightarrow>
    launch_step spurious l (l\<lparr>la_pc := (la_pc l)[i := Launched]\<rparr>)"

inductive launch_reach :: "bool \<Rightarrow> 16 word \<Rightarrow> launch \<Rightarrow> bool" for spurious n where
  launch_start: "launch_reach spurious n \<lparr>la_worker_num = n, la_init_num = 0, la_pc = replicate (unat n) Not_arrived\<rparr>"
| launch_next: "launch_reach spurious n l \<Longrightarrow> launch_step spurious l l' \<Longrightarrow> launch_reach spurious n l'"

end
