(* ===== verification/Net_Socket.thy ===== *)
theory Net_Socket
  imports Xyco_Error
begin

text \<open>
  Socket addresses and sockets (\<open>src/net/socket.cc\<close>, \<open>include/xyco/net/socket.ccm\<close>). Port
  numbers are 16-bit words; \<open>htons\<close>, \<open>ntohs\<close> and \<open>htonl\<close> of the C library swap bytes, as they
  do on the little-endian hosts the library is built for. \<open>inet_pton\<close> is an argument: the
  address it stores, or None when it stores nothing. A \<open>Socket\<close> is an object that owns a file
  descriptor; the open descriptors of the process are part of the state.
\<close>

unbundle bit_operations_syntax

section \<open>Addresses\<close>

definition htons :: "16 word \<Rightarrow> 16 word" where
  "htons x = push_bit 8 x OR drop_bit 8 x"

definition ntohs :: "16 word \<Rightarrow> 16 word" where
  "ntohs x = push_bit 8 x OR drop_bit 8 x"

definition htonl :: "32 word \<Rightarrow> 32 word" where
  "htonl x = push_bit 24 x OR (push_bit 8 x AND 0xFF0000) OR (drop_bit 8 x AND 0xFF00) OR drop_bit 24 x"

abbreviation (input) K_AF_INET :: "16 word" where "K_AF_INET \<equiv> 2"
abbreviation (input) K_AF_INET6 :: "16 word" where "K_AF_INET6 \<equiv> 10"
abbreviation (input) K_INADDR_ANY :: "32 word" where "K_INADDR_ANY \<equiv> 0"

record sockaddr_in =
  sin_family :: "16 word"
  sin_port :: "16 word"
  sin_addr :: "32 word"

record sockaddr_in6 =
  sin6_family :: "16 word"
  sin6_port :: "16 word"
  sin6_flowinfo :: "32 word"
  sin6_addr :: "128 word"
  sin6_scope_id :: "32 word"

datatype SocketAddr = SocketAddrV4 sockaddr_in | SocketAddrV6 sockaddr_in6

definition Ipv4Addr :: "(string \<Rightarrow> 32 word option) \<Rightarrow> string option \<Rightarrow> 32 word" where
  "Ipv4Addr inet_pton addr = (case addr of
     None \<Rightarrow> htonl K_INADDR_ANY
   | Some s \<Rightarrow> (case inet_pton s of None \<Rightarrow> 0 | Some a \<Rightarrow> a))"

definition Ipv6Addr :: "(string \<Rightarrow> 128 word option) \<Rightarrow> string \<Rightarrow> 128 word" where
  "Ipv6Addr inet_pton addr = (case inet_pton addr of None \<Rightarrow> 0 | Some a \<Rightarrow> a)"

definition new_v4 :: "32 word \<Rightarrow> 16 word \<Rightarrow> SocketAddr" where
  "new_v4 ip_addr port = SocketAddrV4 \<lparr>sin_family = K_AF_INET, sin_port = htons port, sin_addr = ip_addr\<rparr>"

definition new_v6 :: "128 word \<Rightarrow> 16 word \<Rightarrow> SocketAddr" where
  "new_v6 ip_addr port = SocketAddrV6 \<lparr>sin6_family = K_AF_INET6, sin6_port = port, sin6_flowinfo = 0,
     sin6_addr = ip_addr, sin6_scope_id = 0\<rparr>"

fun get_port :: "SocketAddr \<Rightarrow> 16 word" where
  "get_port (SocketAddrV4 inner) = ntohs (sin_port inner)"
| "get_port (SocketAddrV6 inner) = sin6_port inner"

fun is_v4 :: "SocketAddr \<Rightarrow> bool" where
  "is_v4 (SocketAddrV4 _) = True"
| "is_v4 (SocketAddrV6 _) = False"

text \<open>
  \<open>into_c_addr\<close> gives the address of the structure inside; what a system call reads there is
  the family and the port, in the byte order they are stored in, and as many bytes as its length
  argument says. The structures have 16 and 28 bytes.
\<close>

fun into_c_addr :: "SocketAddr \<Rightarrow> (sockaddr_in + sockaddr_in6)" where
  "into_c_addr (SocketAddrV4 inner) = Inl inner"
| "into_c_addr (SocketAddrV6 inner) = Inr inner"

fun sizeof_c_addr :: "(sockaddr_in + sockaddr_in6) \<Rightarrow> nat" where
  "sizeof_c_addr (Inl _) = 16"
| "sizeof_c_addr (Inr _) = 28"

abbreviation (input) sizeof_sockaddr :: nat where "sizeof_sockaddr \<equiv> 16"

lemma swap_swap: "push_bit 8 (push_bit 8 x OR drop_bit 8 x) OR drop_bit 8 (push_bit 8 x OR drop_bit 8 x) = x"
  for x :: "16 word"
proof (rule bit_word_eqI)
  fix n
  assume n: "n < LENGTH(16)"
  then show "bit (push_bit 8 (push_bit 8 x OR drop_bit 8 x) OR drop_bit 8 (push_bit 8 x OR drop_bit 8 x)) n = bit x n"
    by (cases "n < 8") (auto simp: bit_simps dest: bit_imp_le_length)
qed

lemma ntohs_htons [simp]: "ntohs (htons x) = x"
  unfolding ntohs_def htons_def by (rule swap_swap)

section \<open>Sockets\<close>

text \<open>The \<open>Socket\<close> objects by address, with the descriptor each holds, and the open descriptors.\<close>

record sockets =
  sk_fd :: "nat \<Rightarrow> int option"
  sk_open :: "int set"

definition Socket :: "nat \<Rightarrow> int \<Rightarrow> sockets \<Rightarrow> sockets" where
  "Socket this file_descriptor s = s\<lparr>sk_fd := (sk_fd s)(this \<mapsto> file_descriptor)\<rparr>"

definition into_c_fd :: "nat \<Rightarrow> sockets \<Rightarrow> int outcome" where
  "into_c_fd this s = (case sk_fd s this of None \<Rightarrow> Inl Null_deref | Some fd \<Rightarrow> Inr fd)"

definition Socket_move_ctor :: "nat \<Rightarrow> nat \<Rightarrow> sockets \<Rightarrow> sockets outcome" where
  "Socket_move_ctor this socket s = and_then (into_c_fd socket s) (\<lambda>fd.
     Inr (s\<lparr>sk_fd := (sk_fd s)(this \<mapsto> fd, socket \<mapsto> -1)\<rparr>))"

definition Socket_move_assign :: "nat \<Rightarrow> nat \<Rightarrow> sockets \<Rightarrow> sockets outcome" where
  "Socket_move_assign this socket s = and_then (into_c_fd this s) (\<lambda>_.
     and_then (into_c_fd socket s) (\<lambda>fd.
     Inr (s\<lparr>sk_fd := (sk_fd s)(this \<mapsto> fd, socket \<mapsto> -1)\<rparr>)))"

text \<open>\<open>close\<close> fails on a descriptor that is not open, and the error is dereferenced.\<close>

definition Socket_dtor :: "nat \<Rightarrow> sockets \<Rightarrow> sockets outcome" where
  "Socket_dtor this s = and_then (into_c_fd this s) (\<lambda>fd.
     let gone = s\<lparr>sk_fd := (sk_fd s)(this := None)\<rparr>
     in if fd \<noteq> -1
        then (if fd \<in> sk_open s then Inr (gone\<lparr>sk_open := sk_open s - {fd}\<rparr>) else Inl Bad_expected)
        else Inr gone)"

text \<open>
  A run of a program that opens descriptors, gives each to a new socket, moves and destroys
  sockets. Assignments are to sockets that hold no descriptor.
\<close>

inductive sockets_reach :: "sockets \<Rightarrow> bool" where
  sk_start: "sockets_reach \<lparr>sk_fd = \<lambda>_. None, sk_open = {}\<rparr>"
| sk_new: "sockets_reach s \<Longrightarrow> sk_fd s p = None \<Longrightarrow> fd \<notin> sk_open s \<Longrightarrow> 0 \<le> fd \<Longrightarrow>
    sockets_reach (Socket p fd (s\<lparr>sk_open := insert fd (sk_open s)\<rparr>))"
| sk_move: "sockets_reach s \<Longrightarrow> sk_fd s p = None \<Longrightarrow> Socket_move_ctor p q s = Inr s' \<Longrightarrow> sockets_reach s'"
| sk_assign: "sockets_reach s \<Longrightarrow> sk_fd s p = Some (-1) \<Longrightarrow> p \<noteq> q \<Longrightarrow> Socket_move_assign p q s = Inr s' \<Longrightarrow>
    sockets_reach s'"
| sk_drop: "sockets_reach s \<Longrightarrow> Socket_dtor p s = Inr s' \<Longrightarrow> sockets_reach s'"

text \<open>The descriptor a socket owns; \<open>-1\<close> stands for none.\<close>

definition owns :: "sockets \<Rightarrow> nat \<Rightarrow> int option" where
  "owns s p = (case sk_fd s p of None \<Rightarrow> None | Some fd \<Rightarrow> if fd = -1 then None else Some fd)"

text \<open>Every open descriptor has exactly one owner, and every descriptor owned is open.\<close>

definition owned_once :: "sockets \<Rightarrow> bool" where
  "owned_once s \<longleftrightarrow> (\<forall>fd. fd \<in> sk_open s \<longleftrightarrow> (\<exists>p. owns s p = Some fd))
     \<and> (\<forall>p q fd. owns s p = Some fd \<and> owns s q = Some fd \<longrightarrow> p = q)"

lemma owned_once_move:
  assumes "owned_once s" "owns s p = None" "p \<noteq> q" "owns s' = (owns s)(p := owns s q, q := None)" "sk_open s' = sk_open s"
  shows "owned_once s'"
proof -
  have "(\<exists>r. owns s' r = Some fd) \<longleftrightarrow> (\<exists>r. owns s r = Some fd)" for fd
  proof
    assume "\<exists>r. owns s' r = Some fd"
    then show "\<exists>r. owns s r = Some fd" using assms(3,4) by (auto split: if_splits)
  next
    assume "\<exists>r. owns s r = Some fd"
    then obtain r where r: "owns s r = Some fd" by blast
    then have "owns s' (if r = q then p else r) = Some fd" using assms(2-4) by auto
    then show "\<exists>r. owns s' r = Some fd" by blast
  qed
  moreover have "r = t" if "owns s' r = Some fd" "owns s' t = Some fd" for r t fd
    using that assms(1-4) unfolding owned_once_def by (auto split: if_splits)
  ultimately show ?thesis using assms(1,5) unfolding owned_once_def by simp
qed

lemma owned_once_add:
  assumes "owned_once s" "owns s p = None" "fd \<notin> sk_open s" "owns s' = (owns s)(p := Some fd)" "sk_open s' = insert fd (sk_open s)"
  shows "owned_once s'"
proof -
  have none: "owns s q \<noteq> Some fd" for q using assms(1,3) by (auto simp: owned_once_def)
  have "(\<exists>r. owns s' r = Some f) \<longleftrightarrow> f = fd \<or> (\<exists>r. owns s r = Some f)" for f
    using assms(2,4) by (cases "f = fd") (auto, metis option.simps(3))
  moreover have "r = t" if "owns s' r = Some f" "owns s' t = Some f" for r t f
    using that assms(1,4) none unfolding owned_once_def by (auto split: if_splits)
  ultimately show ?thesis using assms(1,5) unfolding owned_once_def by simp
qed

lemma owned_once_remove:
  assumes "owned_once s" "owns s' = (owns s)(p := None)" "sk_open s' = sk_open s - set_option (owns s p)"
  shows "owned_once s'"
proof -
  have "(\<exists>r. owns s' r = Some f) \<longleftrightarrow> f \<in> sk_open s - set_option (owns s p)" for f
  proof
    assume "\<exists>r. owns s' r = Some f"
    then show "f \<in> sk_open s - set_option (owns s p)"
      using assms(1,2) unfolding owned_once_def by (auto split: if_splits)
  next
    assume f: "f \<in> sk_open s - set_option (owns s p)"
    then obtain r where "owns s r = Some f" using assms(1) unfolding owned_once_def by blast
    moreover from this f have "r \<noteq> p" by auto
    ultimately show "\<exists>r. owns s' r = Some f" using assms(2) by (intro exI [of _ r]) simp
  qed
  moreover have "r = t" if "owns s' r = Some f" "owns s' t = Some f" for r t f
    using that assms(1,2) unfolding owned_once_def by (auto split: if_splits)
  ultimately show ?thesis using assms(3) unfolding owned_once_def by simp
qed

definition fd_of :: "int option \<Rightarrow> int option" where
  "fd_of x = (case x of None \<Rightarrow> None | Some fd \<Rightarrow> if fd = -1 then None else Some fd)"

lemma owns_fd: "owns s = (\<lambda>p. fd_of (sk_fd s p))"
  by (simp add: owns_def fd_of_def fun_eq_iff)

lemma fd_of_upd: "(\<lambda>r. fd_of ((f(p := x)) r)) = (\<lambda>r. fd_of (f r))(p := fd_of x)"
  by (simp add: fun_eq_iff)

lemma fd_of_simps [simp]: "fd_of None = None" "fd_of (Some (-1)) = None" "fd \<noteq> -1 \<Longrightarrow> fd_of (Some fd) = Some fd"
  by (simp_all add: fd_of_def)

lemma moved_owned:
  assumes "owned_once s" "fd_of (sk_fd s p) = None" "p \<noteq> q" "sk_fd s q = Some fd"
  shows "owned_once (s\<lparr>sk_fd := (sk_fd s)(p \<mapsto> fd, q \<mapsto> -1)\<rparr>)"
  by (rule owned_once_move [OF assms(1) _ assms(3)]) (simp_all add: owns_fd fd_of_upd assms del: fun_upd_apply)

lemma sockets_reach_owned: "sockets_reach s \<Longrightarrow> owned_once s"
proof (induction rule: sockets_reach.induct)
  case sk_start
  then show ?case by (simp add: owned_once_def owns_def)
next
  case (sk_new s p fd)
  show ?case
    by (rule owned_once_add [OF sk_new.IH _ sk_new.hyps(3)])
      (use sk_new.hyps in \<open>simp_all add: owns_fd fd_of_upd Socket_def del: fun_upd_apply\<close>)
next
  case (sk_move s p q s')
  then obtain fd where q: "sk_fd s q = Some fd" "s' = s\<lparr>sk_fd := (sk_fd s)(p \<mapsto> fd, q \<mapsto> -1)\<rparr>"
    by (auto simp: Socket_move_ctor_def into_c_fd_def split: option.splits)
  moreover have "p \<noteq> q" using q(1) sk_move.hyps(2) by auto
  ultimately show ?case using moved_owned [OF sk_move.IH, of p q fd] sk_move.hyps(2) by simp
next
  case (sk_assign s p q s')
  then obtain fd where "sk_fd s q = Some fd" "s' = s\<lparr>sk_fd := (sk_fd s)(p \<mapsto> fd, q \<mapsto> -1)\<rparr>"
    by (auto simp: Socket_move_assign_def into_c_fd_def split: option.splits)
  then show ?case using moved_owned [OF sk_assign.IH, of p q fd] sk_assign.hyps by simp
next
  case (sk_drop s p s')
  obtain fd where p: "sk_fd s p = Some fd"
    using sk_drop.hyps by (auto simp: Socket_dtor_def into_c_fd_def split: option.splits)
  show ?case
    by (rule owned_once_remove [OF sk_drop.IH, of _ p]; cases "fd = -1")
      (use sk_drop.hyps p in \<open>auto simp: owns_fd fd_of_upd Socket_dtor_def into_c_fd_def split: if_splits simp del: fun_upd_apply\<close>)
qed

end
