(* ===== verification/Net_Epoll.thy ===== *)
theory Net_Epoll
  imports Runtime_Core Net_Socket
begin

text \<open>
  TCP over epoll (\<open>src/net/epoll/listener.cc\<close>, \<open>include/xyco/net/epoll/listener.ccm\<close>). The
  \<open>poll\<close> functions of the futures act on the core: they register the stream's event with the
  epoll registry of the running thread. System calls are arguments: functions of their arguments
  where the claims depend on these, and the value they return otherwise. The coroutines are given the results of what
  they await. A result of \<open>poll\<close> is None for \<open>Pending\<close>. Sockets are descriptors; \<open>-1\<close> is the
  moved-from one.
\<close>

abbreviation (input) EINPROGRESS :: int where "EINPROGRESS \<equiv> 115"

record tcp =
  tcp_fd :: int
  tcp_event :: event_ptr

definition epoll_extra_at :: "event_ptr \<Rightarrow> 'a core_scheme \<Rightarrow> epoll_extra outcome" where
  "epoll_extra_at e c = (case as_epoll (ev_extra (co_heap c e)) of None \<Rightarrow> Inl Null_deref | Some x \<Rightarrow> Inr x)"

definition put_extra :: "event_ptr \<Rightarrow> extra \<Rightarrow> 'a core_scheme \<Rightarrow> 'a core_scheme" where
  "put_extra e x c = c\<lparr>co_heap := set_extra e x (co_heap c)\<rparr>"

definition put_future :: "event_ptr \<Rightarrow> future_ptr option \<Rightarrow> 'a core_scheme \<Rightarrow> 'a core_scheme" where
  "put_future e f c = c\<lparr>co_heap := set_future e f (co_heap c)\<rparr>"

section \<open>TcpStream\<close>

definition epoll_TcpStream :: "event_ptr \<Rightarrow> int \<Rightarrow> bool \<Rightarrow> bool \<Rightarrow> 'a core_scheme \<Rightarrow> tcp \<times> 'a core_scheme" where
  "epoll_TcpStream e fd writable readable c =
     (let extra = epoll_IoExtra Interest_All fd;
          state = ep_state extra;
          state = (if writable then set_field Writable True state else state);
          state = (if readable then set_field Readable True state else state)
      in (\<lparr>tcp_fd = fd, tcp_event = e\<rparr>,
          c\<lparr>co_heap := (co_heap c)(e := \<lparr>ev_future = None, ev_extra = Some (EpollExtra (extra\<lparr>ep_state := state\<rparr>))\<rparr>)\<rparr>))"

text \<open>\<open>read\<close> gives the return value of the system call and \<open>errno\<close>.\<close>

definition epoll_read_poll ::
  "world \<Rightarrow> thread_id \<Rightarrow> (int \<Rightarrow> int \<times> int) \<Rightarrow> future_ptr \<Rightarrow> tcp \<Rightarrow> 'a core_scheme \<Rightarrow> (int result poll \<times> 'a core_scheme) outcome" where
  "epoll_read_poll w tid read this self c =
     (let e = tcp_event self in
      and_then (epoll_extra_at e c) (\<lambda>extra.
      if \<not> get_field Registered (ep_state extra)
      then and_then (Driver_Register w tid Epoll_class e
             (put_extra e (EpollExtra (extra\<lparr>ep_interest := Interest_Read\<rparr>)) (put_future e (Some this) c)))
             (\<lambda>c. Inr (None, c))
      else
        let (read_bytes, errno) = read (tcp_fd self);
            tried = get_field Error (ep_state extra) \<or> get_field Readable (ep_state extra)
        in if tried \<and> read_bytes \<noteq> -1
           then Inr (Some (Inr read_bytes),
                     put_extra e (EpollExtra (extra\<lparr>ep_state := set_field Readable False (ep_state extra)\<rparr>)) c)
           else if tried \<and> errno \<noteq> EAGAIN
           then Inr (Some (Inl (from_sys_error errno)), c)
           else and_then (Driver_reregister w tid Epoll_class e
                  (put_extra e (EpollExtra (extra\<lparr>ep_interest := Interest_Read\<rparr>)) (put_future e (Some this) c)))
                  (\<lambda>c. Inr (None, c))))"

definition epoll_write_poll ::
  "world \<Rightarrow> thread_id \<Rightarrow> (int \<Rightarrow> int \<times> int) \<Rightarrow> future_ptr \<Rightarrow> tcp \<Rightarrow> 'a core_scheme \<Rightarrow> (int result poll \<times> 'a core_scheme) outcome" where
  "epoll_write_poll w tid write this self c =
     (let e = tcp_event self in
      and_then (epoll_extra_at e c) (\<lambda>extra.
      if \<not> get_field Registered (ep_state extra)
      then and_then (Driver_Register w tid Epoll_class e
             (put_extra e (EpollExtra (extra\<lparr>ep_interest := Interest_Write\<rparr>)) (put_future e (Some this) c)))
             (\<lambda>c. Inr (None, c))
      else if get_field Error (ep_state extra) \<or> get_field Writable (ep_state extra)
      then (let (write_bytes, errno) = write (tcp_fd self)
            in Inr (Some (into_sys_result errno write_bytes), c))
      else and_then (Driver_reregister w tid Epoll_class e
             (put_extra e (EpollExtra (extra\<lparr>ep_interest := Interest_Write\<rparr>)) (put_future e (Some this) c)))
             (\<lambda>c. Inr (None, c))))"

text \<open>The destructor of the two futures and of that of \<open>accept\<close>.\<close>

definition epoll_future_dtor :: "tcp \<Rightarrow> 'a core_scheme \<Rightarrow> 'a core_scheme" where
  "epoll_future_dtor self c = put_future (tcp_event self) None c"

definition epoll_flush :: "unit result" where
  "epoll_flush = Inr ()"

definition epoll_shutdown :: "(int \<Rightarrow> int \<Rightarrow> int \<times> int) \<Rightarrow> Shutdown \<Rightarrow> tcp \<Rightarrow> unit result" where
  "epoll_shutdown sys_shutdown shutdown self =
     (let (ret, errno) = sys_shutdown (tcp_fd self) (case shutdown of Shutdown_Read \<Rightarrow> 0 | Shutdown_Write \<Rightarrow> 1 | Shutdown_All \<Rightarrow> 2)
      in ASYNC_TRY (map_sum id (\<lambda>_. ()) (into_sys_result errno ret)) (\<lambda>_. Inr ()))"

definition epoll_TcpStream_dtor :: "world \<Rightarrow> thread_id \<Rightarrow> tcp \<Rightarrow> 'a core_scheme \<Rightarrow> 'a core_scheme outcome" where
  "epoll_TcpStream_dtor w tid self c =
     (if tcp_fd self = -1 then Inr c
      else and_then (epoll_extra_at (tcp_event self) c) (\<lambda>extra.
           if get_field Registered (ep_state extra) then Driver_deregister w tid Epoll_class (tcp_event self) c
           else Inr c))"

section \<open>TcpSocket\<close>

abbreviation (input) SOCK_STREAM :: int where "SOCK_STREAM \<equiv> 1"
abbreviation (input) SOCK_NONBLOCK :: int where "SOCK_NONBLOCK \<equiv> 0x800"
abbreviation (input) SO_REUSEADDR :: int where "SO_REUSEADDR \<equiv> 2"
abbreviation (input) SO_REUSEPORT :: int where "SO_REUSEPORT \<equiv> 15"

text \<open>\<open>socket domain type\<close> gives the return value and \<open>errno\<close>.\<close>

definition epoll_new_v4 :: "(int \<Rightarrow> int \<Rightarrow> int \<times> int) \<Rightarrow> int result" where
  "epoll_new_v4 socket = (let (ret, errno) = socket 2 (SOCK_STREAM + SOCK_NONBLOCK) in into_sys_result errno ret)"

definition epoll_new_v6 :: "(int \<Rightarrow> int \<Rightarrow> int \<times> int) \<Rightarrow> int result" where
  "epoll_new_v6 socket = (let (ret, errno) = socket 10 (SOCK_STREAM + SOCK_NONBLOCK) in into_sys_result errno ret)"

definition to_void :: "int result \<Rightarrow> unit result" where
  "to_void r = map_sum id (\<lambda>_. ()) r"

definition epoll_set_reuseaddr :: "(int \<Rightarrow> int \<Rightarrow> int \<Rightarrow> int \<times> int) \<Rightarrow> bool \<Rightarrow> int \<Rightarrow> unit result" where
  "epoll_set_reuseaddr setsockopt reuseaddr fd =
     (let (ret, errno) = setsockopt fd SO_REUSEADDR (of_bool reuseaddr) in to_void (into_sys_result errno ret))"

definition epoll_set_reuseport :: "(int \<Rightarrow> int \<Rightarrow> int \<Rightarrow> int \<times> int) \<Rightarrow> bool \<Rightarrow> int \<Rightarrow> unit result" where
  "epoll_set_reuseport setsockopt reuseport fd =
     (let (ret, errno) = setsockopt fd SO_REUSEPORT (of_bool reuseport) in to_void (into_sys_result errno ret))"

text \<open>\<open>bind fd addr len\<close>.\<close>

definition epoll_bind :: "(int \<Rightarrow> (sockaddr_in + sockaddr_in6) \<Rightarrow> nat \<Rightarrow> int \<times> int) \<Rightarrow> int \<Rightarrow> SocketAddr \<Rightarrow> unit result" where
  "epoll_bind sys_bind fd addr =
     (let (ret, errno) = sys_bind fd (into_c_addr addr) sizeof_sockaddr in to_void (into_sys_result errno ret))"

text \<open>The listener that \<open>listen\<close> returns, and the socket left behind.\<close>

definition epoll_TcpListener :: "event_ptr \<Rightarrow> int \<Rightarrow> 'a core_scheme \<Rightarrow> tcp \<times> 'a core_scheme" where
  "epoll_TcpListener e fd c =
     (\<lparr>tcp_fd = fd, tcp_event = e\<rparr>,
      c\<lparr>co_heap := (co_heap c)(e := \<lparr>ev_future = None, ev_extra = Some (EpollExtra (epoll_IoExtra Interest_Read fd))\<rparr>)\<rparr>)"

definition epoll_listen ::
  "(int \<Rightarrow> int \<Rightarrow> int \<times> int) \<Rightarrow> event_ptr \<Rightarrow> int \<Rightarrow> int \<Rightarrow> 'a core_scheme \<Rightarrow> tcp result \<times> int \<times> 'a core_scheme" where
  "epoll_listen sys_listen e backlog fd c =
     (let (ret, errno) = sys_listen fd backlog
      in case into_sys_result errno ret of
           Inl err \<Rightarrow> (Inl err, fd, c)
         | Inr _ \<Rightarrow> (let (l, c) = epoll_TcpListener e fd c in (Inr l, -1, c)))"

text \<open>
  The future of \<open>connect\<close>: \<open>so_error\<close> is what \<open>getsockopt\<close> stores, \<open>e\<close> the event of the
  future and \<open>e'\<close> that of the stream it makes. The result has the descriptor left in the socket.
\<close>

definition epoll_connect_poll ::
  "world \<Rightarrow> thread_id \<Rightarrow> int \<Rightarrow> (int \<Rightarrow> string) \<Rightarrow> event_ptr \<Rightarrow> event_ptr \<Rightarrow> future_ptr \<Rightarrow> int \<Rightarrow> 'a core_scheme
   \<Rightarrow> (tcp result poll \<times> int \<times> 'a core_scheme) outcome" where
  "epoll_connect_poll w tid so_error strerror e e' this fd c =
     and_then (epoll_extra_at e c) (\<lambda>extra.
     if get_field Error (ep_state extra) \<or> get_field Writable (ep_state extra)
     then (if so_error \<noteq> 0
           then and_then (Driver_deregister w tid Epoll_class e c) (\<lambda>c.
                Inr (Some (Inl \<lparr>err_no = so_error, err_info = strerror so_error\<rparr>), fd, c))
           else and_then (Driver_deregister w tid Epoll_class e c) (\<lambda>c.
                let (s, c) = epoll_TcpStream e' fd (get_field Writable (ep_state extra)) (get_field Readable (ep_state extra)) c
                in Inr (Some (Inr s), -1, c)))
     else and_then (Driver_Register w tid Epoll_class e (put_future e (Some this) c)) (\<lambda>c. Inr (None, fd, c)))"

text \<open>
  \<open>TcpSocket::connect\<close>: \<open>sys_connect\<close> is the system call the blocking task makes, \<open>wait\<close>
  the result and effect of awaiting the future above.
\<close>

definition epoll_connect ::
  "(int \<Rightarrow> (sockaddr_in + sockaddr_in6) \<Rightarrow> nat \<Rightarrow> int \<times> int) \<Rightarrow> (int \<Rightarrow> 'a core_scheme \<Rightarrow> tcp result \<times> int \<times> 'a core_scheme)
   \<Rightarrow> event_ptr \<Rightarrow> int \<Rightarrow> SocketAddr \<Rightarrow> 'a core_scheme \<Rightarrow> tcp result \<times> int \<times> 'a core_scheme" where
  "epoll_connect sys_connect wait e fd addr c =
     (let (ret, errno) = sys_connect fd (into_c_addr addr) sizeof_sockaddr
      in case into_sys_result errno ret of
           Inr _ \<Rightarrow> (let (s, c) = epoll_TcpStream e fd True False c in (Inr s, -1, c))
         | Inl err \<Rightarrow>
             if err_no err \<noteq> EINPROGRESS \<and> err_no err \<noteq> EAGAIN
             then (Inl \<lparr>err_no = err_no err, err_info = []\<rparr>, fd, c)
             else wait fd c)"

text \<open>\<open>TcpStream::connect\<close>; the socket object goes away at the end, with the descriptor it has left.\<close>

definition epoll_stream_connect ::
  "(int \<Rightarrow> int \<Rightarrow> int \<times> int) \<Rightarrow> (int \<Rightarrow> (sockaddr_in + sockaddr_in6) \<Rightarrow> nat \<Rightarrow> int \<times> int)
   \<Rightarrow> (int \<Rightarrow> 'a core_scheme \<Rightarrow> tcp result \<times> int \<times> 'a core_scheme) \<Rightarrow> event_ptr \<Rightarrow> SocketAddr \<Rightarrow> 'a core_scheme
   \<Rightarrow> tcp result \<times> int option \<times> 'a core_scheme" where
  "epoll_stream_connect socket sys_connect wait e addr c =
     (case (if is_v4 addr then epoll_new_v4 socket else epoll_new_v6 socket) of
        Inl err \<Rightarrow> (Inl err, None, c)
      | Inr fd \<Rightarrow> (let (r, left, c) = epoll_connect sys_connect wait e fd addr c in (r, Some left, c)))"

section \<open>TcpListener\<close>

definition epoll_listener_bind ::
  "(int \<Rightarrow> int \<Rightarrow> int \<times> int) \<Rightarrow> (int \<Rightarrow> (sockaddr_in + sockaddr_in6) \<Rightarrow> nat \<Rightarrow> int \<times> int) \<Rightarrow> (int \<Rightarrow> int \<Rightarrow> int \<times> int)
   \<Rightarrow> event_ptr \<Rightarrow> SocketAddr \<Rightarrow> 'a core_scheme \<Rightarrow> tcp result \<times> int option \<times> 'a core_scheme" where
  "epoll_listener_bind socket sys_bind sys_listen e addr c =
     (case epoll_new_v4 socket of
        Inl err \<Rightarrow> (Inl err, None, c)
      | Inr fd \<Rightarrow> (case epoll_bind sys_bind fd addr of
          Inl err \<Rightarrow> (Inl err, Some fd, c)
        | Inr _ \<Rightarrow> (let (r, left, c) = epoll_listen sys_listen e 128 fd c in (r, Some left, c))))"

text \<open>
  \<open>accept4\<close> gives the return value, \<open>errno\<close> and the peer's address as stored; \<open>pton_ntop\<close> is
  what printing and parsing an address gives; \<open>e'\<close> is the event of the new stream.
\<close>

record accept_result =
  ac_return :: int
  ac_errno :: int
  ac_addr :: sockaddr_in

definition epoll_accept_poll ::
  "world \<Rightarrow> thread_id \<Rightarrow> (int \<Rightarrow> accept_result) \<Rightarrow> (32 word \<Rightarrow> 32 word) \<Rightarrow> event_ptr \<Rightarrow> future_ptr \<Rightarrow> tcp \<Rightarrow> 'a core_scheme
   \<Rightarrow> ((tcp \<times> SocketAddr) result poll \<times> 'a core_scheme) outcome" where
  "epoll_accept_poll w tid accept4 pton_ntop e' this self c =
     (let e = tcp_event self in
      and_then (epoll_extra_at e c) (\<lambda>extra.
      if \<not> get_field Registered (ep_state extra)
      then and_then (Driver_Register w tid Epoll_class e (put_future e (Some this) c)) (\<lambda>c. Inr (None, c))
      else if get_field Error (ep_state extra)
      then Inr (Some (Inl \<lparr>err_no = 1, err_info = ''epoll state error''\<rparr>), c)
      else if get_field Readable (ep_state extra)
      then (let ac = accept4 (tcp_fd self)
            in case into_sys_result (ac_errno ac) (ac_return ac) of
                 Inl err \<Rightarrow>
                   if err_no err = EAGAIN
                   then and_then (Driver_reregister w tid Epoll_class e (put_future e (Some this) c)) (\<lambda>c. Inr (None, c))
                   else Inr (Some (Inl err), c)
               | Inr fd \<Rightarrow>
                   (let sock_addr = new_v4 (pton_ntop (sin_addr (ac_addr ac))) (sin_port (ac_addr ac));
                        (s, c) = epoll_TcpStream e' fd False False c
                    in Inr (Some (Inr (s, sock_addr)), c)))
      else Inr (None, c)))"

definition epoll_TcpListener_dtor :: "world \<Rightarrow> thread_id \<Rightarrow> tcp \<Rightarrow> 'a core_scheme \<Rightarrow> 'a core_scheme outcome" where
  "epoll_TcpListener_dtor w tid self c =
     (if tcp_fd self = -1 then Inr c
      else and_then (epoll_extra_at (tcp_event self) c) (\<lambda>extra.
           if get_field Registered (ep_state extra) then Driver_deregister w tid Epoll_class (tcp_event self) c
           else Inr c))"

end
