(* ===== verification/Net_Uring.thy ===== *)
theory Net_Uring
  imports Net_Epoll
begin

text \<open>
  TCP over io_uring (\<open>src/net/io_uring/listener.cc\<close>, \<open>include/xyco/net/io_uring/listener.ccm\<close>).
  Every \<open>poll\<close> asks the registry for one operation and, polled again after its completion, turns
  the result into a value or an error. Conventions are those of the epoll theory.
\<close>

definition uring_extra_at :: "event_ptr \<Rightarrow> 'a core_scheme \<Rightarrow> uring_extra outcome" where
  "uring_extra_at e c = (case as_uring (ev_extra (co_heap c e)) of None \<Rightarrow> Inl Null_deref | Some x \<Rightarrow> Inr x)"

text \<open>A default-made \<open>IoExtra\<close>: the variant holds its first alternative.\<close>

definition uring_IoExtra :: uring_extra where
  "uring_IoExtra = \<lparr>ur_args = Args_Read 0 0 0, ur_fd = 0, ur_return = 0, ur_state = 0\<rparr>"

text \<open>
  What the \<open>poll\<close> functions share: an operation that has not completed is asked for, with the future
  as the event's waiter and the extra updated by \<open>args\<close>; a completed one is taken, giving the
  result to \<open>finish\<close>.
\<close>

definition uring_poll ::
  "world \<Rightarrow> thread_id \<Rightarrow> (uring_extra \<Rightarrow> uring_extra) \<Rightarrow> (int \<Rightarrow> 'a core_scheme \<Rightarrow> 'v \<times> 'a core_scheme) \<Rightarrow> future_ptr \<Rightarrow> event_ptr
   \<Rightarrow> 'a core_scheme \<Rightarrow> ('v poll \<times> 'a core_scheme) outcome" where
  "uring_poll w tid args finish this e c =
     and_then (uring_extra_at e c) (\<lambda>extra.
     if \<not> get_field Completed (ur_state extra)
     then and_then (Driver_Register w tid Uring_class e (put_extra e (UringExtra (args extra)) (put_future e (Some this) c)))
            (\<lambda>c. Inr (None, c))
     else (let (v, c) = finish (ur_return extra)
                 (put_extra e (UringExtra (extra\<lparr>ur_state := set_field Completed False (ur_state extra)\<rparr>)) c)
           in Inr (Some v, c)))"

section \<open>TcpStream\<close>

definition uring_TcpStream :: "event_ptr \<Rightarrow> int \<Rightarrow> 'a core_scheme \<Rightarrow> tcp \<times> 'a core_scheme" where
  "uring_TcpStream e fd c =
     (\<lparr>tcp_fd = fd, tcp_event = e\<rparr>,
      c\<lparr>co_heap := (co_heap c)(e := \<lparr>ev_future = None, ev_extra = Some (UringExtra (uring_IoExtra\<lparr>ur_fd := fd\<rparr>))\<rparr>)\<rparr>)"

definition uring_bytes :: "int \<Rightarrow> int result" where
  "uring_bytes ret = (if ret \<ge> 0 then Inr ret else Inl \<lparr>err_no = - ret, err_info = []\<rparr>)"

definition uring_read_poll ::
  "world \<Rightarrow> thread_id \<Rightarrow> nat \<Rightarrow> nat \<Rightarrow> future_ptr \<Rightarrow> tcp \<Rightarrow> 'a core_scheme \<Rightarrow> (int result poll \<times> 'a core_scheme) outcome" where
  "uring_read_poll w tid buf len this self =
     uring_poll w tid (\<lambda>x. x\<lparr>ur_args := Args_Read buf (of_nat len) 0\<rparr>) (\<lambda>ret c. (uring_bytes ret, c)) this (tcp_event self)"

definition uring_write_poll ::
  "world \<Rightarrow> thread_id \<Rightarrow> nat \<Rightarrow> nat \<Rightarrow> future_ptr \<Rightarrow> tcp \<Rightarrow> 'a core_scheme \<Rightarrow> (int result poll \<times> 'a core_scheme) outcome" where
  "uring_write_poll w tid buf len this self =
     uring_poll w tid (\<lambda>x. x\<lparr>ur_args := Args_Write buf (of_nat len) 0\<rparr>) (\<lambda>ret c. (uring_bytes ret, c)) this (tcp_event self)"

definition uring_future_dtor :: "tcp \<Rightarrow> 'a core_scheme \<Rightarrow> 'a core_scheme" where
  "uring_future_dtor self c = put_future (tcp_event self) None c"

definition uring_flush :: "unit result" where
  "uring_flush = Inr ()"

definition uring_status :: "int \<Rightarrow> unit result" where
  "uring_status ret = (if ret < 0 then Inl \<lparr>err_no = - ret, err_info = []\<rparr> else Inr ())"

definition uring_shutdown_poll ::
  "world \<Rightarrow> thread_id \<Rightarrow> Shutdown \<Rightarrow> future_ptr \<Rightarrow> tcp \<Rightarrow> 'a core_scheme \<Rightarrow> (unit result poll \<times> 'a core_scheme) outcome" where
  "uring_shutdown_poll w tid shutdown this self =
     uring_poll w tid (\<lambda>x. x\<lparr>ur_args := Args_Shutdown shutdown, ur_fd := tcp_fd self\<rparr>) (\<lambda>ret c. (uring_status ret, c))
       this (tcp_event self)"

text \<open>\<open>TcpStream::shutdown\<close> after its future is done: the event is unbound.\<close>

definition uring_shutdown :: "unit result \<Rightarrow> tcp \<Rightarrow> 'a core_scheme \<Rightarrow> unit result \<times> 'a core_scheme" where
  "uring_shutdown result self c = (result, put_future (tcp_event self) None c)"

section \<open>TcpSocket\<close>

definition uring_new_v4 :: "(int \<Rightarrow> int \<Rightarrow> int \<times> int) \<Rightarrow> int result" where
  "uring_new_v4 socket = (let (ret, errno) = socket 2 SOCK_STREAM in into_sys_result errno ret)"

definition uring_new_v6 :: "(int \<Rightarrow> int \<Rightarrow> int \<times> int) \<Rightarrow> int result" where
  "uring_new_v6 socket = (let (ret, errno) = socket 10 SOCK_STREAM in into_sys_result errno ret)"

definition uring_set_reuseaddr :: "(int \<Rightarrow> int \<Rightarrow> int \<Rightarrow> int \<times> int) \<Rightarrow> bool \<Rightarrow> int \<Rightarrow> unit result" where
  "uring_set_reuseaddr setsockopt reuseaddr fd =
     (let (ret, errno) = setsockopt fd SO_REUSEADDR (of_bool reuseaddr) in to_void (into_sys_result errno ret))"

definition uring_set_reuseport :: "(int \<Rightarrow> int \<Rightarrow> int \<Rightarrow> int \<times> int) \<Rightarrow> bool \<Rightarrow> int \<Rightarrow> unit result" where
  "uring_set_reuseport setsockopt reuseport fd =
     (let (ret, errno) = setsockopt fd SO_REUSEPORT (of_bool reuseport) in to_void (into_sys_result errno ret))"

definition uring_bind :: "(int \<Rightarrow> (sockaddr_in + sockaddr_in6) \<Rightarrow> nat \<Rightarrow> int \<times> int) \<Rightarrow> int \<Rightarrow> SocketAddr \<Rightarrow> unit result" where
  "uring_bind sys_bind fd addr =
     (let (ret, errno) = sys_bind fd (into_c_addr addr) sizeof_sockaddr in to_void (into_sys_result errno ret))"

definition uring_TcpListener :: "event_ptr \<Rightarrow> int \<Rightarrow> 'a core_scheme \<Rightarrow> tcp \<times> 'a core_scheme" where
  "uring_TcpListener e fd c =
     (\<lparr>tcp_fd = fd, tcp_event = e\<rparr>,
      c\<lparr>co_heap := (co_heap c)(e := \<lparr>ev_future = None, ev_extra = Some (UringExtra uring_IoExtra)\<rparr>)\<rparr>)"

definition uring_listen ::
  "(int \<Rightarrow> int \<Rightarrow> int \<times> int) \<Rightarrow> event_ptr \<Rightarrow> int \<Rightarrow> int \<Rightarrow> 'a core_scheme \<Rightarrow> tcp result \<times> int \<times> 'a core_scheme" where
  "uring_listen sys_listen e backlog fd c =
     (let (ret, errno) = sys_listen fd backlog
      in case into_sys_result errno ret of
           Inl err \<Rightarrow> (Inl err, fd, c)
         | Inr _ \<Rightarrow> (let (l, c) = uring_TcpListener e fd c in (Inr l, -1, c)))"

text \<open>\<open>addr\<close> is the address of the stored socket address; the second result is the descriptor left.\<close>

definition uring_connect_poll ::
  "world \<Rightarrow> thread_id \<Rightarrow> nat \<Rightarrow> event_ptr \<Rightarrow> event_ptr \<Rightarrow> future_ptr \<Rightarrow> int \<Rightarrow> 'a core_scheme
   \<Rightarrow> ((tcp result \<times> int) poll \<times> 'a core_scheme) outcome" where
  "uring_connect_poll w tid addr e e' this fd =
     uring_poll w tid (\<lambda>x. x\<lparr>ur_args := Args_Connect addr sizeof_sockaddr, ur_fd := fd\<rparr>)
       (\<lambda>ret c. if ret < 0 then ((Inl \<lparr>err_no = - ret, err_info = []\<rparr>, fd), c)
                else let (s, c) = uring_TcpStream e' fd c in ((Inr s, -1), c)) this e"

definition uring_stream_connect ::
  "(int \<Rightarrow> int \<Rightarrow> int \<times> int) \<Rightarrow> (int \<Rightarrow> 'a core_scheme \<Rightarrow> tcp result \<times> int \<times> 'a core_scheme) \<Rightarrow> SocketAddr \<Rightarrow> 'a core_scheme
   \<Rightarrow> tcp result \<times> int option \<times> 'a core_scheme" where
  "uring_stream_connect socket wait addr c =
     (case (if is_v4 addr then uring_new_v4 socket else uring_new_v6 socket) of
        Inl err \<Rightarrow> (Inl err, None, c)
      | Inr fd \<Rightarrow> (let (r, left, c) = wait fd c in (r, Some left, c)))"

section \<open>TcpListener\<close>

definition uring_listener_bind ::
  "(int \<Rightarrow> int \<Rightarrow> int \<times> int) \<Rightarrow> (int \<Rightarrow> (sockaddr_in + sockaddr_in6) \<Rightarrow> nat \<Rightarrow> int \<times> int) \<Rightarrow> (int \<Rightarrow> int \<Rightarrow> int \<times> int)
   \<Rightarrow> event_ptr \<Rightarrow> SocketAddr \<Rightarrow> 'a core_scheme \<Rightarrow> tcp result \<times> int option \<times> 'a core_scheme" where
  "uring_listener_bind socket sys_bind sys_listen e addr c =
     (case uring_new_v4 socket of
        Inl err \<Rightarrow> (Inl err, None, c)
      | Inr fd \<Rightarrow> (case uring_bind sys_bind fd addr of
          Inl err \<Rightarrow> (Inl err, Some fd, c)
        | Inr _ \<Rightarrow> (let (r, left, c) = uring_listen sys_listen e 128 fd c in (r, Some left, c))))"

text \<open>\<open>peer\<close> is what the kernel stored in the future's \<open>addr_\<close>, at the addresses \<open>addr\<close> and \<open>addrlen\<close>.\<close>

definition uring_accept_poll ::
  "world \<Rightarrow> thread_id \<Rightarrow> nat \<Rightarrow> nat \<Rightarrow> sockaddr_in \<Rightarrow> (32 word \<Rightarrow> 32 word) \<Rightarrow> event_ptr \<Rightarrow> future_ptr \<Rightarrow> tcp \<Rightarrow> 'a core_scheme
   \<Rightarrow> ((tcp \<times> SocketAddr) result poll \<times> 'a core_scheme) outcome" where
  "uring_accept_poll w tid addr addrlen peer pton_ntop e' this self =
     uring_poll w tid (\<lambda>x. x\<lparr>ur_args := Args_Accept addr addrlen 0, ur_fd := tcp_fd self\<rparr>)
       (\<lambda>ret c. if ret < 0 then (Inl \<lparr>err_no = - ret, err_info = []\<rparr>, c)
                else let sock_addr = new_v4 (pton_ntop (sin_addr peer)) (sin_port peer);
                         (s, c) = uring_TcpStream e' ret c
                     in (Inr (s, sock_addr), c)) this (tcp_event self)"

end
