(* ===== verification/Runtime_Proofs.thy ===== *)
theory Runtime_Proofs
  imports Runtime_Core
begin

text \<open>
  Waking and polling: what \<open>wake\<close> does to a batch of events, and what one round of the driver
  does to the events of all registries of a thread. The client's lemma about one registry is proved
  in the registry contract and used through its interpretation on the registry objects.
\<close>

section \<open>Waking a batch of events\<close>

text \<open>An event is bound when it has a future and the future is alive.\<close>

definition bound :: "heap \<Rightarrow> store \<Rightarrow> event_ptr \<Rightarrow> bool" where
  "bound h st e \<longleftrightarrow> (\<exists>p f. ev_future (h e) = Some p \<and> st_futures st p = Some f)"

text \<open>The task of a bound event.\<close>

definition task_of :: "heap \<Rightarrow> store \<Rightarrow> event_ptr \<Rightarrow> ready_task" where
  "task_of h st e = (case ev_future (h e) of
     None \<Rightarrow> (None, None)
   | Some p \<Rightarrow> (case get_handle p st of Inl _ \<Rightarrow> None | Inr co \<Rightarrow> co, Some p))"

definition unbind :: "event_ptr set \<Rightarrow> heap \<Rightarrow> heap" where
  "unbind E h = (\<lambda>e. if e \<in> E then (h e)\<lparr>ev_future := None\<rparr> else h e)"

lemma unbind_simps [simp]:
  "ev_extra (unbind E h e) = ev_extra (h e)"
  "ev_future (unbind E h e) = (if e \<in> E then None else ev_future (h e))"
  "unbind {} h = h"
  by (simp_all add: unbind_def)

lemma unbind_insert: "unbind E (set_future e None h) = unbind (insert e E) h"
  by (auto simp: unbind_def set_future_def fun_eq_iff)

lemma core_swap: "c\<lparr>co_heap := h, co_handles := q\<rparr> = c\<lparr>co_handles := q, co_heap := h\<rparr>"
  by simp

lemma wake_one_bound:
  assumes "bound (co_heap c) (co_store c) e"
  shows "wake_one e c = Inr (c\<lparr>co_heap := set_future e None (co_heap c),
    co_handles := task_of (co_heap c) (co_store c) e # co_handles c\<rparr>)"
  using assms by (auto simp: bound_def wake_one_def task_of_def get_handle_def fut_at_def push_handle_def
      emplace_begin_def)

lemma wake_one_unbound: "ev_future (co_heap c e) = None \<Longrightarrow> wake_one e c = Inl Null_deref"
  by (simp add: wake_one_def)

lemma wake_all:
  assumes "distinct evs" "\<And>e. e \<in> set evs \<Longrightarrow> bound (co_heap c) (co_store c) e"
  shows "for_each wake_one evs c = Inr (c\<lparr>co_heap := unbind (set evs) (co_heap c),
    co_handles := rev (map (task_of (co_heap c) (co_store c)) evs) @ co_handles c\<rparr>)"
  using assms
proof (induction evs arbitrary: c)
  case Nil
  then show ?case by simp
next
  case (Cons e evs)
  let ?c = "c\<lparr>co_heap := set_future e None (co_heap c),
    co_handles := task_of (co_heap c) (co_store c) e # co_handles c\<rparr>"
  have e: "e \<notin> set evs" using Cons.prems(1) by simp
  have same: "set_future e None (co_heap c) a = co_heap c a" if "a \<in> set evs" for a
    using that e by (cases "a = e") simp_all
  have t: "map (task_of (set_future e None (co_heap c)) (co_store c)) evs = map (task_of (co_heap c) (co_store c)) evs"
    using same by (simp add: task_of_def)
  have "for_each wake_one evs ?c = Inr (?c\<lparr>co_heap := unbind (set evs) (co_heap ?c),
      co_handles := rev (map (task_of (co_heap ?c) (co_store ?c)) evs) @ co_handles ?c\<rparr>)"
    using Cons.prems same by (intro Cons.IH) (auto simp: bound_def)
  then show ?case
    using wake_one_bound [of c e] Cons.prems(2) by (simp add: t unbind_insert)
qed

section \<open>One registry\<close>

text \<open>
  A selected batch has no duplicates and is bound if the tracked events are, so it can be woken;
  and a registry that tracks none of the batch keeps its invariant.
\<close>

context event_registry
begin

lemma selected_batch:
  assumes "invar h s" "sel i [] (h, s) = Inr (r, evs, h', s')" "\<And>e. count (tracked s) e \<le> 1"
    "\<And>e. e \<in># tracked s \<Longrightarrow> bound h st e"
  shows "distinct evs" "tracked s = tracked s' + mset evs" "invar (unbind E h') s'"
    "\<And>e. e \<in> set evs \<Longrightarrow> bound h' st e" "task_of h' st = task_of h st"
proof -
  from sel_tracked [OF assms(1,2)] show tr: "tracked s = tracked s' + mset evs" by auto
  have "count (mset evs) e \<le> 1" for e using assms(3) [of e] tr by simp
  then show "distinct evs" by (metis count_mset_0_iff distinct_count_atmost_1 le_Suc_eq le_zero_eq One_nat_def)
  note fut = sel_future [OF assms(2)]
  show "bound h' st e" if "e \<in> set evs" for e
    using that assms(4) [of e] tr fut [of e] by (simp add: bound_def)
  show "task_of h' st = task_of h st" by (simp add: fun_eq_iff task_of_def fut)
  show "invar (unbind E h') s'"
    by (rule invar_local [OF sel_invar [OF assms(1,2)]]) simp
qed

lemma untouched:
  assumes "invar h s" "\<And>e. e \<in># tracked s \<Longrightarrow> h' e = h e"
  shows "invar (unbind E h') s"
  by (rule invar_local [OF assms(1)]) (simp add: assms(2))

end

section \<open>All registries of a thread\<close>

definition tracked_all :: "nat list \<Rightarrow> registry_obj list \<Rightarrow> event_ptr multiset" where
  "tracked_all ids objs = sum_list (map (\<lambda>i. obj_tracked (objs ! i)) ids)"

definition polled_ok :: "nat list \<Rightarrow> 'a core_scheme \<Rightarrow> bool" where
  "polled_ok ids c \<longleftrightarrow> distinct ids
     \<and> (\<forall>i \<in> set ids. i < length (dr_objects (co_driver c)) \<and> obj_invar (co_heap c) (dr_objects (co_driver c) ! i))
     \<and> (\<forall>e. count (tracked_all ids (dr_objects (co_driver c))) e \<le> 1)
     \<and> (\<forall>e \<in># tracked_all ids (dr_objects (co_driver c)). bound (co_heap c) (co_store c) e)"

lemma tracked_all_simps [simp]:
  "tracked_all [] objs = {#}"
  "tracked_all (i # ids) objs = obj_tracked (objs ! i) + tracked_all ids objs"
  by (simp_all add: tracked_all_def)

lemma count_twice:
  assumes "e \<in># A" "e \<in># B"
  shows "\<not> count (A + B) e \<le> 1"
proof -
  have "0 < count A e" "0 < count B e" using assms by simp_all
  then show ?thesis unfolding count_union by linarith
qed

lemma tracked_all_mono: "i \<in> set ids \<Longrightarrow> obj_tracked (objs ! i) \<subseteq># tracked_all ids objs"
  by (induction ids) (auto intro: subset_mset.add_increasing2 subset_mset.add_increasing)

lemma tracked_all_other:
  "i \<notin> set ids \<Longrightarrow> tracked_all ids (objs[i := R]) = tracked_all ids objs"
  by (induction ids) (auto simp: nth_list_update)

lemma tracked_all_disjoint:
  assumes "distinct ids" "i \<in> set ids" "j \<in> set ids" "i \<noteq> j" "\<And>e. count (tracked_all ids objs) e \<le> 1"
    "e \<in># obj_tracked (objs ! i)" "e \<in># obj_tracked (objs ! j)"
  shows False
proof -
  have "{#e#} \<subseteq># obj_tracked (objs ! i)" "{#e#} \<subseteq># obj_tracked (objs ! j)" using assms(6,7) by simp_all
  moreover have "obj_tracked (objs ! i) + obj_tracked (objs ! j) \<subseteq># tracked_all ids objs"
    using assms(1-4)
  proof (induction ids)
    case (Cons k ids)
    then show ?case
      using tracked_all_mono [of i ids objs] tracked_all_mono [of j ids objs]
      by (auto simp: add.commute [of "obj_tracked (objs ! i)"] intro: subset_mset.add_mono
          subset_mset.add_increasing)
  qed simp
  ultimately have "{#e#} + {#e#} \<subseteq># tracked_all ids objs"
    by (meson subset_mset.add_mono subset_mset.order_trans)
  then show False using assms(5) [of e] mset_subset_eq_count [of "{#e#} + {#e#}" _ e] by fastforce
qed

lemma tracked_all_update:
  assumes "distinct ids" "i \<in> set ids" "i < length objs" "obj_tracked (objs ! i) = obj_tracked R + M"
  shows "tracked_all ids objs = tracked_all ids (objs[i := R]) + M"
  using assms(1,2)
proof (induction ids)
  case (Cons k ids)
  then show ?case
    using assms(3,4) by (cases "k = i") (auto simp: tracked_all_other ac_simps)
qed simp

text \<open>What polling one registry, and then a list of them, does.\<close>

definition woken :: "event_ptr list \<Rightarrow> 'a core_scheme \<Rightarrow> 'a core_scheme \<Rightarrow> bool" where
  "woken evs c c' \<longleftrightarrow> distinct evs
     \<and> co_handles c' = rev (map (task_of (co_heap c) (co_store c)) evs) @ co_handles c
     \<and> (\<forall>e. ev_future (co_heap c' e) = (if e \<in> set evs then None else ev_future (co_heap c e)))
     \<and> co_store c' = co_store c \<and> co_workers c' = co_workers c \<and> co_in_place c' = co_in_place c
     \<and> dr_local (co_driver c') = dr_local (co_driver c)"

lemma woken_trans:
  assumes "woken evs c c'" "woken evs' c' c''" "set evs \<inter> set evs' = {}"
  shows "woken (evs @ evs') c c''"
proof -
  have "map (task_of (co_heap c') (co_store c')) evs' = map (task_of (co_heap c) (co_store c)) evs'"
    using assms by (auto simp: woken_def task_of_def)
  then show ?thesis using assms by (auto simp: woken_def)
qed

text \<open>The registry \<open>i\<close>, in the state in which the driver asks it, throws or gives an error.\<close>

definition select_fails :: "(nat \<Rightarrow> world) \<Rightarrow> nat \<Rightarrow> 'a core_scheme \<Rightarrow> abnormal \<Rightarrow> bool" where
  "select_fails w i c x \<longleftrightarrow> (case Registry_select (w i, MAX_TIMEOUT) [] (co_heap c, dr_objects (co_driver c) ! i) of
     Inl y \<Rightarrow> x = y
   | Inr (r, evs, h, R) \<Rightarrow> isl r \<and> x = Bad_expected)"

lemma poll_registry_fails:
  assumes "polled_ok ids c" "i \<in> set ids" "poll_registry w (key, i) ([], c) = Inl x"
  shows "select_fails w i c x"
proof -
  let ?objs = "dr_objects (co_driver c)"
  have inv: "obj_invar (co_heap c) (?objs ! i)" using assms(1,2) by (simp add: polled_ok_def)
  have sub: "obj_tracked (?objs ! i) \<subseteq># tracked_all ids ?objs" by (rule tracked_all_mono [OF assms(2)])
  have once: "count (obj_tracked (?objs ! i)) e \<le> 1" for e
    using assms(1) mset_subset_eq_count [OF sub, of e] by (auto simp: polled_ok_def intro: order_trans)
  have bnd: "bound (co_heap c) (co_store c) e" if "e \<in># obj_tracked (?objs ! i)" for e
    using assms(1) that mset_subset_eqD [OF sub] by (auto simp: polled_ok_def)
  show ?thesis
  proof (cases "Registry_select (w i, 2) [] (co_heap c, ?objs ! i)")
    case (Inl y)
    then show ?thesis using assms(3) by (simp add: poll_registry_def select_fails_def)
  next
    case (Inr y)
    obtain r evs h' R' where y: "y = (r, evs, h', R')" by (cases y)
    note b = obj_reg.selected_batch [OF inv Inr [unfolded y] once bnd]
    show ?thesis
    proof (cases r)
      case r: (Inl err)
      then have "x = Bad_expected" using assms(3) Inr y by (simp add: poll_registry_def)
      then show ?thesis using Inr [unfolded y r] by (simp add: select_fails_def)
    next
      case r: (Inr u)
      let ?c = "c\<lparr>co_heap := h', co_driver := (co_driver c)\<lparr>dr_objects := ?objs[i := R']\<rparr>\<rparr>"
      have "\<exists>c'. for_each wake_one evs ?c = Inr c'"
        using wake_all [of evs ?c] b(1,4) by simp
      then show ?thesis using assms(3) Inr y r by (auto simp: poll_registry_def wake_def)
    qed
  qed
qed

text \<open>What the driver relies on, after one registry was selected from and the selected events were unbound.\<close>

lemma polled_ok_update:
  assumes ok: "polled_ok ids c" and i: "i \<in> set ids"
    and sel: "Registry_select (w, n) [] (co_heap c, dr_objects (co_driver c) ! i) = Inr (Inr u, evs, h', R')"
    and moved: "obj_tracked (dr_objects (co_driver c) ! i) = obj_tracked R' + mset evs"
    and inv': "obj_invar (unbind (set evs) h') R'"
    and fut: "\<And>e. ev_future (h' e) = ev_future (co_heap c e)"
    and c': "co_heap c' = unbind (set evs) h'" "dr_objects (co_driver c') = (dr_objects (co_driver c))[i := R']" "co_store c' = co_store c"
  shows "polled_ok ids c'"
  unfolding polled_ok_def
proof (intro conjI ballI allI)
  let ?objs = "dr_objects (co_driver c)"
  have ids: "distinct ids" "i < length ?objs" and inv: "obj_invar (co_heap c) (?objs ! i)"
    using ok i by (auto simp: polled_ok_def)
  have tr: "tracked_all ids ?objs = tracked_all ids (?objs[i := R']) + mset evs"
    by (rule tracked_all_update [OF ids(1) i ids(2) moved])
  have gone: "e \<notin> set evs" if "e \<in># tracked_all ids (?objs[i := R'])" for e
  proof
    assume "e \<in> set evs"
    with that have "\<not> count (tracked_all ids ?objs) e \<le> 1"
      unfolding tr by (intro count_twice) simp_all
    then show False using ok by (auto simp: polled_ok_def)
  qed
  show "distinct ids" by (rule ids)
  show "j < length (dr_objects (co_driver c'))" if "j \<in> set ids" for j using ok that by (simp add: polled_ok_def c')
  show "obj_invar (co_heap c') (dr_objects (co_driver c') ! j)" if j: "j \<in> set ids" for j
  proof (cases "j = i")
    case True
    then show ?thesis using inv' ids(2) by (simp add: c')
  next
    case False
    have "h' e = co_heap c e" if "e \<in># obj_tracked (?objs ! j)" for e
      using tracked_all_disjoint [OF ids(1) i j False [symmetric], of ?objs e] that ok
        obj_reg.sel_frame [OF inv sel, of e] by (auto simp: polled_ok_def)
    then show ?thesis
      using obj_reg.untouched [of "co_heap c" "?objs ! j" h'] ok j False by (simp add: polled_ok_def c')
  qed
  show "count (tracked_all ids (dr_objects (co_driver c'))) e \<le> 1" for e
    using ok tr by (auto simp: polled_ok_def c' intro: order_trans [of _ "count (tracked_all ids ?objs) e"])
  show "bound (co_heap c') (co_store c') e" if "e \<in># tracked_all ids (dr_objects (co_driver c'))" for e
    using that gone [of e] ok tr fut by (auto simp: polled_ok_def c' bound_def)
qed

lemma poll_registry_ok:
  assumes ok: "polled_ok ids c" and i: "i \<in> set ids"
    and poll: "poll_registry w (key, i) ([], c) = Inr (evs', c')"
  shows "evs' = []" "polled_ok ids c'"
    "\<exists>evs. woken evs c c'
       \<and> tracked_all ids (dr_objects (co_driver c)) = tracked_all ids (dr_objects (co_driver c')) + mset evs"
proof -
  let ?objs = "dr_objects (co_driver c)"
  have ids: "distinct ids" "i < length ?objs" and inv: "obj_invar (co_heap c) (?objs ! i)"
    using ok i by (auto simp: polled_ok_def)
  have sub: "obj_tracked (?objs ! i) \<subseteq># tracked_all ids ?objs" by (rule tracked_all_mono [OF i])
  have once: "count (obj_tracked (?objs ! i)) e \<le> 1" for e
    using ok mset_subset_eq_count [OF sub, of e] by (auto simp: polled_ok_def intro: order_trans)
  have bnd: "bound (co_heap c) (co_store c) e" if "e \<in># obj_tracked (?objs ! i)" for e
    using ok that mset_subset_eqD [OF sub] by (auto simp: polled_ok_def)
  obtain r evs h' R' where sel0: "Registry_select (w i, 2) [] (co_heap c, ?objs ! i) = Inr (r, evs, h', R')"
    using poll by (auto simp: poll_registry_def outcome_simps)
  obtain u where r: "r = Inr u" using poll sel0 by (cases r) (auto simp: poll_registry_def)
  have sel: "Registry_select (w i, 2) [] (co_heap c, ?objs ! i) = Inr (Inr u, evs, h', R')"
    using sel0 r by simp
  have wk: "wake evs (c\<lparr>co_heap := h', co_driver := (co_driver c)\<lparr>dr_objects := ?objs[i := R']\<rparr>\<rparr>) = Inr (evs', c')"
    using poll sel by (simp add: poll_registry_def)
  note b = obj_reg.selected_batch [OF inv sel once bnd]
  have c': "evs' = []" "c' = c\<lparr>co_driver := (co_driver c)\<lparr>dr_objects := ?objs[i := R']\<rparr>, co_heap := unbind (set evs) h',
      co_handles := rev (map (task_of (co_heap c) (co_store c)) evs) @ co_handles c\<rparr>"
    using wk wake_all [of evs "c\<lparr>co_heap := h', co_driver := (co_driver c)\<lparr>dr_objects := ?objs[i := R']\<rparr>\<rparr>"] b(1,4,5)
    by (auto simp: wake_def)
  show "evs' = []" by (rule c')
  have tr: "tracked_all ids ?objs = tracked_all ids (?objs[i := R']) + mset evs"
    by (rule tracked_all_update [OF ids(1) i ids(2) b(2)])
  have fut: "ev_future (h' e) = ev_future (co_heap c e)" for e using obj_reg.sel_future [OF sel] .
  have "woken evs c c'" using b(1) by (auto simp: woken_def c' fut)
  then show "\<exists>evs. woken evs c c'
       \<and> tracked_all ids (dr_objects (co_driver c)) = tracked_all ids (dr_objects (co_driver c')) + mset evs"
    using tr by (auto simp: c')
  show "polled_ok ids c'"
    by (rule polled_ok_update [OF ok i sel b(2,3) fut]) (simp_all add: c')
qed

text \<open>The loop of \<open>Driver::poll\<close>.\<close>

lemma polls_ok:
  assumes "polled_ok ids c" "set (map snd regs) \<subseteq> set ids" "for_each (poll_registry w) regs ([], c) = Inr (evs', c')"
  shows "evs' = [] \<and> polled_ok ids c' \<and> (\<exists>evs. woken evs c c'
     \<and> tracked_all ids (dr_objects (co_driver c)) = tracked_all ids (dr_objects (co_driver c')) + mset evs)"
  using assms
proof (induction regs arbitrary: c)
  case Nil
  then have "woken [] c c'" by (auto simp: woken_def)
  then show ?case using Nil by (intro conjI exI [of _ "[]"]) auto
next
  case (Cons kr regs)
  obtain k i where kr: "kr = (k, i)" by (cases kr)
  have i: "i \<in> set ids" using Cons.prems(2) kr by simp
  obtain ev1 c1 where 1: "poll_registry w (k, i) ([], c) = Inr (ev1, c1)" "for_each (poll_registry w) regs (ev1, c1) = Inr (evs', c')"
    using Cons.prems(3) kr by (auto simp: outcome_simps)
  note p = poll_registry_ok [OF Cons.prems(1) i 1(1)]
  from p(3) obtain e1 where e1: "woken e1 c c1"
    "tracked_all ids (dr_objects (co_driver c)) = tracked_all ids (dr_objects (co_driver c1)) + mset e1" by blast
  from Cons.IH [OF p(2)] 1(2) p(1) Cons.prems(2) obtain e2 where e2: "evs' = []" "polled_ok ids c'" "woken e2 c1 c'"
    "tracked_all ids (dr_objects (co_driver c1)) = tracked_all ids (dr_objects (co_driver c')) + mset e2" by auto
  have "set e1 \<inter> set e2 = {}"
  proof (rule ccontr)
    assume "set e1 \<inter> set e2 \<noteq> {}"
    then obtain e where "e \<in># mset e1" "e \<in># mset e2" by auto
    then have "\<not> count (tracked_all ids (dr_objects (co_driver c))) e \<le> 1"
      unfolding e1(2) e2(4) by (intro count_twice) simp_all
    then show False using Cons.prems(1) by (auto simp: polled_ok_def)
  qed
  then have "woken (e1 @ e2) c c'" by (rule woken_trans [OF e1(1) e2(3)])
  then show ?case using e1(2) e2 by (intro conjI exI [of _ "e1 @ e2"]) (simp_all add: ac_simps)
qed

text \<open>A round fails where a registry does, after the ones before it have been dealt with.\<close>

lemma polls_fail:
  assumes "polled_ok ids c" "set (map snd regs) \<subseteq> set ids" "for_each (poll_registry w) regs ([], c) = Inl x"
  shows "\<exists>before k i after c1. regs = before @ (k, i) # after \<and> for_each (poll_registry w) before ([], c) = Inr ([], c1)
    \<and> polled_ok ids c1 \<and> select_fails w i c1 x"
  using assms
proof (induction regs arbitrary: c)
  case (Cons kr regs)
  obtain k i where kr: "kr = (k, i)" by (cases kr)
  have i: "i \<in> set ids" using Cons.prems(2) kr by simp
  show ?case
  proof (cases "poll_registry w (k, i) ([], c)")
    case (Inl y)
    then have "x = y" using Cons.prems(3) kr by simp
    then have "select_fails w i c x" using poll_registry_fails [OF Cons.prems(1) i] Inl by blast
    then show ?thesis using kr Cons.prems(1) by (intro exI [of _ "[]"] exI [of _ k] exI [of _ i] exI [of _ regs] exI [of _ c]) simp
  next
    case (Inr y)
    obtain ev1 c1 where y: "y = (ev1, c1)" by (cases y)
    note p = poll_registry_ok [OF Cons.prems(1) i Inr [unfolded y]]
    from Cons.IH [OF p(2)] p(1) Cons.prems(2,3) Inr y kr obtain before k' i' after c2 where
      "regs = before @ (k', i') # after" "for_each (poll_registry w) before ([], c1) = Inr ([], c2)" "polled_ok ids c2" "select_fails w i' c2 x"
      by auto
    then show ?thesis using kr Inr y p(1)
      by (intro exI [of _ "kr # before"] exI [of _ k'] exI [of _ i'] exI [of _ after] exI [of _ c2]) simp
  qed
qed simp

section \<open>The ready queue\<close>

lemma queue_at_set_queue:
  assumes "\<not> suspended wid c" "q = Global_queue \<or> q = Local_queue wid"
  shows "queue_at q (set_queue q xs c) = xs" "suspended wid (set_queue q xs c) = suspended wid c"
    "set_queue q ys (set_queue q xs c) = set_queue q ys c"
  using assms by (cases wid; auto simp: suspended_def split: option.splits)+

lemma set_queue_same:
  assumes "\<not> suspended wid c" "q = Global_queue \<or> q = Local_queue wid"
  shows "set_queue q (queue_at q c) c = c"
  using assms by (cases wid; auto simp: suspended_def fun_upd_idem split: option.splits)

text \<open>
  Tasks that leave the queue and the flag alone are run oldest first until none is left.
\<close>

text \<open>
  The tasks \<open>ts\<close> are taken from the queue one after the other, the oldest waiting one each time, and
  run; at the end the queue is empty, or the last task ended abnormally.
\<close>

fun drained ::
  "(ready_task \<Rightarrow> 'a core_scheme \<Rightarrow> 'a core_scheme outcome) \<Rightarrow> queue_id \<Rightarrow> ready_task list \<Rightarrow> 'a core_scheme
   \<Rightarrow> 'a core_scheme outcome \<Rightarrow> bool" where
  "drained run q [] c r \<longleftrightarrow> queue_at q c = [] \<and> r = Inr c"
| "drained run q (t # ts) c r \<longleftrightarrow> queue_at q c \<noteq> [] \<and> t = last (queue_at q c)
     \<and> (case run t (set_queue q (butlast (queue_at q c)) c) of Inl e \<Rightarrow> ts = [] \<and> r = Inl e | Inr c \<Rightarrow> drained run q ts c r)"

text \<open>
  A task that returns may have added tasks to the queue, and has not suspended the worker;
  \<open>room c\<close> bounds how many can still be added from \<open>c\<close> on.
\<close>

definition adds_tasks ::
  "(ready_task \<Rightarrow> 'a core_scheme \<Rightarrow> 'a core_scheme outcome) \<Rightarrow> thread_id option \<Rightarrow> queue_id \<Rightarrow> ('a core_scheme \<Rightarrow> nat) \<Rightarrow> bool" where
  "adds_tasks run wid q room \<longleftrightarrow> (\<forall>c c'. \<not> suspended wid c \<longrightarrow> queue_at q c \<noteq> [] \<longrightarrow>
     run (last (queue_at q c)) (set_queue q (butlast (queue_at q c)) c) = Inr c' \<longrightarrow>
     \<not> suspended wid c' \<and> (\<exists>new. queue_at q c' = new @ butlast (queue_at q c) \<and> length new + room c' \<le> room c))"

lemma resume_loop_drains:
  assumes run: "adds_tasks run wid q room"
  shows "\<not> suspended wid c \<Longrightarrow> \<exists>ts r. resume_loop run wid q c = Some r \<and> drained run q ts c r
    \<and> length ts \<le> length (queue_at q c) + room c
    \<and> ((\<exists>us. ts = rev (queue_at q c) @ us) \<or> isl r \<and> (\<exists>us. rev (queue_at q c) = ts @ us))"
proof (induction "length (queue_at q c) + room c" arbitrary: c rule: less_induct)
  case less
  show ?case
  proof (cases "queue_at q c = []")
    case True
    then have "resume_loop run wid q c = Some (Inr c)" using less.prems by (subst resume_loop.simps) (simp add: pop_back_def)
    with True show ?thesis by (intro exI [of _ "[]"] exI [of _ "Inr c"]) simp
  next
    case False
    let ?t = "last (queue_at q c)" and ?rest = "butlast (queue_at q c)"
    have rev: "rev (queue_at q c) = ?t # rev ?rest" using False by (metis append_butlast_last_id rev_eq_Cons_iff rev_rev_ident)
    have loop: "resume_loop run wid q c = (case run ?t (set_queue q ?rest c) of Inl e \<Rightarrow> Some (Inl e) | Inr c \<Rightarrow> resume_loop run wid q c)"
      using less.prems False by (subst resume_loop.simps) (simp add: pop_back_def)
    show ?thesis
    proof (cases "run ?t (set_queue q ?rest c)")
      case (Inl e)
      have "rev (queue_at q c) = [?t] @ rev ?rest" using rev by simp
      then have "\<exists>us. rev (queue_at q c) = [?t] @ us" ..
      with loop Inl False show ?thesis by (intro exI [of _ "[?t]"] exI [of _ "Inl e"]) (simp add: Suc_le_eq)
    next
      case (Inr c1)
      from run [unfolded adds_tasks_def] less.prems False Inr obtain new where new: "\<not> suspended wid c1"
        "queue_at q c1 = new @ ?rest" "length new + room c1 \<le> room c" by blast
      have "length (queue_at q c1) + room c1 < length (queue_at q c) + room c" using new(2,3) False by (cases "queue_at q c") auto
      from less.hyps [OF this new(1)] obtain ts r where ts: "resume_loop run wid q c1 = Some r" "drained run q ts c1 r"
        "length ts \<le> length (queue_at q c1) + room c1"
        "(\<exists>us. ts = rev (queue_at q c1) @ us) \<or> isl r \<and> (\<exists>us. rev (queue_at q c1) = ts @ us)" by blast
      have "0 < length (queue_at q c)" "length (queue_at q c1) = length new + (length (queue_at q c) - 1)" using False new(2) by simp_all
      then have len: "Suc (length ts) \<le> length (queue_at q c) + room c" using ts(3) new(3) by linarith
      have "(\<exists>us. ?t # ts = rev (queue_at q c) @ us) \<or> isl r \<and> (\<exists>us. rev (queue_at q c) = (?t # ts) @ us)"
        using ts(4) unfolding new(2) rev by (auto simp: append_eq_append_conv2)
      with loop Inr ts(1,2) len False show ?thesis by (intro exI [of _ "?t # ts"] exI [of _ r]) simp
    qed
  qed
qed

section \<open>The launch barrier\<close>

definition arrived :: "launch \<Rightarrow> nat" where
  "arrived l = length (filter (\<lambda>pc. pc \<noteq> Not_arrived) (la_pc l))"

definition launch_ok :: "launch \<Rightarrow> bool" where
  "launch_ok l \<longleftrightarrow> length (la_pc l) = unat (la_worker_num l) \<and> la_init_num l = int (arrived l)
     \<and> (Launched \<in> set (la_pc l) \<longrightarrow> arrived l = length (la_pc l))
     \<and> (Cv_wait \<in> set (la_pc l) \<longrightarrow> arrived l < length (la_pc l))"

lemma arrived_update:
  "i < length pcs \<Longrightarrow> pcs ! i = Not_arrived \<Longrightarrow> pc \<noteq> Not_arrived \<Longrightarrow>
     length (filter (\<lambda>pc. pc \<noteq> Not_arrived) (pcs[i := pc])) = Suc (length (filter (\<lambda>pc. pc \<noteq> Not_arrived) pcs))"
proof (induction pcs arbitrary: i)
  case (Cons x pcs)
  then show ?case by (cases i) auto
qed simp

lemma arrived_map:
  "length (filter (\<lambda>pc. pc \<noteq> Not_arrived) (map (\<lambda>pc. if pc = Cv_wait then Launched else pc) pcs))
   = length (filter (\<lambda>pc. pc \<noteq> Not_arrived) pcs)"
  by (induction pcs) auto

lemma init_in_thread_ok:
  assumes ok: "launch_ok l" and i: "i < length (la_pc l)" "la_pc l ! i = Not_arrived"
  shows "launch_ok (init_in_thread i l)"
proof (cases "la_init_num l + 1 = uint (la_worker_num l)")
  case True
  let ?m = "map (\<lambda>pc. if pc = Cv_wait then Launched else pc) (la_pc l)"
  have "arrived (init_in_thread i l) = Suc (arrived l)"
    using True i arrived_update [of i ?m Launched] by (simp add: init_in_thread_def arrived_def arrived_map [simplified filter_map length_map])
  moreover have "Suc (arrived l) = length (la_pc l)"
    using True ok by (simp add: launch_ok_def) (metis int_eq_iff_numeral nat_int of_nat_Suc add.commute uint_nat of_nat_eq_iff)
  moreover have "Cv_wait \<notin> set (?m[i := Launched])"
    using set_update_subset_insert [of ?m i Launched] by (auto split: if_splits)
  ultimately show ?thesis using True ok by (auto simp: launch_ok_def init_in_thread_def)
next
  case False
  have a: "arrived (init_in_thread i l) = Suc (arrived l)"
    using False i arrived_update [of i "la_pc l" Cv_wait] by (simp add: init_in_thread_def arrived_def)
  have "Not_arrived \<in> set (la_pc l)" using i by (metis nth_mem)
  then have less: "arrived l < length (la_pc l)" unfolding arrived_def by (rule length_filter_less) simp
  moreover have "Suc (arrived l) \<noteq> length (la_pc l)"
    using False ok by (simp add: launch_ok_def) (metis nat_int of_nat_Suc add.commute uint_nat)
  moreover have "Launched \<notin> set ((la_pc l)[i := Cv_wait])"
    using set_update_subset_insert [of "la_pc l" i Cv_wait] less ok by (auto simp: launch_ok_def)
  ultimately show ?thesis using False ok a by (auto simp: launch_ok_def init_in_thread_def)
qed

lemma launch_reach_ok: "launch_reach False n l \<Longrightarrow> launch_ok l \<and> la_worker_num l = n"
proof (induction rule: launch_reach.induct)
  case launch_start
  show ?case by (simp add: launch_ok_def arrived_def)
next
  case (launch_next l l')
  then show ?case
    by (auto elim!: launch_step.cases intro: init_in_thread_ok simp: init_in_thread_def Let_def)
qed

section \<open>Adding a thread to the driver\<close>

definition lookup_registry :: "driver \<Rightarrow> thread_id \<Rightarrow> registry_class \<Rightarrow> nat option" where
  "lookup_registry d tid cls = Option.bind (dr_local d tid) (\<lambda>regs. map_of regs cls)"

definition instances_ok :: "driver \<Rightarrow> bool" where
  "instances_ok d \<longleftrightarrow> (\<forall>cls i. dr_instances d cls = Some i \<longrightarrow> i < length (dr_objects d))"

text \<open>What \<open>add_thread\<close> has established for the classes \<open>ready\<close>.\<close>

definition added :: "driver \<Rightarrow> thread_id \<Rightarrow> registry_class set \<Rightarrow> driver \<Rightarrow> bool" where
  "added d0 tid ready d \<longleftrightarrow> instances_ok d \<and> length (dr_objects d0) \<le> length (dr_objects d)
     \<and> (\<forall>cls i. dr_instances d0 cls = Some i \<longrightarrow> dr_instances d cls = Some i)
     \<and> (\<forall>t. t \<noteq> tid \<longrightarrow> dr_local d t = dr_local d0 t) \<and> dr_initializers d = dr_initializers d0
     \<and> (\<forall>cls \<in> ready. \<exists>i. lookup_registry d tid cls = Some i \<and> i < length (dr_objects d)
          \<and> (if cls = Uring_class then length (dr_objects d0) \<le> i else dr_instances d cls = Some i))"

lemma get_instance_cases:
  assumes "get_instance w cls n d = Inr (i, d')" "instances_ok d"
  shows "instances_ok d'" "i < length (dr_objects d')" "length (dr_objects d) \<le> length (dr_objects d')"
    "dr_local d' = dr_local d" "dr_initializers d' = dr_initializers d"
    "if cls = Uring_class then length (dr_objects d) \<le> i \<and> dr_instances d' = dr_instances d
     else dr_instances d' = (dr_instances d)(cls \<mapsto> i) \<and> (dr_instances d cls = None \<or> dr_instances d cls = Some i)"
proof -
  let ?found = "if cls = Uring_class then None else dr_instances d cls"
  have "instances_ok d' \<and> i < length (dr_objects d') \<and> length (dr_objects d) \<le> length (dr_objects d')
    \<and> dr_local d' = dr_local d \<and> dr_initializers d' = dr_initializers d
    \<and> (if cls = Uring_class then length (dr_objects d) \<le> i \<and> dr_instances d' = dr_instances d
     else dr_instances d' = (dr_instances d)(cls \<mapsto> i) \<and> (dr_instances d cls = None \<or> dr_instances d cls = Some i))"
  proof (cases ?found)
    case None
    with assms show ?thesis
      by (auto simp: get_instance_def outcome_simps instances_ok_def Let_def less_Suc_eq split: if_splits)
  next
    case (Some j)
    with assms show ?thesis by (auto simp: get_instance_def instances_ok_def fun_upd_idem split: if_splits)
  qed
  then show "instances_ok d'" "i < length (dr_objects d')" "length (dr_objects d) \<le> length (dr_objects d')"
    "dr_local d' = dr_local d" "dr_initializers d' = dr_initializers d"
    "if cls = Uring_class then length (dr_objects d) \<le> i \<and> dr_instances d' = dr_instances d
     else dr_instances d' = (dr_instances d)(cls \<mapsto> i) \<and> (dr_instances d cls = None \<or> dr_instances d cls = Some i)"
    by simp_all
qed

lemma add_registry_added:
  assumes "added d0 tid ready d" "add_registry w tid (cls, n) d = Inr d'"
  shows "added d0 tid (insert cls ready) d'"
proof -
  from assms(2) obtain i d1 where g: "get_instance w cls n d = Inr (i, d1)"
    and d': "d' = d1\<lparr>dr_local := (dr_local d1)(tid \<mapsto>
      AList.update cls i (case dr_local d1 tid of None \<Rightarrow> [] | Some regs \<Rightarrow> regs))\<rparr>"
    by (auto simp: add_registry_def outcome_simps)
  have ok: "instances_ok d" using assms(1) by (simp add: added_def)
  note c = get_instance_cases [OF g ok]
  have look: "lookup_registry d' tid k = (if k = cls then Some i else lookup_registry d tid k)" for k
    using c(4) by (auto simp: lookup_registry_def d' update_conv' split: option.splits)
  have found: "\<exists>j. lookup_registry d' tid k = Some j \<and> j < length (dr_objects d')
      \<and> (if k = Uring_class then length (dr_objects d0) \<le> j else dr_instances d' k = Some j)" if k: "k \<in> insert cls ready" for k
  proof (cases "k = cls")
    case True
    then show ?thesis using c look assms(1) by (auto simp: d' added_def split: if_splits)
  next
    case False
    then obtain j where "lookup_registry d tid k = Some j" "j < length (dr_objects d)"
      "if k = Uring_class then length (dr_objects d0) \<le> j else dr_instances d k = Some j"
      using k assms(1) by (auto simp: added_def)
    then show ?thesis using c look [of k] False by (auto simp: d' split: if_splits)
  qed
  then have "\<forall>k \<in> insert cls ready. \<exists>j. lookup_registry d' tid k = Some j \<and> j < length (dr_objects d')
      \<and> (if k = Uring_class then length (dr_objects d0) \<le> j else dr_instances d' k = Some j)" by blast
  moreover have "dr_instances d' k = Some j" if "dr_instances d0 k = Some j" for k j
    using that c(6) assms(1) by (auto simp: d' added_def split: if_splits)
  moreover have "instances_ok d'" "length (dr_objects d0) \<le> length (dr_objects d')"
    "\<forall>t. t \<noteq> tid \<longrightarrow> dr_local d' t = dr_local d0 t" "dr_initializers d' = dr_initializers d0"
    using c(1-5) assms(1) by (simp_all add: d' added_def instances_ok_def)
  ultimately show ?thesis unfolding added_def by blast
qed

lemma add_thread_added:
  assumes "add_thread w tid d = Inr d'" "instances_ok d"
  shows "added d tid (fst ` set (dr_initializers d)) d'"
proof -
  have step: "added d tid (ready \<union> fst ` set regs) d2"
    if "for_each (add_registry w tid) regs d1 = Inr d2" "added d tid ready d1" for regs d1 d2 ready
    using that
  proof (induction regs arbitrary: d1 ready)
    case (Cons r regs)
    obtain cls n where r: "r = (cls, n)" by (cases r)
    from Cons.prems obtain d3 where d3: "add_registry w tid (cls, n) d1 = Inr d3" "for_each (add_registry w tid) regs d3 = Inr d2"
      by (auto simp: r outcome_simps)
    show ?case using Cons.IH [OF d3(2) add_registry_added [OF Cons.prems(2) d3(1)]] by (simp add: r)
  qed simp
  have "added d tid {} (d\<lparr>dr_local := (dr_local d)(tid \<mapsto> [])\<rparr>)"
    using assms(2) by (simp add: added_def instances_ok_def)
  from step [OF _ this] assms(1) show ?thesis by (simp add: add_thread_def)
qed

end
