(* ===== verification/Runtime_Properties.thy ===== *)
theory Runtime_Properties
  imports Runtime_Proofs
begin

text \<open>
  Properties of futures and of the runtime: the links between coroutine frames and futures,
  results, cancellation and spawning; the ready queue, waking, polling and launching.
\<close>

section \<open>Futures\<close>

definition empty_store :: store where
  "empty_store = \<lparr>st_futures = \<lambda>_. None, st_frames = \<lambda>_. None\<rparr>"

definition fresh_fut :: "bool \<Rightarrow> handle option \<Rightarrow> fut" where
  "fresh_fut v self = \<lparr>fu_void = v, fu_return = None, fu_exception = None, fu_self = self,
     fu_waiting = None, fu_waited = None, fu_cancelled = False\<rparr>"

text \<open>A store with the future 1 of the coroutine 10.\<close>

definition one_coroutine :: store where
  "one_coroutine = \<lparr>st_futures = [1 \<mapsto> fresh_fut False (Some 10)],
     st_frames = [10 \<mapsto> \<lparr>fr_void = False, fr_future = Some 1, fr_done = False\<rparr>]\<rparr>"

lemma one_coroutine_reach: "fut_reach one_coroutine"
proof -
  have "fut_step empty_store one_coroutine"
    by (rule call_async [of _ 1 10 False])
      (auto simp: empty_store_def one_coroutine_def Future_ctor_def store_defs fresh_fut_def Let_def self_of_def)
  with fut_reach.step [OF fut_reach.start] show ?thesis by (simp add: empty_store_def)
qed

text \<open>A second coroutine 20 with its future 2.\<close>

definition pair_store :: store where
  "pair_store = \<lparr>st_futures = [1 \<mapsto> fresh_fut False (Some 10), 2 \<mapsto> fresh_fut False (Some 20)],
     st_frames = [10 \<mapsto> \<lparr>fr_void = False, fr_future = Some 1, fr_done = False\<rparr>,
       20 \<mapsto> \<lparr>fr_void = False, fr_future = Some 2, fr_done = False\<rparr>]\<rparr>"

lemma pair_store_reach: "fut_reach pair_store"
proof -
  have "fut_step one_coroutine pair_store"
    by (rule call_async [of _ 2 20 False])
      (auto simp: pair_store_def one_coroutine_def Future_ctor_def store_defs fresh_fut_def Let_def self_of_def)
  then show ?thesis by (rule fut_reach.step [OF one_coroutine_reach])
qed

lemma fut_reach_loose: "fut_reach st \<Longrightarrow> loose_reach st"
  by (induction rule: fut_reach.induct) (auto intro: loose_reach.intros)

text \<open>The move assignment \<open>future1 = std::move(future2)\<close>, then the end of \<open>future1\<close>.\<close>

lemma overwritten_dangles:
  "\<exists>st1 st2 fr. move_assign 1 2 pair_store = Inr st1 \<and> Future_dtor 1 st1 = Inr st2
     \<and> st_frames st2 10 = Some fr \<and> final_suspend 10 st2 = Inl Null_deref"
  by (simp add: pair_store_def fresh_fut_def move_assign_def Future_dtor_def final_suspend_def store_defs Let_def)

text \<open>
  C16. When a promise follows a dangling pointer. In every store that calls of coroutines, constructions,
  moves and destructions of futures, cancellations, awaits, polls, results and ends of coroutines can
  lead to, the ends of coroutines with a living future nobody awaits included and move assignments
  onto futures without a coroutine included, every member of the promise of a living frame finds its
  future, or finds that it was dropped where the class allows it: no call of final_suspend,
  unhandled_exception, return_value and set_waited dereferences null. The move assignment onto
  a future that still has a coroutine is the exception, since it forgets that coroutine
  without destroying it: from a reachable store with two coroutines, the assignment of one future to the
  other and the destruction of the target leave the forgotten frame with a promise whose
  final_suspend reads a destroyed future.
\<close>

theorem promise_never_dangles:
  assumes "loose_reach st" "st_frames st co = Some fr"
  shows "(\<exists>w. final_suspend co st = Inr w) \<and> (\<exists>r. unhandled_exception co e st = Inr r)
    \<and> (\<exists>st'. return_value co v st = Inr st') \<and> (\<exists>st'. set_waited co x st = Inr st')
    \<and> (\<exists>s0 s1 s2 p q f g cf fr'. loose_reach s0 \<and> p \<noteq> q \<and> st_futures s0 p = Some f \<and> fu_self f = Some cf
        \<and> st_futures s0 q = Some g \<and> fu_void g = fu_void f
        \<and> move_assign p q s0 = Inr s1 \<and> Future_dtor p s1 = Inr s2
        \<and> st_frames s2 cf = Some fr' \<and> final_suspend cf s2 = Inl Null_deref)"
proof -
  obtain s1 s2 fr' where "move_assign 1 2 pair_store = Inr s1" "Future_dtor 1 s1 = Inr s2"
    "st_frames s2 10 = Some fr'" "final_suspend 10 s2 = Inl Null_deref"
    using overwritten_dangles by (elim exE conjE)
  then have bad: "\<exists>s0 s1 s2 p q f g cf fr'. loose_reach s0 \<and> p \<noteq> q \<and> st_futures s0 p = Some f \<and> fu_self f = Some cf
        \<and> st_futures s0 q = Some g \<and> fu_void g = fu_void f
        \<and> move_assign p q s0 = Inr s1 \<and> Future_dtor p s1 = Inr s2
        \<and> st_frames s2 cf = Some fr' \<and> final_suspend cf s2 = Inl Null_deref"
    by (intro exI [of _ pair_store] exI [of _ s1] exI [of _ s2] exI [of _ 1] exI [of _ 2]
        exI [of _ "fresh_fut False (Some 10)"] exI [of _ "fresh_fut False (Some 20)"] exI [of _ 10] exI [of _ fr'])
      (use fut_reach_loose [OF pair_store_reach] in \<open>simp add: pair_store_def fresh_fut_def\<close>)
  have "(\<exists>w. final_suspend co st = Inr w) \<and> (\<exists>r. unhandled_exception co e st = Inr r)
    \<and> (\<exists>st'. return_value co v st = Inr st') \<and> (\<exists>st'. set_waited co x st = Inr st')"
    using linked_frame [OF loose_reach_linked [OF assms(1)] assms(2)] assms(2)
    by (elim disjE exE conjE)
      (simp_all add: final_suspend_def unhandled_exception_def return_value_def set_waited_def frame_at_def fut_at_def)
  with bad show ?thesis by blast
qed

text \<open>The coroutine 10 ended alone, so that its future 1 is left with the handle of a deleted frame; 20 still runs.\<close>

lemma ended_alone_reach: "loose_reach (destroy 10 pair_store)"
proof -
  have "coroutine_end 10 pair_store = Inr (None, destroy 10 pair_store)"
    by (simp add: coroutine_end_def final_suspend_def pair_store_def fresh_fut_def frame_at_def fut_at_def)
  then show ?thesis by (rule ends_alone [OF fut_reach_loose [OF pair_store_reach]])
qed

theorem promise_never_dangles_witness:
  "(\<exists>w. final_suspend 20 (destroy 10 pair_store) = Inr w) \<and> (\<exists>st'. return_value 20 5 (destroy 10 pair_store) = Inr st')"
  using promise_never_dangles [OF ended_alone_reach, of 20 "\<lparr>fr_void = False, fr_future = Some 2, fr_done = False\<rparr>"
      CancelException 5 None]
  by (simp add: pair_store_def)

text \<open>
  The awaiter gets what the coroutine returned. For a future that was neither cancelled nor
  failed, what its coroutine passes to return_value is what await_resume returns, and an
  exception that leaves the coroutine is what await_resume throws.
\<close>

theorem await_result:
  assumes "fut_reach st" "st_futures st p = Some f" "fu_self f = Some co" "\<not> fu_void f"
    and "fu_exception f = None" "\<not> fu_cancelled f" "fu_waiting f = Some w" "st_frames st w \<noteq> None"
  shows "(\<exists>st1 st2. return_value co v st = Inr st1 \<and> await_resume p st1 = Inr (Inr v, st2))
    \<and> (\<exists>st1 st2. unhandled_exception co e st = Inr (Inr st1) \<and> await_resume p st1 = Inr (Inl e, st2))"
proof -
  have L: "linked st" using fut_reach_linked [OF assms(1)] ..
  obtain fr where fr: "st_frames st co = Some fr" "fr_future fr = Some p"
    using fut_reach_self(1) [OF assms(1), of p co] assms(2,3) by (auto simp: view_simps future_of_def bind_eq_Some_conv)
  obtain wf where wf: "st_frames st w = Some wf" using assms(8) by auto
  have waited: "\<exists>st2. set_waited w None st1 = Inr st2" if "linked st1" "st_frames st1 = st_frames st" for st1
    using linked_frame [OF that(1), of w wf] that(2) wf
    by (auto simp: set_waited_def frame_at_def fut_at_def)
  have 1: "return_value co v st = Inr (set_fut p (f\<lparr>fu_return := Some v\<rparr>) st)"
    "unhandled_exception co e st = Inr (Inr (set_fut p (f\<lparr>fu_exception := Some e\<rparr>) st))"
    using fr assms(2) by (simp_all add: return_value_def unhandled_exception_def frame_at_def fut_at_def)
  obtain s1 s2 where "set_waited w None (set_fut p (f\<lparr>fu_return := Some v\<rparr>) st) = Inr s1"
    "set_waited w None (set_fut p (f\<lparr>fu_exception := Some e\<rparr>) st) = Inr s2"
    using waited [of "set_fut p (f\<lparr>fu_return := Some v\<rparr>) st"] waited [of "set_fut p (f\<lparr>fu_exception := Some e\<rparr>) st"]
      linked_set_fields(1,2) [OF L assms(2)] by auto
  then show ?thesis
    using 1 assms(4-7) by (auto simp: await_resume_def fut_at_def)
qed

text \<open>The coroutine 10 awaits the coroutine 20 through the future 2.\<close>

definition two_coroutines :: store where
  "two_coroutines = \<lparr>st_futures = [1 \<mapsto> (fresh_fut False (Some 10))\<lparr>fu_waited := Some 20\<rparr>,
       2 \<mapsto> (fresh_fut False (Some 20))\<lparr>fu_waiting := Some 10\<rparr>],
     st_frames = [10 \<mapsto> \<lparr>fr_void = False, fr_future = Some 1, fr_done = False\<rparr>,
       20 \<mapsto> \<lparr>fr_void = False, fr_future = Some 2, fr_done = False\<rparr>]\<rparr>"

lemma two_coroutines_reach: "fut_reach two_coroutines"
proof -
  have "await_suspend_bind 2 10 pair_store = Inr (Resume 20, two_coroutines)"
    by (auto simp: pair_store_def two_coroutines_def await_suspend_bind_def set_waited_def store_defs fresh_fut_def Let_def fun_eq_iff)
  then have "fut_step pair_store two_coroutines" by (rule awaits)
  then show ?thesis by (rule fut_reach.step [OF pair_store_reach])
qed

theorem await_result_witness:
  "\<exists>st1 st2. return_value 20 5 two_coroutines = Inr st1 \<and> await_resume 2 st1 = Inr (Inr 5, st2)"
  using await_result [OF two_coroutines_reach, of 2 "(fresh_fut False (Some 20))\<lparr>fu_waiting := Some 10\<rparr>" 20 10 5 CancelException]
  by (simp add: two_coroutines_def fresh_fut_def)

text \<open>
  C17. Cancelling ends, and reaches exactly the futures of the coroutines on the chain of awaits:
  each is marked, nothing else changes, and afterwards await_resume on each of them gives no value:
  it throws the exception the future has, or CancelException when it has none.
\<close>

theorem cancel_reaches_chain:
  assumes "await_chain st (p # ps)"
  shows "\<exists>st'. cancel p st = Some (Inr st') \<and> st_frames st' = st_frames st
    \<and> (\<forall>q. st_futures st' q = (if q \<in> set (p # ps) then map_option (\<lambda>f. f\<lparr>fu_cancelled := True\<rparr>) (st_futures st q)
         else st_futures st q))
    \<and> (\<forall>q \<in> set (p # ps). \<forall>r st''. await_resume q st' = Inr (r, st'') \<longrightarrow>
         (\<exists>f. st_futures st q = Some f
            \<and> r = Inl (case fu_exception f of Some e \<Rightarrow> e | None \<Rightarrow> CancelException)))"
proof (rule exI [of _ "cancel_all (set (p # ps)) st"], intro conjI ballI allI impI)
  let ?st = "cancel_all (set (p # ps)) st"
  show "cancel p st = Some (Inr ?st)" using cancel_chain [OF assms, of "{}"] by simp
  show "st_frames ?st = st_frames st" by (simp add: cancel_all_def)
  show "st_futures ?st q = (if q \<in> set (p # ps) then map_option (\<lambda>f. f\<lparr>fu_cancelled := True\<rparr>) (st_futures st q)
      else st_futures st q)" for q by (simp add: cancel_all_def)
  show "\<exists>f. st_futures st q = Some f \<and> r = Inl (case fu_exception f of Some e \<Rightarrow> e | None \<Rightarrow> CancelException)"
    if q: "q \<in> set (p # ps)" and r: "await_resume q ?st = Inr (r, st'')" for q r st''
  proof -
    obtain g where g: "st_futures ?st q = Some g" using r by (auto simp: await_resume_def outcome_simps)
    then obtain f where f: "st_futures st q = Some f" "g = f\<lparr>fu_cancelled := True\<rparr>"
      using q by (auto simp: cancel_all_def)
    have "r = Inl (case fu_exception g of Some e \<Rightarrow> e | None \<Rightarrow> CancelException)"
      using r g f(2) by (cases "fu_exception g") (auto simp: await_resume_def outcome_simps fut_at_def)
    then show ?thesis using f by simp
  qed
qed

lemma two_coroutines_chain: "await_chain two_coroutines [1, 2]"
  by (rule chain_next, auto simp: two_coroutines_def fresh_fut_def intro: chain_end)

theorem cancel_reaches_chain_witness:
  "\<exists>st'. cancel 1 two_coroutines = Some (Inr st')
    \<and> st_futures st' 2 = Some ((fresh_fut False (Some 20))\<lparr>fu_waiting := Some 10, fu_cancelled := True\<rparr>)"
proof -
  obtain st' where "cancel 1 two_coroutines = Some (Inr st')"
    "st_futures st' 2 = map_option (\<lambda>f. f\<lparr>fu_cancelled := True\<rparr>) (st_futures two_coroutines 2)"
    using cancel_reaches_chain [OF two_coroutines_chain] by auto
  then show ?thesis by (simp add: two_coroutines_def)
qed

section \<open>Spawning\<close>

text \<open>A core with the wrapper future 1 of a spawned coroutine 10.\<close>

definition spawn_core :: core where
  "spawn_core = \<lparr>co_handles = [], co_in_place = Worker, co_workers = (\<lambda>_. None), co_driver = Driver [],
     co_heap = (\<lambda>_. \<lparr>ev_future = None, ev_extra = None\<rparr>),
     co_store = \<lparr>st_futures = [1 \<mapsto> fresh_fut True (Some 10)],
       st_frames = [10 \<mapsto> \<lparr>fr_void = True, fr_future = Some 1, fr_done = False\<rparr>]\<rparr>\<rparr>"

text \<open>
  C20. Spawning. Undisturbed, spawn_impl queues the wrapper's coroutine behind all waiting tasks and
  leaves the frame alone without its future, so that the coroutine deletes itself at its end. But
  the coroutine is in the queue before the future is destroyed: when a worker runs it to its end
  in between, the destructor of the future writes to the deleted frame.
\<close>

theorem spawn_detaches_or_races:
  assumes "fut_reach (co_store c)" "st_futures (co_store c) p = Some f" "fu_self f = Some co" "fu_void f" "fu_waiting f = None"
  shows "(\<exists>c' fr. spawn_impl p c = Inr c' \<and> co_handles c' = (Some co, None) # co_handles c
      \<and> st_futures (co_store c') p = None \<and> st_frames (co_store c') co = Some fr \<and> fr_future fr = None
      \<and> coroutine_end co (co_store c') = Inr (None, destroy co (co_store c')))
    \<and> (\<exists>c1 st. spawn_push p c = Inr c1 \<and> coroutine_end co (co_store c1) = Inr (None, st)
      \<and> spawn_drop p (c1\<lparr>co_store := st\<rparr>) = Inl Null_deref)"
proof -
  obtain fr where fr: "st_frames (co_store c) co = Some fr" "fr_future fr = Some p"
    using fut_reach_self(1) [OF assms(1), of p co] assms(2,3) by (auto simp: view_simps future_of_def bind_eq_Some_conv)
  have v: "fr_void fr" using fut_reach_self(2) [OF assms(1), of p co] assms(2-4) fr by (simp add: view_simps)
  have push: "spawn_push p c = Inr (push_handle (Some co, None) c)"
    using assms(2,3) by (simp add: spawn_push_def get_handle_def fut_at_def)
  have "coroutine_end co (co_store c) = Inr (None, destroy co (co_store c))"
    using fr assms(2,5) by (simp add: coroutine_end_def final_suspend_def frame_at_def fut_at_def)
  moreover have "spawn_drop p ((push_handle (Some co, None) c)\<lparr>co_store := destroy co (co_store c)\<rparr>) = Inl Null_deref"
    using assms(2-5) by (simp add: spawn_drop_def Future_dtor_def fut_at_def frame_at_def)
  ultimately have race: "\<exists>c1 st. spawn_push p c = Inr c1 \<and> coroutine_end co (co_store c1) = Inr (None, st)
      \<and> spawn_drop p (c1\<lparr>co_store := st\<rparr>) = Inl Null_deref"
    using push by (intro exI [of _ "push_handle (Some co, None) c"] exI [of _ "destroy co (co_store c)"])
      (simp add: push_handle_def)
  define st where "st = drop_fut p (set_frame co (fr\<lparr>fr_future := None\<rparr>) (co_store c))"
  define c' where "c' = (push_handle (Some co, None) c)\<lparr>co_store := st\<rparr>"
  have "Future_dtor p (co_store c) = Inr st"
    using assms(2-5) fr by (simp add: Future_dtor_def fut_at_def frame_at_def st_def drop_fut_def)
  then have "spawn_impl p c = Inr c'"
    using push by (simp add: spawn_impl_def spawn_drop_def c'_def push_handle_def)
  moreover have "co_handles c' = (Some co, None) # co_handles c"
    by (simp add: c'_def push_handle_def emplace_begin_def)
  moreover have st: "co_store c' = st" "st_futures st p = None" "st_frames st co = Some (fr\<lparr>fr_future := None\<rparr>)"
    by (simp_all add: c'_def st_def drop_fut_def)
  moreover have "coroutine_end co st = Inr (None, destroy co st)"
    using v st by (simp add: coroutine_end_def final_suspend_def frame_at_def)
  ultimately have "\<exists>c' fr. spawn_impl p c = Inr c' \<and> co_handles c' = (Some co, None) # co_handles c
      \<and> st_futures (co_store c') p = None \<and> st_frames (co_store c') co = Some fr \<and> fr_future fr = None
      \<and> coroutine_end co (co_store c') = Inr (None, destroy co (co_store c'))"
    by (intro exI [of _ c'] exI [of _ "fr\<lparr>fr_future := None\<rparr>"]) simp
  with race show ?thesis by blast
qed

theorem spawn_detaches_or_races_witness:
  "(\<exists>c'. spawn_impl 1 spawn_core = Inr c' \<and> co_handles c' = [(Some 10, None)])
    \<and> (\<exists>c1 st. spawn_push 1 spawn_core = Inr c1 \<and> coroutine_end 10 (co_store c1) = Inr (None, st)
      \<and> spawn_drop 1 (c1\<lparr>co_store := st\<rparr>) = Inl Null_deref)"
proof -
  have "fut_step empty_store (co_store spawn_core)"
    by (rule call_async [of _ 1 10 True])
      (auto simp: empty_store_def spawn_core_def Future_ctor_def store_defs fresh_fut_def Let_def self_of_def)
  then have "fut_reach (co_store spawn_core)"
    using fut_reach.step [OF fut_reach.start] by (simp add: empty_store_def)
  moreover have "st_futures (co_store spawn_core) 1 = Some (fresh_fut True (Some 10))" "co_handles spawn_core = []"
    by (simp_all add: spawn_core_def)
  ultimately show ?thesis
    using spawn_detaches_or_races [of spawn_core 1 "fresh_fut True (Some 10)" 10] by (simp add: fresh_fut_def) blast
qed

section \<open>The ready queue\<close>

text \<open>
  The ready queue is first-in first-out, although it is a vector that grows at its front and
  is emptied from its back: over every sequence of insertions and removals, the tasks that come
  out are, in this order, those waiting at first, oldest first, followed by those put in, up to the ones still waiting.
\<close>

theorem ready_queue_fifo:
  "let (out, q') = queue_run emplace_begin pop_back ops q
   in rev q @ List.map_filter id ops = out @ rev q'"
  using vector_queue.run_in_order [of ops q] by (auto split: prod.splits)

text \<open>
  C18. The worker's loop over a ready queue. The tasks may add tasks to the queue, as spawning and waking do, but
  only so many in all (without a bound the loop need not end), and do not suspend the worker. Then
  the loop ends. It has run each waiting task once, oldest first, and after them the added
  ones in their order, and the queue is empty; or a task ended abnormally and nothing ran after it.
\<close>

theorem resume_runs_all:
  assumes "adds_tasks run wid q room" "\<not> suspended wid c"
  shows "\<exists>ts r. resume run True wid q c = Some r \<and> drained run q ts c r \<and> length ts \<le> length (queue_at q c) + room c
    \<and> ((\<exists>us. ts = rev (queue_at q c) @ us) \<or> isl r \<and> (\<exists>us. rev (queue_at q c) = ts @ us))"
  using resume_loop_drains [OF assms] by (simp add: resume_def)

text \<open>A core that logs the tasks that ran; the task 1 spawns the task 3 when it runs for the first time.\<close>

definition log_core :: "ready_task list core_scheme" where
  "log_core = core.extend (spawn_core\<lparr>co_handles := [(Some 2, None), (Some 1, None)]\<rparr>) []"

definition log_run :: "ready_task \<Rightarrow> ready_task list core_scheme \<Rightarrow> ready_task list core_scheme outcome" where
  "log_run t c = Inr (core.more_update (\<lambda>l. l @ [t])
     (if t = (Some 1, None) \<and> t \<notin> set (core.more c) then push_handle (Some 3, None) c else c))"

theorem resume_runs_all_witness:
  "\<exists>c. resume log_run True None Global_queue log_core = Some (Inr c) \<and> co_handles c = []
     \<and> core.more c = [(Some 1, None), (Some 2, None), (Some 3, None)]"
proof -
  let ?room = "\<lambda>c :: ready_task list core_scheme. if (Some 1, None) \<in> set (core.more c) then 0 else 1 :: nat"
  have adds: "adds_tasks log_run None Global_queue ?room"
    unfolding adds_tasks_def
  proof (intro allI impI)
    fix c c' :: "ready_task list core_scheme"
    assume s: "\<not> suspended None c"
      and run: "log_run (last (queue_at Global_queue c)) (set_queue Global_queue (butlast (queue_at Global_queue c)) c) = Inr c'"
    let ?t = "last (co_handles c)"
    have c': "co_in_place c' = co_in_place c" "core.more c' = core.more c @ [?t]"
      "co_handles c' = (if ?t = (Some 1, None) \<and> ?t \<notin> set (core.more c) then [(Some 3, None)] else []) @ butlast (co_handles c)"
      using run by (auto simp: log_run_def push_handle_def emplace_begin_def)
    then show "\<not> suspended None c' \<and> (\<exists>new. queue_at Global_queue c' = new @ butlast (queue_at Global_queue c) \<and> length new + ?room c' \<le> ?room c)"
      using s by (auto simp: suspended_def)
  qed
  have "\<not> suspended None log_core" by (simp add: suspended_def log_core_def spawn_core_def Worker_def core.defs)
  from resume_runs_all [OF adds this] obtain ts r where ts: "resume log_run True None Global_queue log_core = Some r"
    "drained log_run Global_queue ts log_core r" by (elim exE conjE)
  obtain ts1 where 1: "ts = (Some 1, None) # ts1" using ts(2) by (cases ts) (simp_all add: log_core_def core.defs)
  from ts(2) obtain ts2 where 2: "ts1 = (Some 2, None) # ts2"
    by (cases ts1) (simp_all add: 1 log_core_def core.defs log_run_def push_handle_def emplace_begin_def)
  from ts(2) obtain ts3 where 3: "ts2 = (Some 3, None) # ts3"
    by (cases ts2) (simp_all add: 1 2 log_core_def core.defs log_run_def push_handle_def emplace_begin_def)
  from ts(2) have "\<exists>c. r = Inr c \<and> co_handles c = [] \<and> core.more c = [(Some 1, None), (Some 2, None), (Some 3, None)]"
    by (cases ts3) (simp_all add: 1 2 3 log_core_def core.defs log_run_def push_handle_def emplace_begin_def)
  with ts(1) show ?thesis by blast
qed

text \<open>
  \<open>block_on\<close> on an idle runtime: when the spawned coroutine runs to its end without waiting, it
  returns the value the coroutine stored and leaves the worker able to run again.
\<close>

lemma block_on_returns:
  assumes "spawn_impl f c = Inr c1" "co_handles c1 = [t]" "wk_handles (co_in_place c1) = []" "\<not> suspended None c1"
    and "fst (env 0) = (True, True)" "run t (c1\<lparr>co_handles := []\<rparr>) = Inr c2" "suspended None c2" "result (set_suspend False None c2) = Some v"
  shows "block_on run env tid f result c = Some (Inr (v, set_suspend False None c2)) \<and> \<not> suspended None (set_suspend False None c2)"
proof -
  have "resume_loop run None (Local_queue None) c1 = Some (Inr c1)"
    using assms(3,4) by (subst resume_loop.simps) (simp add: pop_back_def)
  moreover have "resume_loop run None Global_queue c1 = Some (Inr c2)"
    using assms(2,4,6,7) by (subst resume_loop.simps) (simp add: pop_back_def, subst resume_loop.simps, simp)
  ultimately have "run_loop_once run (fst (env 0)) (snd (env 0)) None tid c1 = Some (Inr c2)"
    using assms(4,5,7) by (simp add: run_loop_once_def resume_def option_then_def)
  then have "run_rounds run env None tid 0 c1 = Some (Inr c2)"
    using assms(4,7) by (subst run_rounds.simps) (simp, subst run_rounds.simps, simp)
  then show ?thesis using assms(1,8) by (simp add: block_on_def run_in_place_def option_then_def suspended_def set_suspend_def)
qed

section \<open>Waking and polling\<close>

text \<open>
  C19. Waking a batch. When the events are different and each has a living future, wake returns
  the batch emptied, puts one task per event in the global queue, in the order of the batch,
  and unbinds exactly these events. An event given twice in a batch is a null dereference.
\<close>

theorem wake_batch:
  assumes "distinct evs" "\<And>e. e \<in> set evs \<Longrightarrow> \<exists>p f. ev_future (co_heap c e) = Some p \<and> st_futures (co_store c) p = Some f"
  shows "(\<exists>c'. wake evs c = Inr ([], c') \<and> rev (co_handles c') = rev (co_handles c) @ map (task_of (co_heap c) (co_store c)) evs
      \<and> (\<forall>e. ev_future (co_heap c' e) = (if e \<in> set evs then None else ev_future (co_heap c e)) \<and> ev_extra (co_heap c' e) = ev_extra (co_heap c e)))
    \<and> (evs \<noteq> [] \<longrightarrow> wake (evs @ [last evs]) c = Inl Null_deref)"
proof -
  note w = wake_all [of evs c, OF assms(1), unfolded bound_def, OF assms(2)]
  let ?c = "c\<lparr>co_heap := unbind (set evs) (co_heap c),
    co_handles := rev (map (task_of (co_heap c) (co_store c)) evs) @ co_handles c\<rparr>"
  have "wake_one (last evs) ?c = Inl Null_deref" if "evs \<noteq> []"
    by (rule wake_one_unbound) (simp add: that)
  then show ?thesis using w by (auto simp: wake_def for_each_append)
qed

definition wake_core :: core where
  "wake_core = spawn_core\<lparr>co_heap := (\<lambda>_. \<lparr>ev_future = Some 1, ev_extra = None\<rparr>)\<rparr>"

theorem wake_batch_witness:
  "(\<exists>c'. wake [5, 6] wake_core = Inr ([], c') \<and> rev (co_handles c') = [(Some 10, Some 1), (Some 10, Some 1)])
    \<and> wake [5, 6, 6] wake_core = Inl Null_deref"
  using wake_batch [of "[5, 6]" wake_core]
  by (auto simp: wake_core_def spawn_core_def task_of_def get_handle_def fut_at_def fresh_fut_def)

text \<open>
  C15. One round of the driver. Let the registries of a thread satisfy their contracts, no event be
  tracked twice, and every tracked event be bound to a living future. Then a round
  that returns has moved events from the registries to the ready queue without losing, inventing or
  duplicating one: the queue grew by exactly the tasks of the events that left the registries, these
  are unbound, and the same conditions hold again. Waking never fails: a round that does not return was ended
  by the select of one of its registries, called in the state that the registries before it left.
\<close>

theorem driver_round:
  assumes "dr_local (co_driver c) tid = Some regs" "polled_ok (map snd regs) c"
  shows "case Driver_poll w tid c of
      Inr c' \<Rightarrow> polled_ok (map snd regs) c' \<and> (\<exists>evs. woken evs c c'
        \<and> tracked_all (map snd regs) (dr_objects (co_driver c)) = tracked_all (map snd regs) (dr_objects (co_driver c')) + mset evs)
    | Inl x \<Rightarrow> (\<exists>before k i after c1. regs = before @ (k, i) # after \<and> for_each (poll_registry w) before ([], c) = Inr ([], c1)
        \<and> polled_ok (map snd regs) c1 \<and> select_fails w i c1 x)"
proof (cases "for_each (poll_registry w) regs ([], c)")
  case (Inl x)
  then have "Driver_poll w tid c = Inl x" using assms(1) by (simp add: Driver_poll_def)
  moreover note polls_fail [OF assms(2) subset_refl Inl]
  ultimately show ?thesis by (simp only: sum.case)
next
  case (Inr y)
  obtain evs c' where y: "y = (evs, c')" by (cases y)
  have "Driver_poll w tid c = Inr c'" using assms(1) Inr y by (simp add: Driver_poll_def)
  moreover note polls_ok [OF assms(2) subset_refl Inr [unfolded y]]
  ultimately show ?thesis by (simp only: sum.case)
qed

text \<open>A thread with a blocking registry that holds one finished event.\<close>

definition poll_core :: core where
  "poll_core = spawn_core\<lparr>
     co_driver := (Driver [])\<lparr>dr_local := [0 \<mapsto> [(Blocking_class, 0)]],
       dr_objects := [Blocking_obj ((BlockingRegistry 1)\<lparr>br_events := [5]\<rparr>)]\<rparr>,
     co_heap := (\<lambda>_. \<lparr>ev_future = Some 1, ev_extra = Some (BlockingExtra (Fill_after 5 99) (Some 99))\<rparr>)\<rparr>"

definition quiet_world :: world where
  "quiet_world = \<lparr>wo_now = 0, wo_ctl = (\<lambda>_. (0, 0)), wo_epoll_wait = (\<lambda>_. \<lparr>wr_return = 0, wr_errno = 0, wr_buffer = []\<rparr>),
     wo_epoll_create = 3, wo_sqe = (True, True), wo_wait_cqe = (\<lambda>_. \<lparr>cq_return = -62, cq_ptr = False, cq_entries = []\<rparr>),
     wo_queue_init = 0, wo_stacktrace = []\<rparr>"

theorem driver_round_witness:
  "\<exists>c'. Driver_poll (\<lambda>_. quiet_world) 0 poll_core = Inr c' \<and> (\<exists>evs. woken evs poll_core c')"
proof -
  have "polled_ok (map snd [(Blocking_class, 0)]) poll_core"
    by (auto simp: polled_ok_def poll_core_def spawn_core_def Driver_def blocking_invar_def blocking_tracked_def bound_def)
  moreover have "\<exists>c'. Driver_poll (\<lambda>_. quiet_world) 0 poll_core = Inr c'"
    by (simp add: Driver_poll_def poll_core_def spawn_core_def Driver_def poll_registry_def lift_sel_def
        blocking_select_def after_extra_def wake_def wake_one_def get_handle_def fut_at_def)
  ultimately show ?thesis
    using driver_round [of poll_core 0 "[(Blocking_class, 0)]" "\<lambda>_. quiet_world"] by (auto simp: poll_core_def)
qed

section \<open>Launching\<close>

text \<open>
  Threads and registries. After two threads were added to a fresh driver, each of them
  finds a registry for every class the builder was given; both find the same one for the time,
  blocking and epoll registries, and different ones for io_uring.
\<close>

theorem registries_shared:
  assumes "add_thread w1 t1 (Driver inits) = Inr d1" "add_thread w2 t2 d1 = Inr d2" "t1 \<noteq> t2" "(cls, n) \<in> set inits"
  shows "\<exists>i j. lookup_registry d2 t1 cls = Some i \<and> lookup_registry d2 t2 cls = Some j
    \<and> i < length (dr_objects d2) \<and> j < length (dr_objects d2) \<and> (i = j \<longleftrightarrow> cls \<noteq> Uring_class)"
proof -
  have 1: "added (Driver inits) t1 (fst ` set inits) d1"
    using add_thread_added [OF assms(1)] by (simp add: Driver_def instances_ok_def)
  then have "instances_ok d1" "dr_initializers d1 = inits" by (simp_all add: added_def Driver_def)
  with add_thread_added [OF assms(2)] have 2: "added d1 t2 (fst ` set inits) d2" by simp
  have cls: "cls \<in> fst ` set inits" using assms(4) by force
  obtain i where i: "lookup_registry d1 t1 cls = Some i" "i < length (dr_objects d1)"
    "cls \<noteq> Uring_class \<longrightarrow> dr_instances d1 cls = Some i" using 1 cls by (auto simp: added_def split: if_splits)
  obtain j where j: "lookup_registry d2 t2 cls = Some j" "j < length (dr_objects d2)"
    "if cls = Uring_class then length (dr_objects d1) \<le> j else dr_instances d2 cls = Some j"
    using 2 cls by (auto simp: added_def)
  have "lookup_registry d2 t1 cls = Some i" using i(1) 2 assms(3) by (simp add: added_def lookup_registry_def)
  moreover have "i < length (dr_objects d2)" "cls \<noteq> Uring_class \<Longrightarrow> dr_instances d2 cls = Some i"
    using i 2 by (auto simp: added_def)
  ultimately show ?thesis using i j by (auto split: if_splits)
qed

theorem registries_shared_witness:
  "\<exists>d1 d2 i. add_thread quiet_world 1 (Driver [(Epoll_class, 4), (Uring_class, 4)]) = Inr d1
    \<and> add_thread quiet_world 2 d1 = Inr d2
    \<and> lookup_registry d2 1 Epoll_class = Some i \<and> lookup_registry d2 2 Epoll_class = Some i"
proof -
  define d1 where "d1 = projr (add_thread quiet_world 1 (Driver [(Epoll_class, 4), (Uring_class, 4)]))"
  define d2 where "d2 = projr (add_thread quiet_world 2 d1)"
  have a: "add_thread quiet_world 1 (Driver [(Epoll_class, 4), (Uring_class, 4)]) = Inr d1"
    by (simp add: d1_def add_thread_def Driver_def add_registry_def get_instance_def make_registry_def
        epoll_IoRegistry_def uring_IoRegistry_def quiet_world_def Let_def)
  have b: "add_thread quiet_world 2 d1 = Inr d2"
    by (simp add: d2_def d1_def add_thread_def Driver_def add_registry_def get_instance_def make_registry_def
        epoll_IoRegistry_def uring_IoRegistry_def quiet_world_def Let_def)
  show ?thesis using registries_shared [OF a b, of Epoll_class 4] a b by auto
qed

text \<open>
  C22. The launch barrier. Without spurious wakeups, no worker thread leaves init_in_thread before
  all of them have been added to the driver. With a spurious wakeup, which the condition
  variable allows and the code does not test for, one can leave while another has not yet been added.
\<close>

theorem launch_barrier:
  "(\<forall>n l i. launch_reach False n l \<and> i < length (la_pc l) \<and> la_pc l ! i = Launched \<longrightarrow>
      length (la_pc l) = unat n \<and> Not_arrived \<notin> set (la_pc l))
   \<and> (\<exists>l. launch_reach True 2 l \<and> la_pc l = [Launched, Not_arrived])"
proof (intro conjI allI impI)
  fix n l i
  assume "launch_reach False n l \<and> i < length (la_pc l) \<and> la_pc l ! i = Launched"
  then have ok: "launch_ok l" "la_worker_num l = n" and "Launched \<in> set (la_pc l)"
    using launch_reach_ok [of n l] by (auto simp: in_set_conv_nth)
  then have all: "arrived l = length (la_pc l)" by (simp add: launch_ok_def)
  show "length (la_pc l) = unat n" using ok by (simp add: launch_ok_def)
  show "Not_arrived \<notin> set (la_pc l)"
  proof
    assume "Not_arrived \<in> set (la_pc l)"
    then have "arrived l < length (la_pc l)" unfolding arrived_def by (rule length_filter_less) simp
    with all show False by simp
  qed
next
  let ?l0 = "\<lparr>la_worker_num = 2 :: 16 word, la_init_num = 0, la_pc = [Not_arrived, Not_arrived]\<rparr>"
  have "unat (2 :: 16 word) = Suc (Suc 0)" by simp
  then have "launch_reach True 2 ?l0"
    using launch_start [of True 2] by (simp only: replicate.simps)
  then have "launch_reach True 2 (init_in_thread 0 ?l0)"
    by (rule launch_next) (rule arrive, simp_all)
  moreover have "init_in_thread 0 ?l0 = ?l0\<lparr>la_init_num := 1, la_pc := [Cv_wait, Not_arrived]\<rparr>"
    by (simp add: init_in_thread_def)
  ultimately have "launch_reach True 2 (?l0\<lparr>la_init_num := 1, la_pc := [Cv_wait, Not_arrived]\<rparr>)" by simp
  then have "launch_reach True 2 (?l0\<lparr>la_init_num := 1, la_pc := [Cv_wait, Not_arrived]\<rparr>\<lparr>la_pc := [Cv_wait, Not_arrived][0 := Launched]\<rparr>)"
    by (rule launch_next) (use wake_up [of True 0 "?l0\<lparr>la_init_num := 1, la_pc := [Cv_wait, Not_arrived]\<rparr>"] in simp)
  then show "\<exists>l. launch_reach True 2 l \<and> la_pc l = [Launched, Not_arrived]" by (intro exI conjI) (assumption, simp)
qed

theorem launch_barrier_witness:
  "\<exists>l. launch_reach True 2 l \<and> la_pc l = [Launched, Not_arrived]"
  using launch_barrier by blast

end
