(* ===== verification/Net_Properties.thy ===== *)
theory Net_Properties
  imports Net_Uring Runtime_Properties
begin

text \<open>
  Properties of addresses, sockets and the futures of TCP streams, together with the registries
  and the driver they use.
\<close>

section \<open>Addresses and sockets\<close>

text \<open>
  Ports. The port of an address is the one it was made with, for IPv4 and IPv6. In the structure
  given to the system calls, where ports are in network byte order, an IPv4 address has that port; an
  IPv6 address has it with its bytes swapped, and so has the IPv4 address accept reports for a peer.
\<close>

theorem ports:
  "get_port (new_v4 a p) = p \<and> get_port (new_v6 b p) = p
   \<and> (case into_c_addr (new_v4 a p) of Inl inner \<Rightarrow> ntohs (sin_port inner) = p | Inr _ \<Rightarrow> False)
   \<and> (case into_c_addr (new_v6 b p) of Inl _ \<Rightarrow> False | Inr inner \<Rightarrow> ntohs (sin6_port inner) = htons p)
   \<and> (ntohs (sin_port peer) = p \<longrightarrow> get_port (new_v4 (sin_addr peer) (sin_port peer)) = htons p)"
proof -
  have same: "ntohs x = htons x" for x by (simp add: ntohs_def htons_def)
  have "htons (htons x) = x" for x using ntohs_htons [of x] by (simp only: same)
  then show ?thesis by (auto simp: new_v4_def new_v6_def same)
qed

theorem ports_witness:
  "get_port (new_v4 0 (sin_port \<lparr>sin_family = 2, sin_port = 0x5000, sin_addr = 0\<rparr>)) = 0x5000"
  using ports [of 0 80 0 "\<lparr>sin_family = 2, sin_port = 0x5000, sin_addr = 0\<rparr>"]
  by (simp add: ntohs_def htons_def)

text \<open>
  C26. Descriptors. Over every sequence of opening, moving and destroying sockets (assigning only to
  sockets that hold nothing), every open descriptor has exactly one owner, so the destructor
  of a socket always finds its descriptor open and closes it, once. Assigning to a socket
  that holds a descriptor loses it: it stays open without an owner.
\<close>

theorem descriptor_ownership:
  assumes "sockets_reach s"
  shows "(\<forall>fd \<in> sk_open s. \<exists>!p. owns s p = Some fd)
    \<and> (\<forall>p. sk_fd s p \<noteq> None \<longrightarrow> (\<exists>s'. Socket_dtor p s = Inr s' \<and> sk_open s' = sk_open s - set_option (owns s p)))
    \<and> (\<forall>p q fd s'. owns s p = Some fd \<and> p \<noteq> q \<and> Socket_move_assign p q s = Inr s' \<longrightarrow>
         fd \<in> sk_open s' \<and> (\<forall>r. owns s' r \<noteq> Some fd))"
proof -
  have o: "owned_once s" by (rule sockets_reach_owned [OF assms])
  have "\<exists>s'. Socket_dtor p s = Inr s' \<and> sk_open s' = sk_open s - set_option (owns s p)" if some: "sk_fd s p \<noteq> None" for p
  proof -
    obtain fd where fd: "sk_fd s p = Some fd" using some by auto
    have "fd \<in> sk_open s" if "fd \<noteq> -1"
      using o fd that by (auto simp: owned_once_def owns_fd intro!: exI [of _ p])
    then show ?thesis using fd by (cases "fd = -1") (auto simp: Socket_dtor_def into_c_fd_def owns_fd)
  qed
  moreover have "fd \<in> sk_open s' \<and> (\<forall>r. owns s' r \<noteq> Some fd)"
    if p: "owns s p = Some fd" and pq: "p \<noteq> q" and a: "Socket_move_assign p q s = Inr s'" for p q fd s'
  proof -
    have only: "owns s r = Some fd \<Longrightarrow> r = p" for r using o p unfolding owned_once_def by blast
    obtain f where q: "sk_fd s q = Some f" "s' = s\<lparr>sk_fd := (sk_fd s)(p \<mapsto> f, q \<mapsto> -1)\<rparr>"
      using a by (auto simp: Socket_move_assign_def into_c_fd_def split: option.splits)
    have "owns s q = fd_of (Some f)" using q(1) by (simp add: owns_fd)
    then have "fd_of (Some f) \<noteq> Some fd" using only [of q] pq by auto
    then have "owns s' r \<noteq> Some fd" for r
      using only [of r] q pq by (auto simp: owns_fd)
    moreover have "fd \<in> sk_open s'" using o p q(2) unfolding owned_once_def by auto
    ultimately show ?thesis by blast
  qed
  moreover have "\<exists>!p. owns s p = Some fd" if "fd \<in> sk_open s" for fd
    using o that unfolding owned_once_def by blast
  ultimately show ?thesis by blast
qed

definition two_sockets :: sockets where
  "two_sockets = \<lparr>sk_fd = [0 \<mapsto> 5, 1 \<mapsto> 6], sk_open = {5, 6}\<rparr>"

theorem descriptor_ownership_witness:
  "(\<exists>s'. Socket_dtor 0 two_sockets = Inr s' \<and> sk_open s' = {6})
    \<and> (\<exists>s'. Socket_move_assign 0 1 two_sockets = Inr s' \<and> 5 \<in> sk_open s' \<and> (\<forall>r. owns s' r \<noteq> Some 5))"
proof -
  have "sockets_reach (Socket 0 5 (\<lparr>sk_fd = \<lambda>_. None, sk_open = {}\<rparr>\<lparr>sk_open := insert 5 {}\<rparr>))"
    using sk_new [OF sk_start, of 0 5] by simp
  from sk_new [OF this, of 1 6] have "sockets_reach \<lparr>sk_fd = [0 \<mapsto> 5, 1 \<mapsto> 6], sk_open = {6, 5}\<rparr>"
    by (simp add: Socket_def)
  moreover have "{6, 5} = {5, 6 :: int}" by auto
  ultimately have r: "sockets_reach two_sockets" by (simp add: two_sockets_def)
  have "\<exists>s'. Socket_move_assign 0 1 two_sockets = Inr s'"
    by (simp add: Socket_move_assign_def into_c_fd_def two_sockets_def)
  moreover have "owns two_sockets 0 = Some 5" "sk_fd two_sockets 0 \<noteq> None" "sk_open two_sockets - {5} = {6}"
    by (auto simp: owns_def two_sockets_def)
  ultimately show ?thesis using descriptor_ownership [OF r] by (metis option.set(2) zero_neq_one)
qed

section \<open>Streams and the driver\<close>

text \<open>The registry of a class that a thread finds.\<close>

definition finds :: "thread_id \<Rightarrow> registry_class \<Rightarrow> nat \<Rightarrow> 'a core_scheme \<Rightarrow> bool" where
  "finds tid cls i c \<longleftrightarrow> i < length (dr_objects (co_driver c)) \<and>
     (\<exists>regs. dr_local (co_driver c) tid = Some regs \<and> map_of regs cls = Some i)"

lemma finds_put [simp]:
  "finds tid cls i (put_extra e x c) = finds tid cls i c" "finds tid cls i (put_future e f c) = finds tid cls i c"
  by (simp_all add: finds_def put_extra_def put_future_def)

lemma Driver_call_found:
  assumes "finds tid cls i c"
  shows "Driver_call op tid cls e c = and_then (op e (co_heap c, dr_objects (co_driver c) ! i)) (\<lambda>(r, h, R).
    case r of Inl err \<Rightarrow> Inl Bad_expected
    | Inr _ \<Rightarrow> Inr (c\<lparr>co_heap := h, co_driver := (co_driver c)\<lparr>dr_objects := (dr_objects (co_driver c))[i := R]\<rparr>\<rparr>))"
  using assms by (auto simp: finds_def Driver_call_def)

text \<open>An event is armed when the epoll registry holds it, for a future and an interest.\<close>

definition armed :: "nat \<Rightarrow> event_ptr \<Rightarrow> future_ptr \<Rightarrow> Interest \<Rightarrow> 'a core_scheme \<Rightarrow> bool" where
  "armed i e this interest c \<longleftrightarrow> (\<exists>s x. dr_objects (co_driver c) ! i = Epoll_obj s \<and> e \<in> set (er_registered s)
     \<and> ev_future (co_heap c e) = Some this \<and> ev_extra (co_heap c e) = Some (EpollExtra x)
     \<and> ep_interest x = interest \<and> get_field Registered (ep_state x))"

lemma Register_arms:
  assumes f: "finds tid Epoll_class i c" and o: "dr_objects (co_driver c) ! i = Epoll_obj s"
    and h: "ev_future (co_heap c e) = Some this" "ev_extra (co_heap c e) = Some (EpollExtra x)"
    and r: "Driver_Register w tid Epoll_class e c = Inr c'"
  shows "armed i e this (ep_interest x) c'"
proof -
  from r obtain res h' R where 1: "Registry_Register w e (co_heap c, Epoll_obj s) = Inr (res, h', R)"
    and 2: "(case res of Inl err \<Rightarrow> Inl Bad_expected | Inr _ \<Rightarrow>
      Inr (c\<lparr>co_heap := h', co_driver := (co_driver c)\<lparr>dr_objects := (dr_objects (co_driver c))[i := R]\<rparr>\<rparr>)) = Inr c'"
    unfolding Driver_Register_def Driver_call_found [OF f] o by (auto simp: outcome_simps simp del: Registry_Register.simps)
  from 1 obtain s' where reg: "epoll_Register (wo_ctl w) e (co_heap c, s) = Inr (res, h', s')" and R: "R = Epoll_obj s'"
    by (auto simp: lift_reg_Inr)
  have c': "res = Inr ()" "c' = c\<lparr>co_heap := h', co_driver := (co_driver c)\<lparr>dr_objects := (dr_objects (co_driver c))[i := R]\<rparr>\<rparr>"
    using 2 by (cases res; simp)+
  obtain x' where "as_epoll (ev_extra (co_heap c e)) = Some x'"
    "h' = set_extra e (EpollExtra (x'\<lparr>ep_state := set_field 1 True (ep_state x')\<rparr>)) (co_heap c)"
    "er_registered s' = er_registered s @ [e]"
    using c'(1) by (cases rule: epoll_Register_cases [OF reg]) simp
  then show ?thesis using h f by (auto simp: armed_def c'(2) R finds_def)
qed

lemma reregister_arms:
  assumes f: "finds tid Epoll_class i c" and o: "dr_objects (co_driver c) ! i = Epoll_obj s"
    and h: "ev_future (co_heap c e) = Some this" "ev_extra (co_heap c e) = Some (EpollExtra x)" "get_field 1 (ep_state x)"
    and r: "Driver_reregister w tid Epoll_class e c = Inr c'"
  shows "armed i e this (ep_interest x) c'"
proof -
  from r obtain res h' R where 1: "Registry_reregister w e (co_heap c, Epoll_obj s) = Inr (res, h', R)"
    and 2: "(case res of Inl err \<Rightarrow> Inl Bad_expected | Inr _ \<Rightarrow>
      Inr (c\<lparr>co_heap := h', co_driver := (co_driver c)\<lparr>dr_objects := (dr_objects (co_driver c))[i := R]\<rparr>\<rparr>)) = Inr c'"
    unfolding Driver_reregister_def Driver_call_found [OF f] o by (auto simp: outcome_simps simp del: Registry_reregister.simps)
  from 1 obtain s' where reg: "epoll_reregister (wo_ctl w) e (co_heap c, s) = Inr (res, h', s')" and R: "R = Epoll_obj s'"
    by (auto simp: lift_reg_Inr)
  have c': "res = Inr ()" "c' = c\<lparr>co_heap := h', co_driver := (co_driver c)\<lparr>dr_objects := (dr_objects (co_driver c))[i := R]\<rparr>\<rparr>"
    using 2 by (cases res; simp)+
  have "h' = co_heap c \<and> er_registered s' = er_registered s @ [e]"
    using reg c'(1) h(2) by (auto simp: epoll_reregister_def Let_def outcome_simps split: prod.splits sum.splits)
  then show ?thesis using h f by (auto simp: armed_def c'(2) R finds_def)
qed

text \<open>
  C23. A pending stream is not forgotten. Whenever poll of the future of read or write answers
  Pending, the event of the stream is with the epoll registry of the thread, for the interest of the
  operation, marked Registered and bound to this future, so that the next readiness
  report wakes it.
\<close>

theorem pending_means_armed:
  assumes "finds tid Epoll_class i c" "dr_objects (co_driver c) ! i = Epoll_obj s"
  shows "(epoll_read_poll w tid rd this self c = Inr (None, c') \<longrightarrow> armed i (tcp_event self) this Interest_Read c')
    \<and> (epoll_write_poll w tid wr this self c = Inr (None, c') \<longrightarrow> armed i (tcp_event self) this Interest_Write c')"
proof -
  let ?e = "tcp_event self"
  have *: "armed i ?e this interest c'"
    if "as_epoll (ev_extra (co_heap c ?e)) = Some x"
      "Driver_Register w tid Epoll_class ?e (put_extra ?e (EpollExtra (x\<lparr>ep_interest := interest\<rparr>)) (put_future ?e (Some this) c)) = Inr c'
       \<or> get_field 1 (ep_state x) \<and>
         Driver_reregister w tid Epoll_class ?e (put_extra ?e (EpollExtra (x\<lparr>ep_interest := interest\<rparr>)) (put_future ?e (Some this) c)) = Inr c'"
    for x interest
    using that(2) assms
      Register_arms [of tid i "put_extra ?e (EpollExtra (x\<lparr>ep_interest := interest\<rparr>)) (put_future ?e (Some this) c)" s ?e this "x\<lparr>ep_interest := interest\<rparr>" w c']
      reregister_arms [of tid i "put_extra ?e (EpollExtra (x\<lparr>ep_interest := interest\<rparr>)) (put_future ?e (Some this) c)" s ?e this "x\<lparr>ep_interest := interest\<rparr>" w c']
    by (auto simp: put_extra_def put_future_def finds_def)
  have "armed i ?e this Interest_Read c'" if "epoll_read_poll w tid rd this self c = Inr (None, c')"
    using that * [of _ Interest_Read]
    by (auto simp: epoll_read_poll_def epoll_extra_at_def outcome_simps Let_def split: option.splits if_splits prod.splits)
  moreover have "armed i ?e this Interest_Write c'" if "epoll_write_poll w tid wr this self c = Inr (None, c')"
    using that * [of _ Interest_Write]
    by (auto simp: epoll_write_poll_def epoll_extra_at_def outcome_simps Let_def split: option.splits if_splits prod.splits)
  ultimately show ?thesis by blast
qed

text \<open>A thread with an epoll registry, an io_uring registry and the future 1 of a stream with event 5.\<close>

definition net_core :: core where
  "net_core = spawn_core\<lparr>
     co_driver := (Driver [])\<lparr>dr_local := [0 \<mapsto> [(Epoll_class, 0), (Uring_class, 1)]],
       dr_objects := [Epoll_obj \<lparr>er_epfd = 3, er_registered = []\<rparr>, Uring_obj \<lparr>ui_registered = [], ui_calls = []\<rparr>]\<rparr>\<rparr>"

definition net_stream :: "tcp \<times> core" where
  "net_stream = epoll_TcpStream 5 9 False False net_core"

lemma net_core_finds: "finds 0 Epoll_class 0 net_core" "finds 0 Uring_class 1 net_core"
  by (simp_all add: finds_def net_core_def)

lemma net_stream_simps [simp]:
  "fst net_stream = \<lparr>tcp_fd = 9, tcp_event = 5\<rparr>" "co_driver (snd net_stream) = co_driver net_core"
  "co_heap (snd net_stream) 5 = \<lparr>ev_future = None, ev_extra = Some (EpollExtra (epoll_IoExtra Interest_All 9))\<rparr>"
  by (simp_all add: net_stream_def epoll_TcpStream_def epoll_IoExtra_def)

theorem pending_means_armed_witness:
  "\<exists>c'. epoll_read_poll quiet_world 0 (\<lambda>_. (-1, 11)) 1 (fst net_stream) (snd net_stream) = Inr (None, c')
    \<and> armed 0 5 1 Interest_Read c'"
proof -
  have f: "finds 0 Epoll_class 0 (snd net_stream)" using net_core_finds(1) by (simp add: finds_def)
  have o: "dr_objects (co_driver (snd net_stream)) ! 0 = Epoll_obj \<lparr>er_epfd = 3, er_registered = []\<rparr>"
    by (simp add: net_core_def)
  have "\<exists>c'. epoll_read_poll quiet_world 0 (\<lambda>_. (-1, 11)) 1 (fst net_stream) (snd net_stream) = Inr (None, c')"
    using f o by (simp add: epoll_read_poll_def epoll_extra_at_def epoll_IoExtra_def get_field_def Driver_Register_def
        Driver_call_found [where i = 0] put_extra_def put_future_def finds_def lift_reg_def epoll_Register_def quiet_world_def
        into_sys_result_def)
  then show ?thesis
    using pending_means_armed [OF f o, of quiet_world "\<lambda>_. (-1, 11)" 1 "fst net_stream"] by auto
qed

text \<open>
  Writing when the socket is full. Once the stream was reported writable, the flag is never
  cleared: a write leaves the core as it is, also when the kernel answers that it would block. This answer
  is handed to the caller as an error, where read waits for readiness.
\<close>

theorem write_would_block_fails:
  assumes "ev_extra (co_heap c (tcp_event self)) = Some (EpollExtra x)" "get_field Registered (ep_state x)"
    and "get_field Writable (ep_state x)"
  shows "epoll_write_poll w tid wr this self c = Inr (Some (into_sys_result (snd (wr (tcp_fd self))) (fst (wr (tcp_fd self)))), c)
    \<and> (wr (tcp_fd self) = (-1, EAGAIN) \<longrightarrow>
         epoll_write_poll w tid wr this self c = Inr (Some (Inl \<lparr>err_no = EAGAIN, err_info = []\<rparr>), c))"
  using assms
  by (auto simp: epoll_write_poll_def epoll_extra_at_def from_sys_error_def into_sys_result_def split: prod.splits)

theorem write_would_block_fails_witness:
  "epoll_write_poll quiet_world 0 (\<lambda>_. (-1, 11)) 1 (fst net_stream)
     (put_extra 5 (EpollExtra ((epoll_IoExtra Interest_All 9)\<lparr>ep_state := 9\<rparr>)) (snd net_stream))
   = Inr (Some (Inl \<lparr>err_no = 11, err_info = []\<rparr>),
       put_extra 5 (EpollExtra ((epoll_IoExtra Interest_All 9)\<lparr>ep_state := 9\<rparr>)) (snd net_stream))"
  using write_would_block_fails [of "put_extra 5 (EpollExtra ((epoll_IoExtra Interest_All 9)\<lparr>ep_state := 9\<rparr>)) (snd net_stream)"
      "fst net_stream" "(epoll_IoExtra Interest_All 9)\<lparr>ep_state := 9\<rparr>" quiet_world 0 "\<lambda>_. (-1, 11)" 1]
  by (simp add: put_extra_def get_field_def into_sys_result_def from_sys_error_def)

section \<open>An io_uring operation from start to end\<close>

text \<open>The three parts: the first poll submits, the driver's round completes, the second poll takes the result.\<close>

lemma uring_poll_submits:
  assumes f: "finds tid Uring_class i c" and o: "dr_objects (co_driver c) ! i = Uring_obj s"
    and x: "ev_extra (co_heap c e) = Some (UringExtra x)" "\<not> get_field 2 (ur_state x)" "\<not> get_field 1 (ur_state x)"
    and keep: "ur_state (args x) = ur_state x" and q: "fst (wo_sqe w)"
  shows "uring_poll w tid args finish this e c = Inr (None,
    c\<lparr>co_heap := set_extra e (UringExtra ((args x)\<lparr>ur_state := set_field 1 True (ur_state x)\<rparr>)) (set_future e (Some this) (co_heap c)),
      co_driver := (co_driver c)\<lparr>dr_objects := (dr_objects (co_driver c))[i :=
        Uring_obj (log_calls [Get_sqe True, Prep (prep_op (ur_fd (args x)) (ur_args (args x))), Set_data e, Submit]
          (s\<lparr>ui_registered := ui_registered s @ [e]\<rparr>))]\<rparr>\<rparr>)"
proof -
  let ?c = "put_extra e (UringExtra (args x)) (put_future e (Some this) c)"
  have f': "finds tid Uring_class i ?c" using f by simp
  obtain q2 where sqe: "wo_sqe w = (True, q2)" using q by (cases "wo_sqe w") auto
  have twice: "set_extra e a (set_extra e b h) = set_extra e a h" for a b h by (simp add: set_extra_def)
  have "uring_Register (wo_sqe w) e (co_heap ?c, s) = Inr (Inr (),
      set_extra e (UringExtra ((args x)\<lparr>ur_state := set_field 1 True (ur_state x)\<rparr>)) (co_heap ?c),
      log_calls [Get_sqe True, Prep (prep_op (ur_fd (args x)) (ur_args (args x))), Set_data e, Submit]
        (s\<lparr>ui_registered := ui_registered s @ [e]\<rparr>))"
    using x(3) keep by (simp add: sqe uring_Register_def put_extra_def put_future_def log_calls_def)
  then have "Driver_Register w tid Uring_class e ?c = Inr (?c\<lparr>co_heap :=
      set_extra e (UringExtra ((args x)\<lparr>ur_state := set_field 1 True (ur_state x)\<rparr>)) (co_heap ?c),
      co_driver := (co_driver c)\<lparr>dr_objects := (dr_objects (co_driver c))[i :=
        Uring_obj (log_calls [Get_sqe True, Prep (prep_op (ur_fd (args x)) (ur_args (args x))), Set_data e, Submit]
          (s\<lparr>ui_registered := ui_registered s @ [e]\<rparr>))]\<rparr>\<rparr>)"
    unfolding Driver_Register_def Driver_call_found [OF f'] using o
    by (simp add: lift_reg_def put_extra_def put_future_def)
  then show ?thesis
    using x(1,2) by (simp add: uring_poll_def uring_extra_at_def put_extra_def put_future_def twice)
qed

lemma uring_round_completes:
  assumes o: "dr_objects (co_driver c) ! i = Uring_obj s" "e \<in> set (ui_registered s)"
    and x: "ev_extra (co_heap c e) = Some (UringExtra x)" "ev_future (co_heap c e) = Some this"
    and f: "st_futures (co_store c) this = Some f"
    and cq: "wo_wait_cqe (w i) (to_timespec 2) = \<lparr>cq_return = 0, cq_ptr = True, cq_entries = [(Some e, res)]\<rparr>"
  shows "\<exists>c'. poll_registry w (Uring_class, i) ([], c) = Inr ([], c')
    \<and> co_handles c' = (if fu_self f = None then fu_waiting f else fu_self f, Some this) # co_handles c
    \<and> ev_extra (co_heap c' e) = Some (UringExtra (x\<lparr>ur_return := res, ur_state := set_field 1 False (set_field 2 True (ur_state x))\<rparr>))
    \<and> ev_future (co_heap c' e) = None
    \<and> (i < length (dr_objects (co_driver c)) \<longrightarrow>
        (\<exists>s'. dr_objects (co_driver c') ! i = Uring_obj s' \<and> ui_calls s' = ui_calls s @ [Cq_advance 1]))"
  using assms
  by (simp add: poll_registry_def lift_sel_def uring_select_def uring_take_def wake_def wake_one_def get_handle_def
      fut_at_def push_handle_def emplace_begin_def)

lemma uring_poll_takes:
  assumes "ev_extra (co_heap c e) = Some (UringExtra x)" "get_field 2 (ur_state x)"
  shows "\<exists>c'. uring_poll w tid args (\<lambda>ret c. (g ret, c)) this e c = Inr (Some (g (ur_return x)), c')
    \<and> (\<exists>y. ev_extra (co_heap c' e) = Some (UringExtra y) \<and> \<not> get_field 2 (ur_state y))
    \<and> co_driver c' = co_driver c \<and> co_handles c' = co_handles c"
  using assms by (auto simp: uring_poll_def uring_extra_at_def put_extra_def)

end
