(* ===== verification/Time_Sleep.thy ===== *)
theory Time_Sleep
  imports Time_Properties Net_Properties
begin

text \<open>
  Sleeping on a runtime (\<open>include/xyco/time/sleep.ccm\<close>): the future's constructor, and its
  \<open>poll\<close> on the core, where it finds the time registry through the driver. One theorem follows a sleep through
  the future, the driver, the registry, the wheel and the ready queue.
\<close>

section \<open>Definitions\<close>

definition new_TimeExtra :: "int \<Rightarrow> extra" where
  "new_TimeExtra expire_time = TimeExtra expire_time"

text \<open>The duration is in milliseconds; until the first poll the expiry time is \<open>time_point::min()\<close>.\<close>

definition SleepFuture :: "event_ptr \<Rightarrow> int \<Rightarrow> 'a core_scheme \<Rightarrow> sleep_future \<times> 'a core_scheme" where
  "SleepFuture e duration c =
     (\<lparr>sl_ready = False, sl_duration = duration, sl_event = e\<rparr>,
      c\<lparr>co_heap := (co_heap c)(e := \<lparr>ev_future = None, ev_extra = Some (new_TimeExtra (- (2 ^ 63)))\<rparr>)\<rparr>)"

definition sleep_poll_core ::
  "world \<Rightarrow> thread_id \<Rightarrow> future_ptr \<Rightarrow> sleep_future \<Rightarrow> 'a core_scheme \<Rightarrow> (bool \<times> sleep_future \<times> 'a core_scheme) outcome" where
  "sleep_poll_core w tid this f c =
     (if \<not> sl_ready f
      then (let f = f\<lparr>sl_ready := True\<rparr>;
                e = sl_event f
            in case as_time (ev_extra (co_heap c e)) of
                 None \<Rightarrow> Inl Null_deref
               | Some _ \<Rightarrow>
                   and_then (Driver_Register w tid Time_class e
                     (put_future e (Some this) (put_extra e (TimeExtra (wo_now w + ticks_per_ms * sl_duration f)) c)))
                     (\<lambda>c. Inr (False, f, c)))
      else Inr (True, f, c))"

section \<open>The registry behind the driver\<close>

text \<open>The poll on the core is the one on the registry that the thread finds.\<close>

lemma sleep_poll_core_registry:
  assumes "finds tid Time_class i c" "dr_objects (co_driver c) ! i = Time_obj s"
  shows "sleep_poll_core w tid this f c = and_then (sleep_poll (wo_now w) this (f, co_heap c, s)) (\<lambda>(r, f', h, s').
    Inr (r, f', if sl_ready f then c else c\<lparr>co_heap := h,
      co_driver := (co_driver c)\<lparr>dr_objects := (dr_objects (co_driver c))[i := Time_obj s']\<rparr>\<rparr>))"
proof (cases "sl_ready f")
  case True
  then show ?thesis by (simp add: sleep_poll_core_def sleep_poll_def)
next
  case False
  have f: "finds tid Time_class i (c\<lparr>co_heap := h\<rparr>)" for h using assms(1) by (simp add: finds_def)
  show ?thesis
  proof (cases "as_time (ev_extra (co_heap c (sl_event f)))")
    case None
    with False show ?thesis by (simp add: sleep_poll_core_def sleep_poll_def)
  next
    case (Some t)
    let ?e = "sl_event f"
    let ?c = "put_future ?e (Some this) (put_extra ?e (TimeExtra (wo_now w + ticks_per_ms * sl_duration f)) c)"
    have c: "co_driver ?c = co_driver c" by (simp add: put_future_def put_extra_def)
    show ?thesis
      using False Some assms(2)
      by (cases "insert_event (co_heap ?c) ?e s")
        (simp_all add: sleep_poll_core_def sleep_poll_def Driver_Register_def Driver_call_found [OF f] lift_reg_def TimeRegistry_Register_def
          put_future_def put_extra_def Let_def)
  qed
qed

text \<open>
  A reading of the clock on any wheel in order, whose slots lag by \<open>base w - b\<close> behind the clock because
  of the fractions of milliseconds that earlier readings dropped.
\<close>

lemma expire_within:
  assumes inv: "wheel_inv h b {} w" and t: "wh_now w < t" "t < base w + 1000 * 60 ^ 5"
  shows "\<exists>w' new. expire h t ev w = Inr (w', ev @ new) \<and> mset new \<subseteq># contents w
    \<and> (\<forall>e \<in> set new. expiry h e < t + 1000)
    \<and> (\<forall>e \<in># contents w. expiry h e + (base w - b) \<le> t \<longrightarrow> e \<in> set new)
    \<and> (base w = b \<and> 1000 dvd (t - b) \<longrightarrow> mset new = {#e \<in># contents w. expiry h e < t + 1000#})"
proof -
  have "base w \<le> wh_now w" using shape_pos [OF wheel_inv_shape [OF inv]] by (simp add: base_def)
  then have el: "elapsed_ms w t = (t - wh_now w) div 1000" by (rule elapsed_ms_span [OF _ t])
  have reach: "t < base w + 1000 * (pos w + elapsed_ms w t + 1)" "base w + 1000 * (pos w + elapsed_ms w t) \<le> t"
    using el mult_div_mod_eq [of 1000 "t - wh_now w"] pos_mod_bound [of 1000 "t - wh_now w"] pos_mod_sign [of 1000 "t - wh_now w"]
    by (auto simp: base_def)
  with t(2) have "pos w + elapsed_ms w t < 60 ^ 5" by simp
  from expire_inv [OF inv t(1) this, of ev] obtain w' new where *: "expire h t ev w = Inr (w', ev @ new)"
    "pos w' = pos w + elapsed_ms w t" "contents w = contents w' + mset new" "\<forall>e \<in> set new. expiry h e < t + 1000"
    "\<forall>e \<in># contents w'. b + 1000 * (pos w' + 1) \<le> expiry h e"
    by (force simp: expiry_def)
  have "e \<in> set new" if "e \<in># contents w" "expiry h e + (base w - b) \<le> t" for e
  proof (rule ccontr)
    assume "e \<notin> set new"
    with that(1) *(3) have "e \<in># contents w'" by simp
    with *(2,5) have "b + 1000 * (pos w + elapsed_ms w t + 1) \<le> expiry h e" by auto
    with that(2) reach(1) show False by simp
  qed
  moreover have "mset new = {#e \<in># contents w. expiry h e < t + 1000#}" if "base w = b \<and> 1000 dvd (t - b)"
  proof -
    have "wheel_at h b w" using inv that by (simp add: wheel_at_def)
    from expire_at_exact [OF this _ _ t(1), of ev] that t(2) *(1) show ?thesis by auto
  qed
  moreover have "mset new \<subseteq># contents w" using *(3) by simp
  ultimately show ?thesis using *(1,4) by (intro exI [of _ w'] exI [of _ new] conjI ballI impI) blast+
qed

lemma due_within:
  assumes "wheel_inv h b {} w" "t < base w + 1000 * 60 ^ 5"
  shows "due w t < 60 ^ 5"
  using due_bounds(2) [of w t] shape_pos [OF wheel_inv_shape [OF assms(1)]] assms(2) by (cases "due w t = pos w") auto

text \<open>A round of the driver queues the coroutines of the timers that the reading took out.\<close>

lemma time_round:
  assumes "dr_objects (co_driver c) ! i = Time_obj s" "wheel_inv (co_heap c) b {} s"
    and "\<And>e. count (contents s) e \<le> 1" "\<And>e. e \<in># contents s \<Longrightarrow> bound (co_heap c) (co_store c) e"
    and "wo_now (w i) < base s + 1000 * 60 ^ 5" "wh_now s < wo_now (w i)"
  shows "\<exists>new c'. poll_registry w (Time_class, i) ([], c) = Inr ([], c') \<and> mset new \<subseteq># contents s
    \<and> (\<forall>e \<in> set new. expiry (co_heap c) e < wo_now (w i) + 1000)
    \<and> (\<forall>e \<in># contents s. expiry (co_heap c) e + (base s - b) \<le> wo_now (w i) \<longrightarrow> e \<in> set new)
    \<and> (base s = b \<and> 1000 dvd (wo_now (w i) - b) \<longrightarrow> mset new = {#e \<in># contents s. expiry (co_heap c) e < wo_now (w i) + 1000#})
    \<and> co_handles c' = rev (map (task_of (co_heap c) (co_store c)) new) @ co_handles c"
proof -
  from expire_within [OF assms(2,6,5), of "[]"] obtain s' new where
    *: "expire (co_heap c) (wo_now (w i)) [] s = Inr (s', new)" "mset new \<subseteq># contents s"
      "\<forall>e \<in> set new. expiry (co_heap c) e < wo_now (w i) + 1000"
      "\<forall>e \<in># contents s. expiry (co_heap c) e + (base s - b) \<le> wo_now (w i) \<longrightarrow> e \<in> set new"
      "base s = b \<and> 1000 dvd (wo_now (w i) - b) \<longrightarrow> mset new = {#e \<in># contents s. expiry (co_heap c) e < wo_now (w i) + 1000#}"
    by auto
  let ?d = "(co_driver c)\<lparr>dr_objects := (dr_objects (co_driver c))[i := Time_obj s']\<rparr>"
  let ?c = "c\<lparr>co_driver := ?d\<rparr>"
  have "count (mset new) e \<le> 1" for e using assms(3) [of e] mset_subset_eq_count [OF *(2), of e] by simp
  then have dist: "distinct new" by (metis count_mset_0_iff distinct_count_atmost_1 le_Suc_eq le_zero_eq One_nat_def)
  have "e \<in># contents s" if "e \<in> set new" for e
    using that *(2) by (metis mset_subset_eqD set_mset_mset)
  then have "bound (co_heap ?c) (co_store ?c) e" if "e \<in> set new" for e using assms(4) that by simp
  from wake_all [OF dist this] have "wake new ?c = Inr ([], ?c\<lparr>co_heap := unbind (set new) (co_heap c),
      co_handles := rev (map (task_of (co_heap c) (co_store c)) new) @ co_handles c\<rparr>)" by (simp add: wake_def)
  moreover have "poll_registry w (Time_class, i) ([], c) = wake new ?c"
    using *(1) assms(1) by (simp add: poll_registry_def lift_sel_def TimeRegistry_select_def)
  ultimately show ?thesis using *(2-5) by (intro exI [of _ new]) simp
qed

section \<open>Sleeping, from end to end\<close>

text \<open>
  C4. A sleep on a runtime, on any time registry in order: \<open>b\<close> is where its slots began, and \<open>base s - b\<close> the
  sum of the fractions of milliseconds that its readings have dropped so far. The first poll of the future is
  pending and puts its event into the wheel. In the next round of the driver, at any later reading of the
  clock within the span of the wheel, coroutines are queued for the sleep and for other timers, each at
  most once, and never one whose expiry is a millisecond or more ahead of the reading; and the coroutine
  of the sleep, and that of every other timer, is queued if its expiry lies by the dropped sum or more behind the
  reading. When nothing was dropped and the reading is at a whole millisecond, those queued are exactly those that expire
  within the millisecond of the reading. Polled again, the future is ready.
\<close>

theorem sleep_end_to_end:
  assumes f: "finds tid Time_class i c" and o: "dr_objects (co_driver c) ! i = Time_obj s" and inv: "wheel_inv (co_heap c) b {} s"
    and fut: "st_futures (co_store c) this = Some fu" and e: "e \<notin># contents s"
    and one: "\<forall>e. count (contents s) e \<le> 1" and bd: "\<forall>e \<in># contents s. bound (co_heap c) (co_store c) e"
    and due: "wo_now w + 1000 * duration < base s + 1000 * 60 ^ 5"
    and rd: "wo_now (w' i) < base s + 1000 * 60 ^ 5" "wh_now s < wo_now (w' i)"
  shows "\<exists>f1 c1 new c2 ends. sleep_poll_core w tid this (fst (SleepFuture e duration c)) (snd (SleepFuture e duration c)) = Inr (False, f1, c1)
    \<and> poll_registry w' (Time_class, i) ([], c1) = Inr ([], c2)
    \<and> co_handles c2 = rev (map (task_of (co_heap c1) (co_store c)) new) @ co_handles c
    \<and> task_of (co_heap c1) (co_store c) e = (if fu_self fu = None then fu_waiting fu else fu_self fu, Some this)
    \<and> ends = (expiry (co_heap c))(e := wo_now w + 1000 * duration)
    \<and> distinct new \<and> mset new \<subseteq># add_mset e (contents s)
    \<and> (\<forall>x \<in> set new. ends x < wo_now (w' i) + 1000)
    \<and> (\<forall>x \<in># add_mset e (contents s). ends x + (base s - b) \<le> wo_now (w' i) \<longrightarrow> x \<in> set new)
    \<and> (base s = b \<and> 1000 dvd (wo_now (w' i) - b) \<longrightarrow> mset new = {#x \<in># add_mset e (contents s). ends x < wo_now (w' i) + 1000#})
    \<and> sleep_poll_core w2 tid this f1 c2 = Inr (True, f1, c2)"
proof -
  let ?t = "wo_now w + 1000 * duration" let ?ends = "(expiry (co_heap c))(e := ?t)"
  let ?c0 = "snd (SleepFuture e duration c)" and ?f = "\<lparr>sl_ready = False, sl_duration = duration, sl_event = e\<rparr>"
  define h where "h = set_future e (Some this) (set_extra e (TimeExtra ?t) (co_heap ?c0))"
  have other: "h x = co_heap c x" if "x \<noteq> e" for x using that by (simp add: h_def SleepFuture_def set_future_def set_extra_def)
  have mine: "ev_future (h e) = Some this" "ev_extra (h e) = Some (TimeExtra ?t)" by (simp_all add: h_def)
  have inv': "wheel_inv h b {} s" using wheel_inv_local [OF inv, of h] e other by metis
  from insert_event_inv [where h = h and e = e and t = ?t, OF inv' _ due_within [OF inv' due]] mine(2) obtain s1 where
    s1: "insert_event h e s = Inr s1" "wheel_inv h b {} s1" "wh_now s1 = wh_now s" "pos s1 = pos s" "contents s1 = add_mset e (contents s)" by auto
  have base: "base s1 = base s" using s1(3,4) by (simp add: base_def)
  define c1 where "c1 = ?c0\<lparr>co_heap := h, co_driver := (co_driver ?c0)\<lparr>dr_objects := (dr_objects (co_driver ?c0))[i := Time_obj s1]\<rparr>\<rparr>"
  have f0: "finds tid Time_class i ?c0" "dr_objects (co_driver ?c0) ! i = Time_obj s" using f o by (simp_all add: SleepFuture_def finds_def)
  have poll1: "sleep_poll_core w tid this ?f ?c0 = Inr (False, ?f\<lparr>sl_ready := True\<rparr>, c1)"
    unfolding sleep_poll_core_registry [OF f0] using s1(1)
    by (simp add: sleep_poll_def TimeRegistry_Register_def Let_def c1_def h_def SleepFuture_def new_TimeExtra_def)
  have c1: "co_heap c1 = h" "co_store c1 = co_store c" "co_handles c1 = co_handles c" "dr_objects (co_driver c1) ! i = Time_obj s1"
    using f by (simp_all add: c1_def SleepFuture_def finds_def)
  have once: "count (contents s1) x \<le> 1" for x using one [rule_format, of x] e s1(5) by (cases "x = e") (auto simp: not_in_iff)
  have bound: "bound (co_heap c1) (co_store c1) x" if "x \<in># contents s1" for x
    using that bd [rule_format, of x] other [of x] mine fut s1(5) c1 by (cases "x = e") (auto simp: bound_def)
  have ends: "expiry h = ?ends" using mine other by (auto simp: fun_eq_iff expiry_def)
  have inv1: "wheel_inv (co_heap c1) b {} s1" using s1(2) c1(1) by simp
  from time_round [where w = w', OF c1(4) inv1 once bound] rd obtain new c2 where round: "poll_registry w' (Time_class, i) ([], c1) = Inr ([], c2)"
      "mset new \<subseteq># add_mset e (contents s)" "\<forall>x \<in> set new. ?ends x < wo_now (w' i) + 1000"
      "\<forall>x \<in># add_mset e (contents s). ?ends x + (base s - b) \<le> wo_now (w' i) \<longrightarrow> x \<in> set new"
      "base s = b \<and> 1000 dvd (wo_now (w' i) - b) \<longrightarrow> mset new = {#x \<in># add_mset e (contents s). ?ends x < wo_now (w' i) + 1000#}"
      "co_handles c2 = rev (map (task_of h (co_store c)) new) @ co_handles c"
    unfolding s1(3,5) base c1(1-3) ends by blast
  have "count (mset new) x \<le> 1" for x using once [of x] mset_subset_eq_count [OF round(2), of x] s1(5) by simp
  then have "distinct new" by (metis count_mset_0_iff distinct_count_atmost_1 le_Suc_eq le_zero_eq One_nat_def)
  moreover have "task_of h (co_store c) e = (if fu_self fu = None then fu_waiting fu else fu_self fu, Some this)"
    using mine(1) fut by (simp add: task_of_def get_handle_def fut_at_def)
  moreover have "sleep_poll_core w2 tid this (?f\<lparr>sl_ready := True\<rparr>) c2 = Inr (True, ?f\<lparr>sl_ready := True\<rparr>, c2)"
    by (simp add: sleep_poll_core_def)
  moreover have "fst (SleepFuture e duration c) = ?f" by (simp add: SleepFuture_def)
  ultimately show ?thesis using poll1 round c1(1)
    by (intro exI [of _ "?f\<lparr>sl_ready := True\<rparr>"] exI [of _ c1] exI [of _ new] exI [of _ c2] exI [of _ ?ends] conjI) simp_all
qed

definition sleep_core :: core where
  "sleep_core = spawn_core\<lparr>co_driver := (Driver [])\<lparr>dr_local := [0 \<mapsto> [(Time_class, 0)]], dr_objects := [Time_obj (Wheel 0)]\<rparr>\<rparr>"

theorem sleep_end_to_end_witness:
  "\<exists>f1 c1 c2. sleep_poll_core quiet_world 0 1 (fst (SleepFuture 9 5 sleep_core)) (snd (SleepFuture 9 5 sleep_core)) = Inr (False, f1, c1)
    \<and> poll_registry (\<lambda>_. quiet_world\<lparr>wo_now := 5300\<rparr>) (Time_class, 0) ([], c1) = Inr ([], c2)
    \<and> co_handles c2 = [(Some 10, Some 1)]
    \<and> sleep_poll_core quiet_world 0 1 f1 c2 = Inr (True, f1, c2)"
proof -
  have s: "finds 0 Time_class 0 sleep_core" "dr_objects (co_driver sleep_core) ! 0 = Time_obj (Wheel 0)"
    "st_futures (co_store sleep_core) 1 = Some (fresh_fut True (Some 10))" "co_handles sleep_core = []"
    by (simp_all add: sleep_core_def finds_def spawn_core_def)
  let ?w = "\<lambda>_. quiet_world\<lparr>wo_now := 5300\<rparr>"
  have now: "wo_now quiet_world = 0" "wh_now (Wheel 0) = 0" "wo_now (?w i) = 5300" for i by (simp_all add: quiet_world_def Wheel_def)
  have base: "base (Wheel 0) = 0" using Wheel_inv(3) [of 0] now by (simp add: base_def)
  have inv: "wheel_inv (co_heap sleep_core) 0 {} (Wheel 0)" by (simp add: Wheel_inv)
  have empty: "9 \<notin># contents (Wheel 0)" "\<forall>e. count (contents (Wheel 0)) e \<le> 1"
    "\<forall>e \<in># contents (Wheel 0). bound (co_heap sleep_core) (co_store sleep_core) e" by (simp_all add: Wheel_inv)
  have "wo_now quiet_world + 1000 * 5 < base (Wheel 0) + 1000 * 60 ^ 5" "wo_now (?w 0) < base (Wheel 0) + 1000 * 60 ^ 5"
    "wh_now (Wheel 0) < wo_now (?w 0)" by (simp_all add: now base)
  from sleep_end_to_end [OF s(1,2) inv s(3) empty this, where ?w2.0 = quiet_world] obtain f1 c1 new c2 where
    *: "sleep_poll_core quiet_world 0 1 (fst (SleepFuture 9 5 sleep_core)) (snd (SleepFuture 9 5 sleep_core)) = Inr (False, f1, c1)"
    "poll_registry ?w (Time_class, 0) ([], c1) = Inr ([], c2)"
    "co_handles c2 = rev (map (task_of (co_heap c1) (co_store sleep_core)) new) @ co_handles sleep_core"
    "task_of (co_heap c1) (co_store sleep_core) 9 = (if fu_self (fresh_fut True (Some 10)) = None then fu_waiting (fresh_fut True (Some 10))
      else fu_self (fresh_fut True (Some 10)), Some 1)"
    "distinct new" "mset new \<subseteq># add_mset 9 (contents (Wheel 0))"
    "\<forall>x \<in># add_mset 9 (contents (Wheel 0)). ((expiry (co_heap sleep_core))(9 := wo_now quiet_world + 1000 * 5)) x + (base (Wheel 0) - 0)
       \<le> wo_now (?w 0) \<longrightarrow> x \<in> set new"
    "sleep_poll_core quiet_world 0 1 f1 c2 = Inr (True, f1, c2)"
    by (elim exE conjE) blast
  have mem: "9 \<in> set new" using *(7) by (simp add: now base)
  have "set new \<subseteq> {9}" using set_mset_mono [OF *(6)] by (simp add: Wheel_inv)
  with mem have "set new = {9}" by blast
  then have "card (set new) = 1" by simp
  then have "length new = 1" using distinct_card [OF *(5)] by simp
  with mem have "new = [9]" by (cases new) auto
  then have "co_handles c2 = [(Some 10, Some 1)]" using *(3,4) s(4) by (simp add: fresh_fut_def)
  with *(1,2,8) show ?thesis by blast
qed

end
