(* ===== verification/Registry_Properties.thy ===== *)
theory Registry_Properties
  imports Registry_Object
begin

text \<open>
  Properties of the epoll, io_uring and blocking registries, each followed by an instance at a
  concrete input.
\<close>

section \<open>The epoll registry\<close>

lemma and_or_zero: "x AND (a OR b) = 0 \<longleftrightarrow> x AND a = 0 \<and> x AND b = 0" for x a b :: "'a::len word"
  by (auto simp: bit_eq_iff bit_simps)

text \<open>
  What an epoll event mask becomes: the state is always Registered; it is Error exactly when
  the mask has one of EPOLLERR, EPOLLHUP, EPOLLRDHUP and EPOLLPRI, and then it is neither
  Readable, Writable nor Pending; otherwise it is Readable exactly with EPOLLIN, Writable exactly
  with EPOLLOUT, and Pending exactly with neither.
\<close>

theorem to_state_flags:
  fixes events :: "32 word"
  defines "failed \<equiv> events AND (EPOLLERR OR EPOLLHUP OR EPOLLRDHUP OR EPOLLPRI) \<noteq> 0"
  shows "get_field Registered (to_state events) \<and> (get_field Error (to_state events) \<longleftrightarrow> failed)
    \<and> (get_field Readable (to_state events) \<longleftrightarrow> \<not> failed \<and> bit events 0)
    \<and> (get_field Writable (to_state events) \<longleftrightarrow> \<not> failed \<and> bit events 2)
    \<and> (get_field Io_State.Pending (to_state events) \<longleftrightarrow> \<not> failed \<and> \<not> bit events 0 \<and> \<not> bit events 2)"
proof -
  have f: "failed \<longleftrightarrow> events AND EPOLLERR \<noteq> 0 \<or> events AND EPOLLHUP \<noteq> 0 \<or> events AND EPOLLRDHUP \<noteq> 0
      \<or> events AND EPOLLPRI \<noteq> 0"
    unfolding failed_def and_or_zero by blast
  have "events AND 2 ^ 0 = 0 \<longleftrightarrow> \<not> bit events 0" "events AND 2 ^ 2 = 0 \<longleftrightarrow> \<not> bit events 2"
    "NOT events AND 2 ^ 0 = 0 \<longleftrightarrow> bit events 0" "NOT events AND 2 ^ 2 = 0 \<longleftrightarrow> bit events 2"
    unfolding and_exp_eq_0_iff_not_bit by (simp_all add: bit_not_iff)
  then have bits: "events AND EPOLLIN = 0 \<longleftrightarrow> \<not> bit events 0" "events AND EPOLLOUT = 0 \<longleftrightarrow> \<not> bit events 2"
    "NOT events AND EPOLLIN = 0 \<longleftrightarrow> bit events 0" "NOT events AND EPOLLOUT = 0 \<longleftrightarrow> bit events 2"
    by (simp_all only: power_0 power2_eq_square num_double mult_numeral_1 numeral_times_numeral num.case)
  have "to_state events = (if failed then 17 else
      (if bit events 0 then (if bit events 2 then 13 else 5) else if bit events 2 then 9 else 3))"
    unfolding to_state_def Let_def f [symmetric] bits set_field_def by simp
  then show ?thesis by (simp add: get_field_def)
qed

definition epoll_heap :: heap where
  "epoll_heap = (\<lambda>e. \<lparr>ev_future = Some 7, ev_extra = Some (EpollExtra (epoll_IoExtra Interest_Read 5))\<rparr>)"

text \<open>
  C12. Register then select. When the kernel accepts the event and then reports it with a mask, and
  nothing else, select succeeds, hands out exactly the event, with the mask turned into its state,
  and leaves the registry and every other event as before the registration. The kernel is
  asked for one notification (EPOLLONESHOT) for the interest of the event, with the event as user data.
\<close>

theorem epoll_round_trip:
  assumes "ev_extra (h e) = Some (EpollExtra x)" "e \<notin> set (er_registered s)"
    and "fst (ctl \<lparr>ctl_op = EPOLL_CTL_ADD, ctl_fd = ep_fd x, ctl_events = to_sys (ep_interest x), ctl_data = e\<rparr>) \<noteq> -1"
    and "epoll_wait (min timeout 1) = \<lparr>wr_return = 1, wr_errno = err, wr_buffer = (e, m) # rest\<rparr>"
  shows "\<exists>h1 s1 h2. epoll_Register ctl e (h, s) = Inr (Inr (), h1, s1)
    \<and> epoll_select (timeout, epoll_wait) evs (h1, s1) = Inr (Inr (), evs @ [e], h2, s)
    \<and> ev_extra (h2 e) = Some (EpollExtra (x\<lparr>ep_state := to_state m\<rparr>)) \<and> ev_future (h2 e) = ev_future (h e)
    \<and> (\<forall>a. a \<noteq> e \<longrightarrow> h2 a = h a)
    \<and> to_sys (ep_interest x) AND EPOLLONESHOT \<noteq> 0"
proof -
  let ?h1 = "set_extra e (EpollExtra (x\<lparr>ep_state := set_field 1 True (ep_state x)\<rparr>)) h"
  let ?s1 = "s\<lparr>er_registered := er_registered s @ [e]\<rparr>"
  have reg: "epoll_Register ctl e (h, s) = Inr (Inr (), ?h1, ?s1)"
    using assms(1,3) by (auto simp: epoll_Register_def into_sys_result_def Let_def split: prod.splits)
  have sel: "epoll_select (timeout, epoll_wait) evs (?h1, ?s1)
      = Inr (Inr (), evs @ [e], set_extra e (EpollExtra (x\<lparr>ep_state := to_state m\<rparr>)) ?h1, s)"
    using assms(2,4) by (simp add: epoll_select_def into_sys_result_def epoll_take_def remove1_append)
  have "to_sys (ep_interest x) AND 0x40000000 \<noteq> 0" by (cases "ep_interest x") simp_all
  with reg sel show ?thesis by auto
qed

theorem epoll_round_trip_witness:
  "\<exists>h1 s1 h2. epoll_Register (\<lambda>_. (0, 0)) 3 (epoll_heap, \<lparr>er_epfd = 9, er_registered = [4]\<rparr>) = Inr (Inr (), h1, s1)
    \<and> epoll_select (2, \<lambda>_. \<lparr>wr_return = 1, wr_errno = 0, wr_buffer = [(3, 1)]\<rparr>) [] (h1, s1)
        = Inr (Inr (), [3], h2, \<lparr>er_epfd = 9, er_registered = [4]\<rparr>)
    \<and> ev_extra (h2 3) = Some (EpollExtra \<lparr>ep_state = 5, ep_interest = Interest_Read, ep_fd = 5\<rparr>)"
proof -
  have "to_state 1 = 5" by (simp add: to_state_def set_field_def Let_def)
  then show ?thesis
    using epoll_round_trip [of epoll_heap 3 "epoll_IoExtra Interest_Read 5" "\<lparr>er_epfd = 9, er_registered = [4]\<rparr>"
        "\<lambda>_. (0, 0)" "\<lambda>_. \<lparr>wr_return = 1, wr_errno = 0, wr_buffer = [(3, 1)]\<rparr>" 2 0 1 "[]" "[]"]
    by (auto simp: epoll_heap_def epoll_IoExtra_def)
qed

text \<open>
  A batch from the kernel. When the first entries of the buffer, as many as epoll_wait says,
  name different registered events, select succeeds and hands out exactly these, in the order of
  the buffer, each with the state of its own mask, and they are no longer registered; the entries
  behind them are not read.
\<close>

theorem epoll_select_batch:
  assumes "epoll_invar h s" "wr_return (epoll_wait (min timeout 1)) = int (length buf)"
    and "take (length buf) (wr_buffer (epoll_wait (min timeout 1))) = buf"
    and "distinct (map fst buf)" "set (map fst buf) \<subseteq> set (er_registered s)" "distinct (er_registered s)"
  shows "\<exists>h' s'. epoll_select (timeout, epoll_wait) evs (h, s) = Inr (Inr (), evs @ map fst buf, h', s')
    \<and> set (er_registered s') = set (er_registered s) - set (map fst buf)
    \<and> (\<forall>(e, m) \<in> set buf. \<exists>x. ev_extra (h' e) = Some (EpollExtra x) \<and> ep_state x = to_state m)"
proof -
  have "\<exists>h' s'. for_each epoll_take buf (evs, h, s) = Inr (evs @ map fst buf, h', s')
    \<and> set (er_registered s') = set (er_registered s) - set (map fst buf)
    \<and> (\<forall>(e, m) \<in> set buf. \<exists>x. ev_extra (h' e) = Some (EpollExtra x) \<and> ep_state x = to_state m)
    \<and> (\<forall>a. a \<notin> set (map fst buf) \<longrightarrow> h' a = h a)"
    using assms(1,4-6)
  proof (induction buf arbitrary: evs h s)
    case (Cons b buf)
    obtain e m where b: "b = (e, m)" by (cases b)
    have e: "e \<in> set (er_registered s)" "e \<notin> set (map fst buf)" using Cons.prems b by auto
    obtain x where x: "as_epoll (ev_extra (h e)) = Some x" using Cons.prems(1) e(1) by (auto simp: epoll_invar_def)
    let ?h = "set_extra e (EpollExtra (x\<lparr>ep_state := to_state m\<rparr>)) h"
    let ?s = "s\<lparr>er_registered := remove1 e (er_registered s)\<rparr>"
    have step: "epoll_take (e, m) (evs, h, s) = Inr (evs @ [e], ?h, ?s)"
      using e x by (simp add: epoll_take_def)
    have "epoll_invar ?h ?s" using Cons.prems(1,4) by (auto simp: epoll_invar_def)
    moreover have "set (map fst buf) \<subseteq> set (er_registered ?s)" using Cons.prems e b by auto
    ultimately obtain h' s' where IH: "for_each epoll_take buf (evs @ [e], ?h, ?s) = Inr ((evs @ [e]) @ map fst buf, h', s')"
      "set (er_registered s') = set (er_registered ?s) - set (map fst buf)"
      "\<forall>(e, m) \<in> set buf. \<exists>x. ev_extra (h' e) = Some (EpollExtra x) \<and> ep_state x = to_state m"
      "\<forall>a. a \<notin> set (map fst buf) \<longrightarrow> h' a = ?h a"
      using Cons.IH [of ?h ?s "evs @ [e]"] Cons.prems b by auto
    have "ev_extra (h' e) = Some (EpollExtra (x\<lparr>ep_state := to_state m\<rparr>))" using IH(4) e(2) by simp
    with IH step b Cons.prems(4) show ?case by (intro exI [of _ h'] exI [of _ s']) auto
  qed simp
  then show ?thesis using assms(2,3) by (auto simp: epoll_select_def into_sys_result_def)
qed

theorem epoll_select_batch_witness:
  "\<exists>h' s'. epoll_select (2, \<lambda>_. \<lparr>wr_return = 2, wr_errno = 0, wr_buffer = [(3, 1), (1, 4), (0, 0)]\<rparr>) []
      (epoll_heap, \<lparr>er_epfd = 9, er_registered = [1, 2, 3]\<rparr>) = Inr (Inr (), [3, 1], h', s')
    \<and> set (er_registered s') = {2}"
  using epoll_select_batch [of epoll_heap "\<lparr>er_epfd = 9, er_registered = [1, 2, 3]\<rparr>"
      "\<lambda>_. \<lparr>wr_return = 2, wr_errno = 0, wr_buffer = [(3, 1), (1, 4), (0, 0)]\<rparr>" 2 "[(3, 1), (1, 4)]" "[]"]
  by (auto simp: epoll_heap_def epoll_invar_def)

text \<open>
  A refused registration. When epoll_ctl refuses the event, Register reports the error of the
  kernel and does not keep the event, but the event's state says Registered, so its future will
  not register it again.
\<close>

theorem epoll_refused:
  assumes "ev_extra (h e) = Some (EpollExtra x)" "e \<notin> set (er_registered s)"
    and "ctl \<lparr>ctl_op = EPOLL_CTL_ADD, ctl_fd = ep_fd x, ctl_events = to_sys (ep_interest x), ctl_data = e\<rparr> = (-1, errno)"
  shows "\<exists>h'. epoll_Register ctl e (h, s) = Inr (Inl \<lparr>err_no = errno, err_info = []\<rparr>, h', s)
    \<and> (\<exists>x'. ev_extra (h' e) = Some (EpollExtra x') \<and> get_field Registered (ep_state x'))"
  using assms
  by (simp add: epoll_Register_def into_sys_result_def from_sys_error_def erase_found_def remove1_append)

theorem epoll_refused_witness:
  "\<exists>h'. epoll_Register (\<lambda>_. (-1, 1)) 3 (epoll_heap, \<lparr>er_epfd = 9, er_registered = []\<rparr>)
      = Inr (Inl \<lparr>err_no = 1, err_info = []\<rparr>, h', \<lparr>er_epfd = 9, er_registered = []\<rparr>)
    \<and> (\<exists>x'. ev_extra (h' 3) = Some (EpollExtra x') \<and> get_field Registered (ep_state x'))"
  using epoll_refused [of epoll_heap 3 "epoll_IoExtra Interest_Read 5" "\<lparr>er_epfd = 9, er_registered = []\<rparr>" "\<lambda>_. (-1, 1)" 1]
  by (simp add: epoll_heap_def)

section \<open>The io_uring registry\<close>

definition uring_heap :: heap where
  "uring_heap = (\<lambda>e. \<lparr>ev_future = Some 7, ev_extra = Some (UringExtra
     \<lparr>ur_args = Args_Read 64 10 0, ur_fd = 5, ur_return = 0, ur_state = 0\<rparr>)\<rparr>)"

text \<open>
  C13. Register then select. As long as one of two attempts finds a free submission entry, Register
  succeeds and the calls it makes end with preparing exactly the operation of the event, attaching
  the event to it and submitting. When the only completion is the event's, select hands it out with the
  result of the operation, Completed and no longer Registered, and the set of registered events is
  again what it was.
\<close>

theorem uring_round_trip:
  assumes x: "ev_extra (h e) = Some (UringExtra x)" "\<not> get_field Registered (ur_state x)"
    and e: "e \<notin> set (ui_registered s)" and free: "sqe1 \<or> sqe2"
    and cq: "wait_cqe (to_timespec timeout) = \<lparr>cq_return = 0, cq_ptr = True, cq_entries = [(Some e, res)]\<rparr>"
  shows "\<exists>h1 s1 h2 s2 cs. uring_Register (sqe1, sqe2) e (h, s) = Inr (Inr (), h1, s1)
    \<and> ui_calls s1 = ui_calls s @ cs @ [Prep (prep_op (ur_fd x) (ur_args x)), Set_data e, Submit]
    \<and> (\<forall>c \<in> set cs. \<forall>p. c \<noteq> Prep p)
    \<and> uring_select (timeout, wait_cqe, tr) evs (h1, s1) = Inr (Inr (), evs @ [e], h2, s2)
    \<and> ui_registered s2 = ui_registered s
    \<and> (\<exists>y. ev_extra (h2 e) = Some (UringExtra y) \<and> ur_return y = res \<and> get_field Completed (ur_state y)
         \<and> \<not> get_field Registered (ur_state y) \<and> ur_args y = ur_args x \<and> ur_fd y = ur_fd x)"
proof -
  let ?h1 = "set_extra e (UringExtra (x\<lparr>ur_state := set_field 1 True (ur_state x)\<rparr>)) h"
  define cs where "cs = Get_sqe sqe1 # (if sqe1 then [] else [Submit, Get_sqe sqe2])"
  define s1 where "s1 = log_calls (cs @ [Prep (prep_op (ur_fd x) (ur_args x)), Set_data e, Submit])
      (s\<lparr>ui_registered := ui_registered s @ [e]\<rparr>)"
  have reg: "uring_Register (sqe1, sqe2) e (h, s) = Inr (Inr (), ?h1, s1)"
    using x free by (cases sqe1) (simp_all add: uring_Register_def Let_def s1_def cs_def log_calls_def)
  define y where "y = x\<lparr>ur_return := res, ur_state := set_field 1 False (set_field 2 True (set_field 1 True (ur_state x)))\<rparr>"
  have sel: "uring_select (timeout, wait_cqe, tr) evs (?h1, s1)
      = Inr (Inr (), evs @ [e], set_extra e (UringExtra y) ?h1,
          log_calls [Cq_advance 1] (s1\<lparr>ui_registered := remove1 e (ui_registered s1)\<rparr>))"
    using cq by (simp add: uring_select_def uring_take_def Let_def s1_def y_def)
  have flags: "get_field 2 (ur_state y)" "\<not> get_field 1 (ur_state y)"
    by (simp_all add: y_def get_set_other)
  have "\<forall>c \<in> set cs. \<forall>p. c \<noteq> Prep p" by (simp add: cs_def)
  moreover have "remove1 e (ui_registered s1) = ui_registered s" using e by (simp add: s1_def remove1_append)
  moreover have "ui_calls s1 = ui_calls s @ cs @ [Prep (prep_op (ur_fd x) (ur_args x)), Set_data e, Submit]"
    by (simp add: s1_def)
  moreover have "ev_extra (set_extra e (UringExtra y) ?h1 e) = Some (UringExtra y)" "ur_return y = res"
    "ur_args y = ur_args x" "ur_fd y = ur_fd x" by (simp_all add: y_def)
  ultimately show ?thesis
    by (intro exI [of _ ?h1] exI [of _ s1] exI [of _ "set_extra e (UringExtra y) ?h1"]
        exI [of _ "log_calls [Cq_advance 1] (s1\<lparr>ui_registered := remove1 e (ui_registered s1)\<rparr>)"]
        exI [of _ cs] conjI exI [of _ y] reg sel flags) simp_all
qed

theorem uring_round_trip_witness:
  "\<exists>h1 s1 h2 s2. uring_Register (False, True) 3 (uring_heap, \<lparr>ui_registered = [], ui_calls = []\<rparr>) = Inr (Inr (), h1, s1)
    \<and> uring_select (2, \<lambda>_. \<lparr>cq_return = 0, cq_ptr = True, cq_entries = [(Some 3, 10)]\<rparr>, []) [] (h1, s1)
        = Inr (Inr (), [3], h2, s2) \<and> ui_registered s2 = []
    \<and> (\<exists>y. ev_extra (h2 3) = Some (UringExtra y) \<and> ur_return y = 10)"
  using uring_round_trip [of uring_heap 3 "\<lparr>ur_args = Args_Read 64 10 0, ur_fd = 5, ur_return = 0, ur_state = 0\<rparr>"
      "\<lparr>ui_registered = [], ui_calls = []\<rparr>" False True
      "\<lambda>_. \<lparr>cq_return = 0, cq_ptr = True, cq_entries = [(Some 3, 10)]\<rparr>" 2 10 "[]" "[]"]
  by (auto simp: uring_heap_def get_field_def)

text \<open>
  C14. Deregistering. When the submission queue has room, deregister takes two submission entries,
  prepares the cancellation in the second and submits both: the first is handed to the kernel as
  it was. And when the cancelled operation then completes, as io_uring reports it, select looks
  for an event that is not registered any more and dereferences the end of the vector.
\<close>

theorem uring_deregister_flaws:
  assumes "ev_extra (h e) = Some (UringExtra x)" "e \<in> set (ui_registered s)" "distinct (ui_registered s)"
    and "wait_cqe (to_timespec timeout) = \<lparr>cq_return = 0, cq_ptr = True, cq_entries = [(Some e, res)]\<rparr>"
  shows "\<exists>h1 s1. uring_deregister (True, True) e (h, s) = Inr (Inr (), h1, s1)
    \<and> ui_calls s1 = ui_calls s @ [Get_sqe True, Get_sqe True, Prep (Prep_cancel e), Submit]
    \<and> uring_select (timeout, wait_cqe, tr) evs (h1, s1) = Inl End_deref"
  using assms
  by (simp add: uring_deregister_def Let_def erase_found_def uring_select_def uring_take_def)

theorem uring_deregister_flaws_witness:
  "\<exists>h1 s1. uring_deregister (True, True) 3 (uring_heap, \<lparr>ui_registered = [3], ui_calls = []\<rparr>) = Inr (Inr (), h1, s1)
    \<and> ui_calls s1 = [Get_sqe True, Get_sqe True, Prep (Prep_cancel 3), Submit]
    \<and> uring_select (2, \<lambda>_. \<lparr>cq_return = 0, cq_ptr = True, cq_entries = [(Some 3, -125)]\<rparr>, []) [] (h1, s1) = Inl End_deref"
  using uring_deregister_flaws [of uring_heap 3 "\<lparr>ur_args = Args_Read 64 10 0, ur_fd = 5, ur_return = 0, ur_state = 0\<rparr>"
      "\<lparr>ui_registered = [3], ui_calls = []\<rparr>" "\<lambda>_. \<lparr>cq_return = 0, cq_ptr = True, cq_entries = [(Some 3, -125)]\<rparr>" 2 "-125" "[]" "[]"]
  by (simp add: uring_heap_def)

section \<open>The blocking registry\<close>

text \<open>
  C9. No blocking task is lost or run twice. In every state the pool and its registry can reach,
  at most one worker is between taking the registry's mutex and releasing it; every registered
  event without a result is exactly once about to be queued, queued or being run; one with a result
  is not; and events that were handed out have their result and are no longer registered.
\<close>

theorem blocking_accounting:
  assumes "blocking_step\<^sup>*\<^sup>* (h0, BlockingRegistry n, [], []) (h, s, p, out)"
  shows "(\<forall>i < length (br_workers s). holds_mutex (bw_pc (br_workers s ! i)) \<longleftrightarrow> br_mutex s = Some i)
    \<and> distinct (br_events s)
    \<and> (\<forall>e \<in> set (br_events s). \<exists>a r. ev_extra (h e) = Some (BlockingExtra (Fill_after e a) r)
         \<and> count (pending s) (Fill_after e a) + count (mset p) e = (if r = None then 1 else 0))
    \<and> set (br_events s) \<inter> set out = {} \<and> (\<forall>e \<in> set out. blocking_ready h e)"
proof -
  have "blocking_ok (h, s, p, out)" by (rule blocking_reach_ok [OF assms])
  then have 1: "mutex_ok s" "tasks_ok h (br_events s) (mset p) (pending s)" "set (br_events s) \<inter> set out = {}"
    "\<forall>e \<in> set out. blocking_ready h e" by (simp_all add: blocking_ok_def)
  have "\<exists>a r. ev_extra (h e) = Some (BlockingExtra (Fill_after e a) r)
         \<and> count (pending s) (Fill_after e a) + count (mset p) e = (if r = None then 1 else 0)"
    if e: "e \<in> set (br_events s)" for e
  proof -
    obtain a r where "as_blocking (ev_extra (h e)) = Some (Fill_after e a, r)"
      "count (pending s) (Fill_after e a) + count (mset p) e = (if r = None then 1 else 0)"
      by (rule tasks_okD [OF 1(2) e])
    then show ?thesis by (intro exI [of _ a] exI [of _ r]) simp
  qed
  moreover have "distinct (br_events s)" using 1(2) unfolding tasks_ok_def by blast
  moreover have "\<forall>i < length (br_workers s). holds_mutex (bw_pc (br_workers s ! i)) \<longleftrightarrow> br_mutex s = Some i"
    using 1(1) unfolding mutex_ok_def by blast
  ultimately show ?thesis using 1(3,4) by blast
qed

definition blocking_heap :: heap where
  "blocking_heap = snd (BlockingTask 7 3 99 (\<lambda>_. \<lparr>ev_future = None, ev_extra = None\<rparr>))"

lemma blocking_heap_pushed:
  "blocking_step\<^sup>*\<^sup>* (blocking_heap, BlockingRegistry 2, [], []) (blocking_heap, blocking_push 3 (BlockingRegistry 2), [3], [])"
  using step_push [of "BlockingRegistry 2" 3 blocking_heap 99 "[]" "[]"]
  by (auto simp: BlockingRegistry_def blocking_heap_def BlockingTask_def)

theorem blocking_accounting_witness:
  "count (pending (blocking_push 3 (BlockingRegistry 2))) (Fill_after 3 99) + count (mset [3]) (3 :: nat) = 1"
  using blocking_accounting [OF blocking_heap_pushed]
  by (simp add: blocking_push_def BlockingRegistry_def blocking_heap_def BlockingTask_def)





text \<open>
  A blocking task goes to a worker with the shortest queue: spawn appends it to the queue
  of one worker, of which none has fewer tasks, and changes no other worker; without
  workers it dereferences the end of the vector.
\<close>

theorem spawn_least_loaded:
  "if br_workers s = [] then BlockingPool_spawn task s = Inl End_deref
   else \<exists>i < length (br_workers s).
     (\<forall>w \<in> set (br_workers s). length (bw_tasks (br_workers s ! i)) \<le> length (bw_tasks w))
     \<and> BlockingPool_spawn task s = Inr (s\<lparr>br_workers := (br_workers s)
          [i := (br_workers s ! i)\<lparr>bw_tasks := bw_tasks (br_workers s ! i) @ [task]\<rparr>]\<rparr>)"
proof (cases "br_workers s = []")
  case True
  then show ?thesis by (simp add: BlockingPool_spawn_def)
next
  case False
  let ?xs = "map (\<lambda>w. length (bw_tasks w)) (br_workers s)"
  from False obtain i where i: "min_element ?xs = Some i" using min_element_Some [of ?xs] by auto
  note * = min_element_spec [OF i]
  have "length (bw_tasks (br_workers s ! i)) \<le> length (bw_tasks w)" if "w \<in> set (br_workers s)" for w
    using * that by (auto simp: in_set_conv_nth)
  with False i * show ?thesis by (auto simp: BlockingPool_spawn_def set_worker_def Let_def)
qed

theorem spawn_least_loaded_witness:
  "\<exists>i < 2. BlockingPool_spawn (Fill_after 0 1) (BlockingRegistry 2) = Inr ((BlockingRegistry 2)\<lparr>br_workers :=
     (br_workers (BlockingRegistry 2))[i := BlockingWorker\<lparr>bw_tasks := [Fill_after 0 1]\<rparr>]\<rparr>)"
  using spawn_least_loaded [of "BlockingRegistry 2" "Fill_after 0 1"]
  by (auto simp: BlockingRegistry_def BlockingWorker_def)

end
