(* ===== verification/Blocking_Shutdown.thy ===== *)
theory Blocking_Shutdown
  imports Blocking_Registry
begin

text \<open>
  The end of the thread pool (\<open>BlockingPool::run\<close>, \<open>BlockingWorker::run\<close> and
  \<open>BlockingPool::~BlockingPool\<close> of \<open>src/task/registry.cc\<close>), with the condition variable taken
  apart: \<open>wait\<close> tests its predicate under the worker's mutex, then gives the mutex up and blocks, and
  only a thread that is blocked is woken by \<open>notify_one\<close>. The pool has no tasks left. The threads
  and the destructor are interleaved in every way.
\<close>

section \<open>Definitions\<close>

text \<open>
  Where a worker is: at the test of the outer loop, at the test of the predicate, decided to block,
  blocked, or at its end.
\<close>

datatype pool_pc = Pool_loop | Pool_test | Pool_decided | Pool_blocked | Pool_ended

record pool_thread =
  pt_pc :: pool_pc
  pt_end :: bool

text \<open>The destructor is to set \<open>end_\<close> of a worker, to notify it, or to join its thread.\<close>

datatype pool_dtor = Pool_alive | Pool_end nat | Pool_notify nat | Pool_join nat

record pool =
  po_threads :: "pool_thread list"
  po_dtor :: pool_dtor

definition BlockingPool_run :: "nat \<Rightarrow> pool" where
  "BlockingPool_run worker_num = \<lparr>po_threads = replicate worker_num \<lparr>pt_pc = Pool_loop, pt_end = False\<rparr>, po_dtor = Pool_alive\<rparr>"

definition set_pool_pc :: "nat \<Rightarrow> pool_pc \<Rightarrow> pool \<Rightarrow> pool" where
  "set_pool_pc i pc s = s\<lparr>po_threads := (po_threads s)[i := (po_threads s ! i)\<lparr>pt_pc := pc\<rparr>]\<rparr>"

definition pool_thread_step :: "nat \<Rightarrow> pool \<Rightarrow> pool option" where
  "pool_thread_step i s = (case pt_pc (po_threads s ! i) of
     Pool_loop \<Rightarrow> Some (set_pool_pc i (if pt_end (po_threads s ! i) then Pool_ended else Pool_test) s)
   | Pool_test \<Rightarrow> Some (set_pool_pc i (if pt_end (po_threads s ! i) then Pool_loop else Pool_decided) s)
   | Pool_decided \<Rightarrow> Some (set_pool_pc i Pool_blocked s)
   | Pool_blocked \<Rightarrow> None
   | Pool_ended \<Rightarrow> None)"

text \<open>One step of the destructor; none when it waits in \<open>join\<close>, or is over.\<close>

definition BlockingPool_dtor :: "pool \<Rightarrow> pool option" where
  "BlockingPool_dtor s = (case po_dtor s of
     Pool_alive \<Rightarrow> Some (s\<lparr>po_dtor := Pool_end 0\<rparr>)
   | Pool_end i \<Rightarrow>
       Some (if i < length (po_threads s)
             then s\<lparr>po_threads := (po_threads s)[i := (po_threads s ! i)\<lparr>pt_end := True\<rparr>], po_dtor := Pool_notify i\<rparr>
             else s\<lparr>po_dtor := Pool_join 0\<rparr>)
   | Pool_notify i \<Rightarrow>
       Some ((if pt_pc (po_threads s ! i) = Pool_blocked then set_pool_pc i Pool_test s else s)\<lparr>po_dtor := Pool_end (Suc i)\<rparr>)
   | Pool_join i \<Rightarrow>
       if i < length (po_threads s) \<and> pt_pc (po_threads s ! i) = Pool_ended then Some (s\<lparr>po_dtor := Pool_join (Suc i)\<rparr>) else None)"

inductive pool_end_step :: "pool \<Rightarrow> pool \<Rightarrow> bool" where
  pool_work: "i < length (po_threads s) \<Longrightarrow> pool_thread_step i s = Some s' \<Longrightarrow> pool_end_step s s'"
| pool_destroy: "BlockingPool_dtor s = Some s' \<Longrightarrow> pool_end_step s s'"

inductive pool_reach :: "nat \<Rightarrow> pool \<Rightarrow> bool" for n where
  pool_start: "pool_reach n (BlockingPool_run n)"
| pool_next: "pool_reach n s \<Longrightarrow> pool_end_step s s' \<Longrightarrow> pool_reach n s'"

section \<open>How the destructor ends\<close>

fun pool_told :: "pool_dtor \<Rightarrow> nat \<Rightarrow> bool" where
  "pool_told Pool_alive i \<longleftrightarrow> False"
| "pool_told (Pool_end k) i \<longleftrightarrow> i < k"
| "pool_told (Pool_notify k) i \<longleftrightarrow> i \<le> k"
| "pool_told (Pool_join k) i \<longleftrightarrow> True"

definition pool_ok :: "nat \<Rightarrow> pool \<Rightarrow> bool" where
  "pool_ok n s \<longleftrightarrow> length (po_threads s) = n \<and> (\<forall>i < n. pool_told (po_dtor s) i \<longrightarrow> pt_end (po_threads s ! i))
     \<and> (\<forall>k. po_dtor s = Pool_notify k \<longrightarrow> k < n) \<and> (\<forall>k. po_dtor s = Pool_end k \<longrightarrow> k \<le> n) \<and> (\<forall>k. po_dtor s = Pool_join k \<longrightarrow> k \<le> n)"

lemma set_pool_pc_simps [simp]:
  "length (po_threads (set_pool_pc i pc s)) = length (po_threads s)" "po_dtor (set_pool_pc i pc s) = po_dtor s"
  "i < length (po_threads s) \<Longrightarrow> pt_end (po_threads (set_pool_pc i pc s) ! j) = pt_end (po_threads s ! j)"
  "i < length (po_threads s) \<Longrightarrow> pt_pc (po_threads (set_pool_pc i pc s) ! j) = (if j = i then pc else pt_pc (po_threads s ! j))"
  by (auto simp: set_pool_pc_def nth_list_update)

lemma pool_end_step_ok: "pool_end_step s s' \<Longrightarrow> pool_ok n s \<Longrightarrow> pool_ok n s'"
proof (induction rule: pool_end_step.induct)
  case (pool_work i s s')
  then show ?case by (auto simp: pool_ok_def pool_thread_step_def split: pool_pc.splits if_splits)
next
  case (pool_destroy s s')
  then show ?case
    by (cases "po_dtor s") (auto simp: pool_ok_def BlockingPool_dtor_def nth_list_update less_Suc_eq_le split: if_splits)
qed

lemma pool_reach_ok: "pool_reach n s \<Longrightarrow> pool_ok n s"
proof (induction rule: pool_reach.induct)
  case pool_start
  show ?case by (simp add: pool_ok_def BlockingPool_run_def)
next
  case (pool_next s s')
  then show ?case using pool_end_step_ok by blast
qed

text \<open>A pool of one worker in which the notification comes between the test and the wait.\<close>

lemma pool_race: "pool_reach 1 \<lparr>po_threads = [\<lparr>pt_pc = Pool_blocked, pt_end = True\<rparr>], po_dtor = Pool_join 0\<rparr>"
proof -
  note step = pool_next [OF _ pool_work [of 0]] pool_next [OF _ pool_destroy]
  note defs = pool_thread_step_def BlockingPool_dtor_def set_pool_pc_def
  have "pool_reach 1 \<lparr>po_threads = [\<lparr>pt_pc = Pool_loop, pt_end = False\<rparr>], po_dtor = Pool_alive\<rparr>"
    using pool_start [of 1] by (simp add: BlockingPool_run_def)
  then have "pool_reach 1 \<lparr>po_threads = [\<lparr>pt_pc = Pool_test, pt_end = False\<rparr>], po_dtor = Pool_alive\<rparr>" by (rule step(1)) (simp_all add: defs)
  then have "pool_reach 1 \<lparr>po_threads = [\<lparr>pt_pc = Pool_decided, pt_end = False\<rparr>], po_dtor = Pool_alive\<rparr>" by (rule step(1)) (simp_all add: defs)
  then have "pool_reach 1 \<lparr>po_threads = [\<lparr>pt_pc = Pool_decided, pt_end = False\<rparr>], po_dtor = Pool_end 0\<rparr>" by (rule step(2)) (simp add: defs)
  then have "pool_reach 1 \<lparr>po_threads = [\<lparr>pt_pc = Pool_decided, pt_end = True\<rparr>], po_dtor = Pool_notify 0\<rparr>" by (rule step(2)) (simp add: defs)
  then have "pool_reach 1 \<lparr>po_threads = [\<lparr>pt_pc = Pool_decided, pt_end = True\<rparr>], po_dtor = Pool_end 1\<rparr>" by (rule step(2)) (simp add: defs)
  then have "pool_reach 1 \<lparr>po_threads = [\<lparr>pt_pc = Pool_decided, pt_end = True\<rparr>], po_dtor = Pool_join 0\<rparr>" by (rule step(2)) (simp add: defs)
  then show ?thesis by (rule step(1)) (simp_all add: defs)
qed

text \<open>
  C11. Destroying the thread pool can hang. \<open>end_\<close> is set and \<open>notify_one\<close> called without the worker's mutex: when both
  happen after a worker has tested the predicate of its wait and before it blocks, it blocks forever, and the
  destructor waits for it in \<open>join\<close>. This is the only way: in every state in which no thread and not the destructor can go on
  although not all workers are joined, a worker is blocked whose \<open>end_\<close> is set.
\<close>

theorem pool_shutdown_hangs:
  "(\<exists>s. pool_reach 1 s \<and> po_dtor s \<noteq> Pool_join 1 \<and> (\<nexists>s'. pool_end_step s s'))
   \<and> (\<forall>n s. pool_reach n s \<and> po_dtor s \<noteq> Pool_join n \<and> (\<nexists>s'. pool_end_step s s') \<longrightarrow>
        (\<exists>i < n. po_dtor s = Pool_join i \<and> pt_pc (po_threads s ! i) = Pool_blocked \<and> pt_end (po_threads s ! i)))"
proof -
  let ?s = "\<lparr>po_threads = [\<lparr>pt_pc = Pool_blocked, pt_end = True\<rparr>], po_dtor = Pool_join 0\<rparr>"
  have "\<not> pool_end_step ?s s'" for s'
  proof
    assume "pool_end_step ?s s'"
    then show False by cases (simp_all add: pool_thread_step_def BlockingPool_dtor_def)
  qed
  moreover have "\<exists>i < n. po_dtor s = Pool_join i \<and> pt_pc (po_threads s ! i) = Pool_blocked \<and> pt_end (po_threads s ! i)"
    if "pool_reach n s" "po_dtor s \<noteq> Pool_join n" and stuck: "\<nexists>s'. pool_end_step s s'" for n s
  proof -
    have ok: "pool_ok n s" using pool_reach_ok [OF that(1)] .
    have none: "BlockingPool_dtor s = None" using stuck pool_destroy [of s] by (cases "BlockingPool_dtor s") auto
    then obtain i where i: "po_dtor s = Pool_join i" by (cases "po_dtor s") (auto simp: BlockingPool_dtor_def)
    with ok that(2) have n: "i < n" "length (po_threads s) = n" "pt_end (po_threads s ! i)" by (auto simp: pool_ok_def order_less_le)
    moreover have "pool_thread_step i s = None" using stuck pool_work [of i s] n(1,2) by (cases "pool_thread_step i s") auto
    ultimately have "pt_pc (po_threads s ! i) = Pool_blocked"
      using none i by (auto simp: pool_thread_step_def BlockingPool_dtor_def split: pool_pc.splits)
    with i n show ?thesis by blast
  qed
  ultimately show ?thesis using pool_race by (intro conjI exI [of _ ?s]) auto
qed

theorem pool_shutdown_hangs_witness:
  "\<exists>s. pool_reach 1 s \<and> po_dtor s = Pool_join 0 \<and> pt_pc (po_threads s ! 0) = Pool_blocked \<and> (\<nexists>s'. pool_end_step s s')"
proof -
  obtain s where s: "pool_reach 1 s" "po_dtor s \<noteq> Pool_join 1" "\<nexists>s'. pool_end_step s s'" using pool_shutdown_hangs by blast
  with pool_shutdown_hangs obtain i where "i < 1" "po_dtor s = Pool_join i" "pt_pc (po_threads s ! i) = Pool_blocked" by blast
  with s show ?thesis by (intro exI [of _ s]) simp
qed

end
