(* ===== verification/Runtime_Shutdown.thy ===== *)
theory Runtime_Shutdown
  imports Runtime_Core
begin

text \<open>
  The life of the worker threads and their end (\<open>Worker\<close> and \<open>RuntimeCore::~RuntimeCore\<close> of
  \<open>src/runtime/core.cc\<close>). A worker thread passes the launch barrier, runs rounds until its
  flag is set, resets the flag and ends. The destructor of the core sets the flags of all
  workers; then the workers are destroyed, which joins their threads, before any other
  member of the core goes away. The threads and the destroying thread are interleaved in every way.
\<close>

section \<open>Definitions\<close>

text \<open>
  Where a worker thread is: before \<open>init_in_thread\<close>, waiting on the condition variable, at the
  test of the flag, in \<open>run_loop_once\<close>, after the loop, and at its end.
\<close>

datatype thread_pc = Thread_start | Thread_wait | Thread_check | Thread_round | Thread_reset | Thread_ended

record worker_thread =
  wt_pc :: thread_pc
  wt_suspend :: bool

text \<open>The destroying thread has still to suspend, or to join, the workers given.\<close>

datatype destroyer = Using_core | Suspending "nat list" | Joining "nat list"

record lifetime =
  li_threads :: "worker_thread list"
  li_init_num :: nat
  li_destroyer :: destroyer

definition set_pc :: "nat \<Rightarrow> thread_pc \<Rightarrow> lifetime \<Rightarrow> lifetime" where
  "set_pc i pc l = l\<lparr>li_threads := (li_threads l)[i := (li_threads l ! i)\<lparr>wt_pc := pc\<rparr>]\<rparr>"

text \<open>The constructor of the core makes a thread per worker.\<close>

definition start_workers :: "nat \<Rightarrow> lifetime" where
  "start_workers n = \<lparr>li_threads = replicate n \<lparr>wt_pc = Thread_start, wt_suspend = False\<rparr>, li_init_num = 0, li_destroyer = Using_core\<rparr>"

text \<open>\<open>init_in_thread\<close> of a worker thread; the last one to come wakes those that wait.\<close>

definition launch_worker :: "nat \<Rightarrow> lifetime \<Rightarrow> lifetime" where
  "launch_worker i l =
     (let l = l\<lparr>li_init_num := li_init_num l + 1\<rparr>
      in if li_init_num l = length (li_threads l)
         then set_pc i Thread_check (l\<lparr>li_threads :=
                map (\<lambda>t. if wt_pc t = Thread_wait then t\<lparr>wt_pc := Thread_check\<rparr> else t) (li_threads l)\<rparr>)
         else set_pc i Thread_wait l)"

text \<open>One step of the thread's function; a thread that waits or has ended takes none of its own.\<close>

definition thread_step :: "nat \<Rightarrow> lifetime \<Rightarrow> lifetime option" where
  "thread_step i l = (case wt_pc (li_threads l ! i) of
     Thread_start \<Rightarrow> Some (launch_worker i l)
   | Thread_wait \<Rightarrow> None
   | Thread_check \<Rightarrow> Some (set_pc i (if wt_suspend (li_threads l ! i) then Thread_reset else Thread_round) l)
   | Thread_round \<Rightarrow> Some (set_pc i Thread_check l)
   | Thread_reset \<Rightarrow> Some (l\<lparr>li_threads := (li_threads l)[i := \<lparr>wt_pc = Thread_ended, wt_suspend = False\<rparr>]\<rparr>)
   | Thread_ended \<Rightarrow> None)"

definition Worker_suspend :: "nat \<Rightarrow> lifetime \<Rightarrow> lifetime" where
  "Worker_suspend i l = l\<lparr>li_threads := (li_threads l)[i := (li_threads l ! i)\<lparr>wt_suspend := True\<rparr>]\<rparr>"

text \<open>\<open>~Worker\<close> returns when the thread has ended.\<close>

definition Worker_dtor :: "nat \<Rightarrow> lifetime \<Rightarrow> lifetime option" where
  "Worker_dtor i l = (if wt_pc (li_threads l ! i) = Thread_ended then Some l else None)"

text \<open>
  The body of \<open>~RuntimeCore\<close> goes over the workers in the order of the map, and so does
  the destructor of the map, in an order of its own. These are the steps that the program takes.
\<close>

inductive program_step :: "lifetime \<Rightarrow> lifetime \<Rightarrow> bool" where
  work: "i < length (li_threads l) \<Longrightarrow> thread_step i l = Some l' \<Longrightarrow> program_step l l'"
| destroy_begin: "li_destroyer l = Using_core \<Longrightarrow> mset is = mset [0..<length (li_threads l)] \<Longrightarrow>
    program_step l (l\<lparr>li_destroyer := Suspending is\<rparr>)"
| destroy_suspend: "li_destroyer l = Suspending (i # is) \<Longrightarrow>
    program_step l ((Worker_suspend i l)\<lparr>li_destroyer := Suspending is\<rparr>)"
| destroy_members: "li_destroyer l = Suspending [] \<Longrightarrow> mset is = mset [0..<length (li_threads l)] \<Longrightarrow>
    program_step l (l\<lparr>li_destroyer := Joining is\<rparr>)"
| destroy_join: "li_destroyer l = Joining (i # is) \<Longrightarrow> Worker_dtor i l = Some l' \<Longrightarrow>
    program_step l (l'\<lparr>li_destroyer := Joining is\<rparr>)"

text \<open>
  A condition variable may also wake a thread that nobody notified. Whether there is a next step
  must not depend on it, which is why it is apart.
\<close>

inductive lifetime_step :: "lifetime \<Rightarrow> lifetime \<Rightarrow> bool" where
  program: "program_step l l' \<Longrightarrow> lifetime_step l l'"
| spurious: "i < length (li_threads l) \<Longrightarrow> wt_pc (li_threads l ! i) = Thread_wait \<Longrightarrow>
    lifetime_step l (set_pc i Thread_check l)"

inductive lifetime_reach :: "nat \<Rightarrow> lifetime \<Rightarrow> bool" for n where
  life_start: "lifetime_reach n (start_workers n)"
| life_next: "lifetime_reach n l \<Longrightarrow> lifetime_step l l' \<Longrightarrow> lifetime_reach n l'"

section \<open>The invariant\<close>

definition not_started :: "lifetime \<Rightarrow> nat" where
  "not_started l = length (filter (\<lambda>t. wt_pc t = Thread_start) (li_threads l))"

text \<open>The workers the destructor has dealt with: suspended for good, and joined.\<close>

fun told :: "nat \<Rightarrow> destroyer \<Rightarrow> nat set" where
  "told n Using_core = {}"
| "told n (Suspending is) = {..<n} - set is"
| "told n (Joining is) = {..<n}"

fun joined :: "nat \<Rightarrow> destroyer \<Rightarrow> nat set" where
  "joined n (Joining is) = {..<n} - set is"
| "joined n _ = {}"

fun still :: "destroyer \<Rightarrow> nat list" where
  "still Using_core = []"
| "still (Suspending is) = is"
| "still (Joining is) = is"

definition life_ok :: "nat \<Rightarrow> lifetime \<Rightarrow> bool" where
  "life_ok n l \<longleftrightarrow> length (li_threads l) = n \<and> li_init_num l + not_started l = n \<and> set (still (li_destroyer l)) \<subseteq> {..<n}
     \<and> (\<forall>i < n. wt_pc (li_threads l ! i) = Thread_wait \<longrightarrow> li_init_num l < n)
     \<and> (\<forall>i \<in> told n (li_destroyer l). wt_suspend (li_threads l ! i) \<or> wt_pc (li_threads l ! i) = Thread_ended)
     \<and> (\<forall>i \<in> joined n (li_destroyer l). wt_pc (li_threads l ! i) = Thread_ended)"

lemma filter_update:
  assumes "i < length xs"
  shows "length (filter P (xs[i := y])) + of_bool (P (xs ! i)) = length (filter P xs) + of_bool (P y)"
  using assms
proof (induction xs arbitrary: i)
  case (Cons x xs)
  show ?case
  proof (cases i)
    case (Suc j)
    with Cons.IH [of j] Cons.prems show ?thesis by auto
  qed auto
qed simp

lemma told_less: "i \<in> told n d \<Longrightarrow> i < n" "i \<in> joined n d \<Longrightarrow> i < n"
  by (cases d; simp)+

lemma set_pc_simps [simp]:
  "length (li_threads (set_pc i pc l)) = length (li_threads l)" "li_init_num (set_pc i pc l) = li_init_num l"
  "li_destroyer (set_pc i pc l) = li_destroyer l"
  "i < length (li_threads l) \<Longrightarrow> wt_pc (li_threads (set_pc i pc l) ! j) = (if j = i then pc else wt_pc (li_threads l ! j))"
  "i < length (li_threads l) \<Longrightarrow> wt_suspend (li_threads (set_pc i pc l) ! j) = wt_suspend (li_threads l ! j)"
  by (auto simp: set_pc_def nth_list_update)

lemma not_started_set_pc:
  "i < length (li_threads l) \<Longrightarrow>
   not_started (set_pc i pc l) + of_bool (wt_pc (li_threads l ! i) = Thread_start) = not_started l + of_bool (pc = Thread_start)"
  using filter_update [of i "li_threads l" "\<lambda>t. wt_pc t = Thread_start" "(li_threads l ! i)\<lparr>wt_pc := pc\<rparr>"]
  by (simp add: not_started_def set_pc_def)

text \<open>What a step of a thread does to its own entry and to those that wait.\<close>

lemma life_ok_set_pc:
  assumes "life_ok n l" "i < n" "wt_pc (li_threads l ! i) \<notin> {Thread_start, Thread_ended}" "pc \<notin> {Thread_start, Thread_wait}"
  shows "life_ok n (set_pc i pc l)"
proof -
  have len: "i < length (li_threads l)" using assms(1,2) by (simp add: life_ok_def)
  have "not_started (set_pc i pc l) = not_started l" using not_started_set_pc [OF len, of pc] assms(3,4) by simp
  then show ?thesis using assms len by (auto simp: life_ok_def)
qed

lemma life_ok_launch:
  assumes "life_ok n l" "i < n" "wt_pc (li_threads l ! i) = Thread_start"
  shows "life_ok n (launch_worker i l)"
proof -
  have len: "i < length (li_threads l)" "length (li_threads l) = n" using assms(1,2) by (simp_all add: life_ok_def)
  let ?woken = "map (\<lambda>t. if wt_pc t = Thread_wait then t\<lparr>wt_pc := Thread_check\<rparr> else t) (li_threads l)"
  let ?l = "l\<lparr>li_init_num := li_init_num l + 1\<rparr>" and ?w = "l\<lparr>li_init_num := li_init_num l + 1, li_threads := ?woken\<rparr>"
  have "length (filter (\<lambda>t. wt_pc t = Thread_start) ?woken) = length (filter (\<lambda>t. wt_pc t = Thread_start) (li_threads l))"
    by (simp add: filter_map comp_def) (rule arg_cong [where f = length], rule filter_cong, auto)
  then have same: "not_started ?w = not_started l" "not_started ?l = not_started l" by (simp_all add: not_started_def)
  have fewer: "not_started (set_pc i Thread_check ?w) + 1 = not_started l" "not_started (set_pc i Thread_wait ?l) + 1 = not_started l"
    using not_started_set_pc [of i ?w Thread_check] not_started_set_pc [of i ?l Thread_wait] assms(3) len same by auto
  show ?thesis
  proof (cases "li_init_num l + 1 = n")
    case True
    then have "launch_worker i l = set_pc i Thread_check ?w" using len by (simp add: launch_worker_def Let_def)
    moreover have "?woken ! j = (if wt_pc (li_threads l ! j) = Thread_wait then (li_threads l ! j)\<lparr>wt_pc := Thread_check\<rparr> else li_threads l ! j)"
      if "j \<in> told n (li_destroyer l) \<union> joined n (li_destroyer l)" for j
      using that len(2) told_less by (auto simp del: told.simps joined.simps)
    ultimately show ?thesis using assms True fewer(1) len by (auto simp: life_ok_def)
  next
    case False
    then have "launch_worker i l = set_pc i Thread_wait ?l" using len by (simp add: launch_worker_def Let_def)
    with assms False fewer(2) len show ?thesis by (auto simp: life_ok_def)
  qed
qed

lemma life_ok_reset:
  assumes "life_ok n l" "i < n" "wt_pc (li_threads l ! i) = Thread_reset"
  shows "life_ok n (l\<lparr>li_threads := (li_threads l)[i := \<lparr>wt_pc = Thread_ended, wt_suspend = False\<rparr>]\<rparr>)"
proof -
  have len: "i < length (li_threads l)" "length (li_threads l) = n" using assms(1,2) by (simp_all add: life_ok_def)
  have "not_started (l\<lparr>li_threads := (li_threads l)[i := \<lparr>wt_pc = Thread_ended, wt_suspend = False\<rparr>]\<rparr>) = not_started l"
    using filter_update [OF len(1), of "\<lambda>t. wt_pc t = Thread_start" "\<lparr>wt_pc = Thread_ended, wt_suspend = False\<rparr>"] assms(3)
    by (simp add: not_started_def)
  with assms len show ?thesis by (auto simp: life_ok_def nth_list_update)
qed

lemma life_ok_suspend:
  assumes "life_ok n l" "i < n"
  shows "life_ok n (Worker_suspend i l)" "wt_suspend (li_threads (Worker_suspend i l) ! i)"
proof -
  have len: "i < length (li_threads l)" "length (li_threads l) = n" using assms(1,2) by (simp_all add: life_ok_def)
  have "not_started (Worker_suspend i l) = not_started l"
    using filter_update [OF len(1), of "\<lambda>t. wt_pc t = Thread_start" "(li_threads l ! i)\<lparr>wt_suspend := True\<rparr>"]
    by (simp add: not_started_def Worker_suspend_def)
  with assms len show "life_ok n (Worker_suspend i l)" "wt_suspend (li_threads (Worker_suspend i l) ! i)"
    by (auto simp: life_ok_def Worker_suspend_def nth_list_update)
qed

lemma program_step_ok: "program_step l l' \<Longrightarrow> life_ok n l \<Longrightarrow> life_ok n l'"
proof (induction rule: program_step.induct)
  case (work i l l')
  then have i: "i < n" by (simp add: life_ok_def)
  note thread = life_ok_launch [OF work.prems i] life_ok_reset [OF work.prems i] life_ok_set_pc [OF work.prems i]
  show ?case using work.hyps(2) thread by (auto simp: thread_step_def split: thread_pc.splits if_splits)
next
  case (destroy_begin l "is")
  then have "set is = {..<n}" by (metis atLeast0LessThan life_ok_def set_mset_mset set_upt)
  with destroy_begin show ?case by (auto simp: life_ok_def not_started_def)
next
  case (destroy_suspend l i "is")
  then have i: "i < n" by (auto simp: life_ok_def)
  have "li_destroyer (Worker_suspend i l) = Suspending (i # is)" using destroy_suspend.hyps by (simp add: Worker_suspend_def)
  with life_ok_suspend [OF destroy_suspend.prems i] show ?case by (auto simp: life_ok_def not_started_def)
next
  case (destroy_members l "is")
  then have "set is = {..<n}" by (metis atLeast0LessThan life_ok_def set_mset_mset set_upt)
  with destroy_members show ?case by (auto simp: life_ok_def not_started_def)
next
  case (destroy_join l i "is" l')
  then show ?case by (auto simp: life_ok_def not_started_def Worker_dtor_def split: if_splits)
qed

lemma life_ok_step: "lifetime_step l l' \<Longrightarrow> life_ok n l \<Longrightarrow> life_ok n l'"
proof (induction rule: lifetime_step.induct)
  case (program l l')
  then show ?case by (rule program_step_ok)
next
  case (spurious i l)
  then show ?case using life_ok_set_pc [of n l i Thread_check] by (auto simp: life_ok_def)
qed

lemma lifetime_reach_ok: "lifetime_reach n l \<Longrightarrow> life_ok n l"
proof (induction rule: lifetime_reach.induct)
  case life_start
  show ?case by (auto simp: life_ok_def start_workers_def not_started_def)
next
  case (life_next l l')
  then show ?case using life_ok_step by blast
qed

section \<open>The end\<close>

fun steps_left :: "thread_pc \<Rightarrow> nat" where
  "steps_left Thread_start = 4"
| "steps_left Thread_wait = 3"
| "steps_left Thread_check = 2"
| "steps_left Thread_round = 3"
| "steps_left Thread_reset = 1"
| "steps_left Thread_ended = 0"

definition life_left :: "lifetime \<Rightarrow> nat" where
  "life_left l = sum_list (map (\<lambda>t. steps_left (wt_pc t)) (li_threads l)) + length (still (li_destroyer l))"

lemma sum_update_less:
  assumes "i < length xs" "f y < f (xs ! i)"
  shows "sum_list (map f (xs[i := y])) < (sum_list (map f xs) :: nat)"
  using assms by (induction xs arbitrary: i) (auto simp: less_Suc_eq_0_disj)

lemma life_left_update:
  assumes "i < length (li_threads l)" "steps_left (wt_pc t) < steps_left (wt_pc (li_threads l ! i))"
  shows "life_left (l\<lparr>li_threads := (li_threads l)[i := t]\<rparr>) < life_left l"
  using sum_update_less [OF assms(1), of "\<lambda>t. steps_left (wt_pc t)" t] assms(2) by (simp add: life_left_def)

lemma life_left_set_pc:
  assumes "i < length (li_threads l)" "steps_left pc < steps_left (wt_pc (li_threads l ! i))"
  shows "life_left (set_pc i pc l) < life_left l"
  using life_left_update [OF assms(1)] assms(2) by (simp add: set_pc_def)

lemma life_left_launch:
  assumes "i < length (li_threads l)" "wt_pc (li_threads l ! i) = Thread_start"
  shows "life_left (launch_worker i l) < life_left l"
proof -
  let ?wake = "\<lambda>t. if wt_pc t = Thread_wait then t\<lparr>wt_pc := Thread_check\<rparr> else t"
  let ?l = "l\<lparr>li_init_num := li_init_num l + 1\<rparr>" and ?w = "l\<lparr>li_init_num := li_init_num l + 1, li_threads := map ?wake (li_threads l)\<rparr>"
  have "sum_list (map (\<lambda>t. steps_left (wt_pc t)) (map ?wake (li_threads l))) \<le> sum_list (map (\<lambda>t. steps_left (wt_pc t)) (li_threads l))"
    unfolding map_map by (rule sum_list_mono) simp
  then have le: "life_left ?w \<le> life_left l" "life_left ?l = life_left l" by (simp_all add: life_left_def)
  have "life_left (set_pc i Thread_check ?w) < life_left ?w" "life_left (set_pc i Thread_wait ?l) < life_left ?l"
    using assms by (auto intro!: life_left_set_pc)
  with le show ?thesis by (auto simp: launch_worker_def Let_def)
qed

lemma joining_program:
  assumes "program_step l l'" "life_ok n l" "li_destroyer l = Joining is"
  shows "life_left l' < life_left l \<and> (\<exists>is'. li_destroyer l' = Joining is')"
  using assms
proof (induction rule: program_step.induct)
  case (work i l l')
  then have i: "i < n" "i < length (li_threads l)" by (simp_all add: life_ok_def)
  then have told: "wt_suspend (li_threads l ! i) \<or> wt_pc (li_threads l ! i) = Thread_ended"
    using work.prems by (auto simp: life_ok_def)
  have "li_destroyer (launch_worker i l) = li_destroyer l" by (simp add: launch_worker_def Let_def)
  with work told show ?case
    by (auto simp: thread_step_def split: thread_pc.splits if_splits intro!: life_left_launch life_left_set_pc life_left_update)
qed (auto simp: life_left_def Worker_dtor_def split: if_splits)

lemma joining_step:
  assumes "lifetime_step l l'" "life_ok n l" "li_destroyer l = Joining is"
  shows "life_left l' < life_left l \<and> (\<exists>is'. li_destroyer l' = Joining is')"
  using assms
proof (induction rule: lifetime_step.induct)
  case (program l l')
  then show ?case by (rule joining_program)
next
  case (spurious i l)
  then show ?case by (auto intro!: life_left_set_pc)
qed

lemma joining_run:
  "(lifetime_step ^^ k) l l' \<Longrightarrow> life_ok n l \<Longrightarrow> li_destroyer l = Joining is \<Longrightarrow> k + life_left l' \<le> life_left l"
proof (induction k arbitrary: l "is")
  case (Suc k)
  from Suc.prems(1) obtain m where m: "lifetime_step l m" "(lifetime_step ^^ k) m l'" by (metis relpowp_Suc_D2)
  from joining_step [OF m(1) Suc.prems(2,3)] obtain is' where "life_left m < life_left l" "li_destroyer m = Joining is'" by blast
  with Suc.IH [OF m(2) life_ok_step [OF m(1) Suc.prems(2)]] show ?case by fastforce
qed simp

text \<open>A thread waits at the barrier only while another one has not come to it, which then can.\<close>

lemma joining_progress:
  assumes ok: "life_ok n l" and joining: "li_destroyer l = Joining (i # is)"
  shows "\<exists>l'. program_step l l'"
proof (cases "wt_pc (li_threads l ! i) = Thread_ended")
  case True
  then show ?thesis using destroy_join [OF joining] by (auto simp: Worker_dtor_def)
next
  case False
  have i: "i < n" "i < length (li_threads l)" using ok joining by (auto simp: life_ok_def)
  obtain j where j: "j < length (li_threads l)" "wt_pc (li_threads l ! j) \<notin> {Thread_wait, Thread_ended}"
  proof (cases "wt_pc (li_threads l ! i) = Thread_wait")
    case True
    with ok i have "0 < not_started l" by (auto simp: life_ok_def)
    then obtain t where "t \<in> set (li_threads l)" "wt_pc t = Thread_start" by (auto simp: not_started_def filter_empty_conv)
    with that show thesis by (auto simp: in_set_conv_nth)
  next
    case running: False
    with False i(2) that show thesis by blast
  qed
  then have "\<exists>l'. thread_step j l = Some l'" by (auto simp: thread_step_def split: thread_pc.splits)
  then show ?thesis using work [OF j(1)] by blast
qed

lemma life_left_bound: "life_ok n l \<Longrightarrow> length (still (li_destroyer l)) \<le> n \<Longrightarrow> life_left l \<le> 5 * n"
proof -
  assume ok: "life_ok n l" "length (still (li_destroyer l)) \<le> n"
  have "steps_left pc \<le> 4" for pc by (cases pc) simp_all
  then have "sum_list (map (\<lambda>t. steps_left (wt_pc t)) (li_threads l)) \<le> sum_list (map (\<lambda>t. 4) (li_threads l))"
    by (intro sum_list_mono) simp
  with ok show ?thesis by (simp add: life_left_def life_ok_def sum_list_triv)
qed

lemma lifetime_reach_still: "lifetime_reach n l \<Longrightarrow> length (still (li_destroyer l)) \<le> n"
proof (induction rule: lifetime_reach.induct)
  case life_start
  show ?case by (simp add: start_workers_def)
next
  case (life_next l l')
  have len: "length (li_threads l) = n" using lifetime_reach_ok [OF life_next.hyps(1)] by (simp add: life_ok_def)
  have "length is = n" if "mset is = mset [0..<length (li_threads l)]" for "is"
    using mset_eq_length [OF that] len by simp
  moreover have "li_destroyer (launch_worker i l) = li_destroyer l" for i by (simp add: launch_worker_def Let_def)
  ultimately have "length (still (li_destroyer m)) \<le> n" if "program_step l m" for m
    using life_next.IH by (cases rule: program_step.cases [OF that]) (auto simp: thread_step_def Worker_dtor_def split: thread_pc.splits if_splits)
  with life_next.hyps(2) life_next.IH show ?case by (cases rule: lifetime_step.cases) auto
qed

text \<open>
  C21. Destroying a runtime ends. Wherever the workers are when their flags have been set, before the
  launch barrier, waiting at it or in a round, the threads and the destructor together take at most
  five steps per worker, in every interleaving, spurious wakeups included. They cannot get stuck before all
  workers are joined, and need no spurious wakeup for this: a thread that waits at the barrier is
  notified. When all are joined, every thread has ended, so that none uses the
  members of the core that are destroyed next. The reset of a flag never loses the request.
\<close>

theorem shutdown_joins:
  assumes "lifetime_reach n l" "li_destroyer l = Joining is"
  shows "(\<forall>k l'. (lifetime_step ^^ k) l l' \<longrightarrow> k \<le> 5 * n)
    \<and> ((\<exists>l'. program_step l l') \<longleftrightarrow> is \<noteq> [])
    \<and> (is = [] \<longrightarrow> (\<forall>t \<in> set (li_threads l). wt_pc t = Thread_ended))"
proof -
  note ok = lifetime_reach_ok [OF assms(1)]
  have "k \<le> 5 * n" if "(lifetime_step ^^ k) l l'" for k l'
    using joining_run [OF that ok assms(2)] life_left_bound [OF ok lifetime_reach_still [OF assms(1)]] by simp
  moreover have ended: "\<forall>t \<in> set (li_threads l). wt_pc t = Thread_ended" if "is = []"
    using ok assms(2) that by (auto simp: life_ok_def in_set_conv_nth)
  moreover have "\<not> program_step l l'" if "is = []" for l'
  proof
    assume "program_step l l'"
    then show False using ended [OF that] assms(2) that by cases (auto simp: thread_step_def)
  qed
  moreover have "\<exists>l'. program_step l l'" if "is \<noteq> []"
    using joining_progress [OF ok] assms(2) that by (cases "is") auto
  ultimately show ?thesis by blast
qed

text \<open>Two workers, one of which waits at the barrier when the destructor starts to join it.\<close>

theorem shutdown_joins_witness:
  "\<exists>l. lifetime_reach 2 l \<and> li_destroyer l = Joining [0, 1] \<and> map wt_pc (li_threads l) = [Thread_wait, Thread_start]
     \<and> (\<exists>l'. program_step l l') \<and> (\<nexists>l'. (lifetime_step ^^ 11) l l')"
proof -
  let ?l1 = "launch_worker 0 (start_workers 2)"
  let ?l2 = "?l1\<lparr>li_destroyer := Suspending [0, 1]\<rparr>"
  let ?l3 = "(Worker_suspend 0 ?l2)\<lparr>li_destroyer := Suspending [1]\<rparr>"
  let ?l4 = "(Worker_suspend 1 ?l3)\<lparr>li_destroyer := Suspending []\<rparr>"
  let ?l5 = "?l4\<lparr>li_destroyer := Joining [0, 1]\<rparr>"
  have l1: "?l1 = \<lparr>li_threads = [\<lparr>wt_pc = Thread_wait, wt_suspend = False\<rparr>, \<lparr>wt_pc = Thread_start, wt_suspend = False\<rparr>],
      li_init_num = 1, li_destroyer = Using_core\<rparr>"
    by (simp add: launch_worker_def start_workers_def set_pc_def numeral_2_eq_2)
  have "lifetime_reach 2 ?l1"
    by (rule life_next [OF life_start], rule program, rule work [of 0]) (simp_all add: thread_step_def start_workers_def)
  moreover have all: "mset [0, 1] = mset [0..<length (li_threads ?l1)]" unfolding l1 by (simp add: upt_rec del: mset_upt)
  moreover have "li_destroyer ?l1 = Using_core" unfolding l1 by simp
  ultimately have "lifetime_reach 2 ?l2" by (blast intro: life_next program destroy_begin)
  then have "lifetime_reach 2 ?l3" by (rule life_next) (rule program, rule destroy_suspend, simp)
  then have "lifetime_reach 2 ?l4" by (rule life_next) (rule program, rule destroy_suspend, simp add: Worker_suspend_def)
  then have reach: "lifetime_reach 2 ?l5"
    by (rule life_next) (rule program, rule destroy_members, simp, use all in \<open>simp add: Worker_suspend_def del: mset_upt\<close>)
  have "li_destroyer ?l5 = Joining [0, 1]" by simp
  note joins = shutdown_joins [OF reach this]
  have "\<nexists>l'. (lifetime_step ^^ 11) ?l5 l'"
  proof
    assume "\<exists>l'. (lifetime_step ^^ 11) ?l5 l'"
    then have "11 \<le> 5 * (2 :: nat)" using joins by blast
    then show False by simp
  qed
  moreover have "\<exists>l'. program_step ?l5 l'" using joins by simp
  moreover have "map wt_pc (li_threads ?l5) = [Thread_wait, Thread_start]" by (simp add: Worker_suspend_def l1)
  ultimately show ?thesis using reach by (intro exI [of _ ?l5]) simp
qed

end
