(* ===== verification/Fs_File.thy ===== *)
theory Fs_File
  imports Net_Uring
begin

text \<open>
  Files (\<open>src/fs/utils.cc\<close>, \<open>src/fs/epoll/file.cc\<close>, \<open>src/fs/io_uring/file.cc\<close>,
  \<open>include/xyco/fs/file_common.ccm\<close>). Every operation is a blocking task around a call of the C
  library or of \<open>std::filesystem\<close>; these calls are arguments, as functions of what they are given.
  An \<open>std::error_code\<close> is its value, 0 for none, and its message. The two backends have their own
  copies of the attribute functions and of \<open>open\<close>, and so have the definitions.
\<close>

section \<open>Free functions\<close>

type_synonym error_code = "int \<times> string"

definition error_code_result :: "error_code \<Rightarrow> 'v \<Rightarrow> 'v result" where
  "error_code_result ec v = (if fst ec = 0 then Inr v else Inl \<lparr>err_no = fst ec, err_info = snd ec\<rparr>)"

definition fs_rename :: "(string \<Rightarrow> string \<Rightarrow> error_code) \<Rightarrow> string \<Rightarrow> string \<Rightarrow> unit result" where
  "fs_rename sys_rename old_path new_path = error_code_result (sys_rename old_path new_path) ()"

definition fs_remove :: "(string \<Rightarrow> bool \<times> error_code) \<Rightarrow> string \<Rightarrow> bool result" where
  "fs_remove sys_remove path = (let (exist, ec) = sys_remove path in error_code_result ec exist)"

definition fs_copy_file :: "(string \<Rightarrow> string \<Rightarrow> 'o \<Rightarrow> bool \<times> error_code) \<Rightarrow> string \<Rightarrow> string \<Rightarrow> 'o \<Rightarrow> bool result" where
  "fs_copy_file sys_copy_file from_path to_path options =
     (let (ret, ec) = sys_copy_file from_path to_path options in error_code_result ec ret)"

section \<open>Options of open\<close>

abbreviation (input) O_RDONLY :: "32 word" where "O_RDONLY \<equiv> 0"
abbreviation (input) O_WRONLY :: "32 word" where "O_WRONLY \<equiv> 1"
abbreviation (input) O_RDWR :: "32 word" where "O_RDWR \<equiv> 2"
abbreviation (input) O_CREAT :: "32 word" where "O_CREAT \<equiv> 64"
abbreviation (input) O_EXCL :: "32 word" where "O_EXCL \<equiv> 128"
abbreviation (input) O_TRUNC :: "32 word" where "O_TRUNC \<equiv> 512"
abbreviation (input) O_APPEND :: "32 word" where "O_APPEND \<equiv> 1024"
abbreviation (input) O_CLOEXEC :: "32 word" where "O_CLOEXEC \<equiv> 524288"

record open_options =
  oo_read :: bool
  oo_write :: bool
  oo_append :: bool
  oo_truncate :: bool
  oo_create :: bool
  oo_create_new :: bool
  oo_mode :: "32 word"

definition OpenOptions :: open_options where
  "OpenOptions = \<lparr>oo_read = False, oo_write = False, oo_append = False, oo_truncate = False, oo_create = False,
     oo_create_new = False, oo_mode = 438\<rparr>"

definition opt_read :: "bool \<Rightarrow> open_options \<Rightarrow> open_options" where
  "opt_read b o' = o'\<lparr>oo_read := b\<rparr>"

definition opt_write :: "bool \<Rightarrow> open_options \<Rightarrow> open_options" where
  "opt_write b o' = o'\<lparr>oo_write := b\<rparr>"

definition opt_truncate :: "bool \<Rightarrow> open_options \<Rightarrow> open_options" where
  "opt_truncate b o' = o'\<lparr>oo_truncate := b\<rparr>"

definition opt_append :: "bool \<Rightarrow> open_options \<Rightarrow> open_options" where
  "opt_append b o' = o'\<lparr>oo_append := b\<rparr>"

definition opt_create :: "bool \<Rightarrow> open_options \<Rightarrow> open_options" where
  "opt_create b o' = o'\<lparr>oo_create := b\<rparr>"

definition opt_create_new :: "bool \<Rightarrow> open_options \<Rightarrow> open_options" where
  "opt_create_new b o' = o'\<lparr>oo_create_new := b\<rparr>"

definition opt_mode :: "32 word \<Rightarrow> open_options \<Rightarrow> open_options" where
  "opt_mode m o' = o'\<lparr>oo_mode := m\<rparr>"

definition einval :: err where
  "einval = \<lparr>err_no = EINVAL, err_info = []\<rparr>"

definition get_access_mode :: "open_options \<Rightarrow> 32 word result" where
  "get_access_mode o' =
     (if oo_read o' \<and> \<not> oo_write o' \<and> \<not> oo_append o' then Inr O_RDONLY
      else if \<not> oo_read o' \<and> oo_write o' \<and> \<not> oo_append o' then Inr O_WRONLY
      else if oo_read o' \<and> oo_write o' \<and> \<not> oo_append o' then Inr O_RDWR
      else if \<not> oo_read o' \<and> oo_append o' then Inr (O_WRONLY OR O_APPEND)
      else if oo_read o' \<and> oo_append o' then Inr (O_RDWR OR O_APPEND)
      else Inl einval)"

definition get_creation_mode :: "open_options \<Rightarrow> 32 word result" where
  "get_creation_mode o' =
     (if \<not> oo_write o' \<and> \<not> oo_append o' \<and> (oo_truncate o' \<or> oo_create o' \<or> oo_create_new o') then Inl einval
      else if oo_append o' \<and> oo_truncate o' \<and> \<not> oo_create_new o' then Inl einval
      else if \<not> oo_create o' \<and> \<not> oo_truncate o' \<and> \<not> oo_create_new o' then Inr 0
      else if oo_create o' \<and> \<not> oo_truncate o' \<and> \<not> oo_create_new o' then Inr O_CREAT
      else if \<not> oo_create o' \<and> oo_truncate o' \<and> \<not> oo_create_new o' then Inr O_TRUNC
      else if oo_create o' \<and> oo_truncate o' \<and> \<not> oo_create_new o' then Inr (O_CREAT OR O_TRUNC)
      else Inr (O_CREAT OR O_EXCL))"

section \<open>Files\<close>

record file_obj =
  fi_fd :: int
  fi_path :: string

text \<open>The move constructor and assignment leave the source without descriptor and path.\<close>

definition File_move :: "file_obj \<Rightarrow> file_obj \<times> file_obj" where
  "File_move from = (from, from\<lparr>fi_fd := -1, fi_path := []\<rparr>)"

text \<open>What the destructor closes.\<close>

definition File_dtor :: "file_obj \<Rightarrow> int option" where
  "File_dtor f = (if fi_fd f \<noteq> -1 then Some (fi_fd f) else None)"

definition File_resize :: "(string \<Rightarrow> 64 word \<Rightarrow> error_code) \<Rightarrow> 64 word \<Rightarrow> file_obj \<Rightarrow> unit result" where
  "File_resize resize_file size' f = error_code_result (resize_file (fi_path f) size') ()"

definition File_seek :: "(int \<Rightarrow> int \<Rightarrow> int \<Rightarrow> int \<times> int) \<Rightarrow> int \<Rightarrow> int \<Rightarrow> file_obj \<Rightarrow> int result" where
  "File_seek lseek64 offset whence f =
     (let (return_offset, errno) = lseek64 (fi_fd f) offset whence
      in if return_offset = -1 then into_sys_result errno (-1) else Inr return_offset)"

section \<open>Attributes\<close>

text \<open>\<open>makedev\<close> of the C library.\<close>

definition makedev :: "32 word \<Rightarrow> 32 word \<Rightarrow> 64 word" where
  "makedev major minor =
     (let ma = ucast major; mi = ucast minor
      in push_bit 8 (ma AND 0xFFF) OR push_bit 32 (ma AND 0xFFFFF000) OR (mi AND 0xFF) OR push_bit 12 (mi AND 0xFFFFFF00))"

record timestamp =
  tv_sec :: int
  tv_nsec :: int

record statx =
  stx_mask :: "32 word"
  stx_blksize :: "32 word"
  stx_nlink :: "32 word"
  stx_uid :: "32 word"
  stx_gid :: "32 word"
  stx_mode :: "16 word"
  stx_ino :: "64 word"
  stx_size :: "64 word"
  stx_blocks :: "64 word"
  stx_atime :: timestamp
  stx_btime :: timestamp
  stx_ctime :: timestamp
  stx_mtime :: timestamp
  stx_rdev_major :: "32 word"
  stx_rdev_minor :: "32 word"
  stx_dev_major :: "32 word"
  stx_dev_minor :: "32 word"

record stat64 =
  st_dev :: "64 word"
  st_ino :: "64 word"
  st_nlink :: "64 word"
  st_mode :: "32 word"
  st_uid :: "32 word"
  st_gid :: "32 word"
  st_rdev :: "64 word"
  st_size :: int
  st_blksize :: int
  st_blocks :: int
  st_atim :: timestamp
  st_mtim :: timestamp
  st_ctim :: timestamp

record StatxExtraFields =
  ex_mask :: "32 word"
  ex_btime :: timestamp

abbreviation (input) STATX_BTIME :: "32 word" where "STATX_BTIME \<equiv> 0x800"


section \<open>The epoll backend\<close>

text \<open>\<open>sys_statx\<close> gives the return value, \<open>errno\<close> and what is stored.\<close>

definition epoll_get_file_attr :: "(int \<Rightarrow> int \<times> int \<times> statx) \<Rightarrow> int \<Rightarrow> (stat64 \<times> StatxExtraFields) result" where
  "epoll_get_file_attr sys_statx file_descriptor =
     (let (ret, errno, stx) = sys_statx file_descriptor
      in ASYNC_TRY (into_sys_result errno ret) (\<lambda>_. Inr
             (\<lparr>st_dev = makedev (stx_dev_major stx) (stx_dev_minor stx), st_ino = stx_ino stx, st_nlink = ucast (stx_nlink stx),
               st_mode = ucast (stx_mode stx), st_uid = stx_uid stx, st_gid = stx_gid stx,
               st_rdev = makedev (stx_rdev_major stx) (stx_rdev_minor stx), st_size = sint (stx_size stx),
               st_blksize = uint (stx_blksize stx), st_blocks = sint (stx_blocks stx), st_atim = stx_atime stx,
               st_mtim = stx_mtime stx, st_ctim = stx_ctime stx\<rparr>,
              \<lparr>ex_mask = stx_mask stx, ex_btime = stx_btime stx\<rparr>)))"

definition epoll_modified :: "(int \<Rightarrow> int \<times> int \<times> statx) \<Rightarrow> file_obj \<Rightarrow> timestamp result" where
  "epoll_modified sys_statx f = map_sum id (\<lambda>(stat, ext). st_mtim stat) (epoll_get_file_attr sys_statx (fi_fd f))"

definition epoll_accessed :: "(int \<Rightarrow> int \<times> int \<times> statx) \<Rightarrow> file_obj \<Rightarrow> timestamp result" where
  "epoll_accessed sys_statx f = map_sum id (\<lambda>(stat, ext). st_atim stat) (epoll_get_file_attr sys_statx (fi_fd f))"

definition epoll_created :: "(int \<Rightarrow> int \<times> int \<times> statx) \<Rightarrow> file_obj \<Rightarrow> timestamp result" where
  "epoll_created sys_statx f = (case epoll_get_file_attr sys_statx (fi_fd f) of
     Inr (stat, ext) \<Rightarrow>
       if ex_mask ext AND STATX_BTIME \<noteq> 0 then Inr (ex_btime ext)
       else Inl \<lparr>err_no = to_underlying Uncategorized, err_info = ''creation time is not available for the filesystem''\<rparr>
   | Inl _ \<Rightarrow> Inl \<lparr>err_no = to_underlying Unsupported,
                  err_info = ''creation time is not available on this platform currently''\<rparr>)"

definition epoll_file_size :: "(string \<Rightarrow> 64 word \<times> error_code) \<Rightarrow> file_obj \<Rightarrow> 64 word result" where
  "epoll_file_size file_size f = (let (len, ec) = file_size (fi_path f) in error_code_result ec len)"

text \<open>\<open>is_symlink\<close> is the overload that reports an error by an exception.\<close>

definition epoll_file_status ::
  "(string \<Rightarrow> bool outcome) \<Rightarrow> (string \<Rightarrow> 's \<times> error_code) \<Rightarrow> (string \<Rightarrow> 's \<times> error_code) \<Rightarrow> file_obj
    \<Rightarrow> 's result outcome" where
  "epoll_file_status is_symlink symlink_status status f =
     and_then (is_symlink (fi_path f)) (\<lambda>symlink.
       let (st, ec) = (if symlink then symlink_status (fi_path f) else status (fi_path f))
       in Inr (error_code_result ec st))"

definition epoll_set_permissions :: "(string \<Rightarrow> 'p \<Rightarrow> 'o \<Rightarrow> error_code) \<Rightarrow> 'p \<Rightarrow> 'o \<Rightarrow> file_obj \<Rightarrow> unit result" where
  "epoll_set_permissions permissions prms opts f = error_code_result (permissions (fi_path f) prms opts) ()"

definition epoll_file_flush :: "(int \<Rightarrow> int \<times> int) \<Rightarrow> file_obj \<Rightarrow> unit result" where
  "epoll_file_flush fsync f = (let (ret, errno) = fsync (fi_fd f) in to_void (into_sys_result errno ret))"

definition epoll_open :: "(string \<Rightarrow> 32 word \<Rightarrow> 32 word \<Rightarrow> int \<times> int) \<Rightarrow> string \<Rightarrow> open_options \<Rightarrow> file_obj result" where
  "epoll_open sys_open path o' = (case get_access_mode o' of
     Inl err \<Rightarrow> Inl err
   | Inr access_mode \<Rightarrow> (case get_creation_mode o' of
       Inl err \<Rightarrow> Inl err
     | Inr creation_mode \<Rightarrow>
         (let flags = O_CLOEXEC OR access_mode OR creation_mode;
              (ret, errno) = sys_open path flags (oo_mode o')
          in map_sum id (\<lambda>fd. \<lparr>fi_fd = fd, fi_path = path\<rparr>) (into_sys_result errno ret))))"

text \<open>The two shorthands of \<open>FileBase\<close>.\<close>

definition epoll_file_create :: "(string \<Rightarrow> 32 word \<Rightarrow> 32 word \<Rightarrow> int \<times> int) \<Rightarrow> string \<Rightarrow> file_obj result" where
  "epoll_file_create sys_open path = epoll_open sys_open path (opt_truncate True (opt_create True (opt_write True OpenOptions)))"

definition epoll_file_open :: "(string \<Rightarrow> 32 word \<Rightarrow> 32 word \<Rightarrow> int \<times> int) \<Rightarrow> string \<Rightarrow> file_obj result" where
  "epoll_file_open sys_open path = epoll_open sys_open path (opt_read True OpenOptions)"

definition epoll_file_read :: "(int \<Rightarrow> nat \<Rightarrow> int \<times> int) \<Rightarrow> nat \<Rightarrow> file_obj \<Rightarrow> int result" where
  "epoll_file_read read len f = (let (ret, errno) = read (fi_fd f) len in into_sys_result errno ret)"

definition epoll_file_write :: "(int \<Rightarrow> nat \<Rightarrow> int \<times> int) \<Rightarrow> nat \<Rightarrow> file_obj \<Rightarrow> int result" where
  "epoll_file_write write len f = (let (ret, errno) = write (fi_fd f) len in into_sys_result errno ret)"

section \<open>The io_uring backend\<close>

text \<open>\<open>sys_statx\<close> gives the return value, \<open>errno\<close> and what is stored.\<close>

definition uring_get_file_attr :: "(int \<Rightarrow> int \<times> int \<times> statx) \<Rightarrow> int \<Rightarrow> (stat64 \<times> StatxExtraFields) result" where
  "uring_get_file_attr sys_statx file_descriptor =
     (let (ret, errno, stx) = sys_statx file_descriptor
      in ASYNC_TRY (into_sys_result errno ret) (\<lambda>_. Inr
             (\<lparr>st_dev = makedev (stx_dev_major stx) (stx_dev_minor stx), st_ino = stx_ino stx, st_nlink = ucast (stx_nlink stx),
               st_mode = ucast (stx_mode stx), st_uid = stx_uid stx, st_gid = stx_gid stx,
               st_rdev = makedev (stx_rdev_major stx) (stx_rdev_minor stx), st_size = sint (stx_size stx),
               st_blksize = uint (stx_blksize stx), st_blocks = sint (stx_blocks stx), st_atim = stx_atime stx,
               st_mtim = stx_mtime stx, st_ctim = stx_ctime stx\<rparr>,
              \<lparr>ex_mask = stx_mask stx, ex_btime = stx_btime stx\<rparr>)))"

definition uring_modified :: "(int \<Rightarrow> int \<times> int \<times> statx) \<Rightarrow> file_obj \<Rightarrow> timestamp result" where
  "uring_modified sys_statx f = map_sum id (\<lambda>(stat, ext). st_mtim stat) (uring_get_file_attr sys_statx (fi_fd f))"

definition uring_accessed :: "(int \<Rightarrow> int \<times> int \<times> statx) \<Rightarrow> file_obj \<Rightarrow> timestamp result" where
  "uring_accessed sys_statx f = map_sum id (\<lambda>(stat, ext). st_atim stat) (uring_get_file_attr sys_statx (fi_fd f))"

definition uring_created :: "(int \<Rightarrow> int \<times> int \<times> statx) \<Rightarrow> file_obj \<Rightarrow> timestamp result" where
  "uring_created sys_statx f = (case uring_get_file_attr sys_statx (fi_fd f) of
     Inr (stat, ext) \<Rightarrow>
       if ex_mask ext AND STATX_BTIME \<noteq> 0 then Inr (ex_btime ext)
       else Inl \<lparr>err_no = to_underlying Uncategorized, err_info = ''creation time is not available for the filesystem''\<rparr>
   | Inl _ \<Rightarrow> Inl \<lparr>err_no = to_underlying Unsupported,
                  err_info = ''creation time is not available on this platform currently''\<rparr>)"

definition uring_file_size :: "(string \<Rightarrow> 64 word \<times> error_code) \<Rightarrow> file_obj \<Rightarrow> 64 word result" where
  "uring_file_size file_size f = (let (len, ec) = file_size (fi_path f) in error_code_result ec len)"

text \<open>\<open>is_symlink\<close> is the overload that reports an error by an exception.\<close>

definition uring_file_status ::
  "(string \<Rightarrow> bool outcome) \<Rightarrow> (string \<Rightarrow> 's \<times> error_code) \<Rightarrow> (string \<Rightarrow> 's \<times> error_code) \<Rightarrow> file_obj
    \<Rightarrow> 's result outcome" where
  "uring_file_status is_symlink symlink_status status f =
     and_then (is_symlink (fi_path f)) (\<lambda>symlink.
       let (st, ec) = (if symlink then symlink_status (fi_path f) else status (fi_path f))
       in Inr (error_code_result ec st))"

definition uring_set_permissions :: "(string \<Rightarrow> 'p \<Rightarrow> 'o \<Rightarrow> error_code) \<Rightarrow> 'p \<Rightarrow> 'o \<Rightarrow> file_obj \<Rightarrow> unit result" where
  "uring_set_permissions permissions prms opts f = error_code_result (permissions (fi_path f) prms opts) ()"

definition uring_file_flush :: "(int \<Rightarrow> int \<times> int) \<Rightarrow> file_obj \<Rightarrow> unit result" where
  "uring_file_flush fsync f = (let (ret, errno) = fsync (fi_fd f) in to_void (into_sys_result errno ret))"

definition uring_open :: "(string \<Rightarrow> 32 word \<Rightarrow> 32 word \<Rightarrow> int \<times> int) \<Rightarrow> string \<Rightarrow> open_options \<Rightarrow> file_obj result" where
  "uring_open sys_open path o' = (case get_access_mode o' of
     Inl err \<Rightarrow> Inl err
   | Inr access_mode \<Rightarrow> (case get_creation_mode o' of
       Inl err \<Rightarrow> Inl err
     | Inr creation_mode \<Rightarrow>
         (let flags = O_CLOEXEC OR access_mode OR creation_mode;
              (ret, errno) = sys_open path flags (oo_mode o')
          in map_sum id (\<lambda>fd. \<lparr>fi_fd = fd, fi_path = path\<rparr>) (into_sys_result errno ret))))"

text \<open>The two shorthands of \<open>FileBase\<close>.\<close>

definition uring_file_create :: "(string \<Rightarrow> 32 word \<Rightarrow> 32 word \<Rightarrow> int \<times> int) \<Rightarrow> string \<Rightarrow> file_obj result" where
  "uring_file_create sys_open path = uring_open sys_open path (opt_truncate True (opt_create True (opt_write True OpenOptions)))"

definition uring_file_open :: "(string \<Rightarrow> 32 word \<Rightarrow> 32 word \<Rightarrow> int \<times> int) \<Rightarrow> string \<Rightarrow> file_obj result" where
  "uring_file_open sys_open path = uring_open sys_open path (opt_read True OpenOptions)"

text \<open>The futures of read and write make their own event at \<open>e\<close>.\<close>

definition uring_file_future :: "event_ptr \<Rightarrow> file_obj \<Rightarrow> 'a core_scheme \<Rightarrow> 'a core_scheme" where
  "uring_file_future e f c =
     c\<lparr>co_heap := (co_heap c)(e := \<lparr>ev_future = None, ev_extra = Some (UringExtra (uring_IoExtra\<lparr>ur_fd := fi_fd f\<rparr>))\<rparr>)\<rparr>"

definition uring_file_read_poll ::
  "world \<Rightarrow> thread_id \<Rightarrow> nat \<Rightarrow> nat \<Rightarrow> future_ptr \<Rightarrow> event_ptr \<Rightarrow> 'a core_scheme \<Rightarrow> (int result poll \<times> 'a core_scheme) outcome" where
  "uring_file_read_poll w tid buf len this e =
     uring_poll w tid (\<lambda>x. x\<lparr>ur_args := Args_Read buf (of_nat len) 0\<rparr>) (\<lambda>ret c. (uring_bytes ret, c)) this e"

definition uring_file_write_poll ::
  "world \<Rightarrow> thread_id \<Rightarrow> nat \<Rightarrow> nat \<Rightarrow> future_ptr \<Rightarrow> event_ptr \<Rightarrow> 'a core_scheme \<Rightarrow> (int result poll \<times> 'a core_scheme) outcome" where
  "uring_file_write_poll w tid buf len this e =
     uring_poll w tid (\<lambda>x. x\<lparr>ur_args := Args_Write buf (of_nat len) 0\<rparr>) (\<lambda>ret c. (uring_bytes ret, c)) this e"

end
