(* ===== verification/Fs_Properties.thy ===== *)
theory Fs_Properties
  imports Fs_File Net_Properties
begin

text \<open>Properties of opening, reading and describing files.\<close>

text \<open>
  The options of open, for all 64 combinations. The call is refused with EINVAL exactly when
  neither reading, writing nor appending is asked for, when something is to be created or truncated
  without writing or appending, or when an appended file is to be truncated and not newly
  created. Otherwise open is called with O_CLOEXEC; with O_RDONLY, O_WRONLY or O_RDWR as reading and
  writing (or appending) are asked for; with O_APPEND exactly for appending; with O_EXCL exactly for a new file;
  with O_CREAT exactly for create or a new file; with O_TRUNC exactly for truncate and not a new file.
\<close>

theorem open_flags:
  fixes opts :: open_options
  defines "writes \<equiv> oo_write opts \<or> oo_append opts"
  shows "if (\<not> oo_read opts \<and> \<not> writes) \<or> (\<not> writes \<and> (oo_truncate opts \<or> oo_create opts \<or> oo_create_new opts))
        \<or> (oo_append opts \<and> oo_truncate opts \<and> \<not> oo_create_new opts)
     then epoll_open sys_open path opts = Inl \<lparr>err_no = EINVAL, err_info = []\<rparr>
     else epoll_open sys_open path opts = map_sum id (\<lambda>fd. \<lparr>fi_fd = fd, fi_path = path\<rparr>)
        (let (ret, errno) = sys_open path
           (O_CLOEXEC OR (if \<not> writes then O_RDONLY else if oo_read opts then O_RDWR else O_WRONLY)
            OR (if oo_append opts then O_APPEND else 0) OR (if oo_create_new opts then O_EXCL else 0)
            OR (if oo_create opts \<or> oo_create_new opts then O_CREAT else 0)
            OR (if oo_truncate opts \<and> \<not> oo_create_new opts then O_TRUNC else 0)) (oo_mode opts)
         in into_sys_result errno ret)"
  unfolding writes_def epoll_open_def get_access_mode_def get_creation_mode_def einval_def Let_def
  by (cases "oo_read opts"; cases "oo_write opts"; cases "oo_append opts"; cases "oo_truncate opts";
      cases "oo_create opts"; cases "oo_create_new opts") (simp_all split: prod.splits)

text \<open>
  The two backends agree. The epoll and the io_uring copies of the attribute functions, of flush
  and of open give the same result on every file, for every behaviour of the system; the
  times are those statx reports, and the creation time is given exactly when statx succeeds
  and says it has it.
\<close>

theorem file_backends_agree:
  "epoll_open sys_open path opts = uring_open sys_open path opts
   \<and> epoll_modified sx f = uring_modified sx f \<and> epoll_accessed sx f = uring_accessed sx f
   \<and> epoll_created sx f = uring_created sx f \<and> epoll_file_size fsz f = uring_file_size fsz f
   \<and> epoll_file_status ln lst st f = uring_file_status ln lst st f
   \<and> epoll_set_permissions pm p q f = uring_set_permissions pm p q f
   \<and> epoll_file_flush fsync f = uring_file_flush fsync f
   \<and> (case sx (fi_fd f) of (ret, errno, stx) \<Rightarrow>
        if ret = -1 then uring_modified sx f = Inl \<lparr>err_no = errno, err_info = []\<rparr> \<and> (\<exists>e. uring_created sx f = Inl e)
        else uring_modified sx f = Inr (stx_mtime stx) \<and> uring_accessed sx f = Inr (stx_atime stx)
          \<and> ((\<exists>t. uring_created sx f = Inr t) \<longleftrightarrow> stx_mask stx AND STATX_BTIME \<noteq> 0)
          \<and> (\<forall>t. uring_created sx f = Inr t \<longleftrightarrow> stx_mask stx AND STATX_BTIME \<noteq> 0 \<and> t = stx_btime stx))"
proof -
  have attr: "epoll_get_file_attr = uring_get_file_attr"
    by (intro ext) (simp add: epoll_get_file_attr_def uring_get_file_attr_def)
  have same: "epoll_open sys_open path opts = uring_open sys_open path opts"
    "epoll_modified sx f = uring_modified sx f" "epoll_accessed sx f = uring_accessed sx f"
    "epoll_created sx f = uring_created sx f" "epoll_file_size fsz f = uring_file_size fsz f"
    "epoll_file_status ln lst st f = uring_file_status ln lst st f"
    "epoll_set_permissions pm p q f = uring_set_permissions pm p q f"
    "epoll_file_flush fsync f = uring_file_flush fsync f"
    by (simp_all add: epoll_open_def uring_open_def epoll_modified_def uring_modified_def epoll_accessed_def
        uring_accessed_def epoll_created_def uring_created_def epoll_file_size_def uring_file_size_def epoll_file_status_def
        uring_file_status_def epoll_set_permissions_def uring_set_permissions_def epoll_file_flush_def uring_file_flush_def attr)
  obtain ret errno stx where sx: "sx (fi_fd f) = (ret, errno, stx)" by (rule prod_cases3)
  have "if ret = -1 then uring_modified sx f = Inl \<lparr>err_no = errno, err_info = []\<rparr> \<and> (\<exists>e. uring_created sx f = Inl e)
        else uring_modified sx f = Inr (stx_mtime stx) \<and> uring_accessed sx f = Inr (stx_atime stx)
          \<and> ((\<exists>t. uring_created sx f = Inr t) \<longleftrightarrow> stx_mask stx AND STATX_BTIME \<noteq> 0)
          \<and> (\<forall>t. uring_created sx f = Inr t \<longleftrightarrow> stx_mask stx AND STATX_BTIME \<noteq> 0 \<and> t = stx_btime stx)"
    using sx by (cases "ret = -1") (auto simp: uring_modified_def uring_accessed_def uring_created_def
        uring_get_file_attr_def into_sys_result_def from_sys_error_def)
  with same sx show ?thesis by (simp only: prod.case simp_thms)
qed

lemma uring_poll_asks:
  assumes "finds tid Uring_class i c" "dr_objects (co_driver c) ! i = Uring_obj s"
    "ev_extra (co_heap c e) = Some (UringExtra x)" "\<not> get_field 2 (ur_state x)" "\<not> get_field 1 (ur_state x)"
    "ur_state (args x) = ur_state x" "fst (wo_sqe w)"
  shows "\<exists>c1 s1. uring_poll w tid args finish this e c = Inr (None, c1) \<and> dr_objects (co_driver c1) ! i = Uring_obj s1
    \<and> ui_calls s1 = ui_calls s @ [Get_sqe True, Prep (prep_op (ur_fd (args x)) (ur_args (args x))), Set_data e, Submit]"
proof -
  have idx: "(dr_objects (co_driver c))[i := R] ! i = R" for R using assms(1) by (simp add: finds_def)
  obtain c1 where "uring_poll w tid args finish this e c = Inr (None, c1)" "dr_objects (co_driver c1) =
      (dr_objects (co_driver c))[i := Uring_obj (log_calls [Get_sqe True, Prep (prep_op (ur_fd (args x)) (ur_args (args x))), Set_data e, Submit]
          (s\<lparr>ui_registered := ui_registered s @ [e]\<rparr>))]"
    using uring_poll_submits [of tid i c s e x args w finish this] assms by auto
  then show ?thesis
    by (intro exI [of _ c1] exI [of _ "log_calls [Get_sqe True, Prep (prep_op (ur_fd (args x)) (ur_args (args x))), Set_data e, Submit]
          (s\<lparr>ui_registered := ui_registered s @ [e]\<rparr>)"]) (simp add: idx)
qed

text \<open>
  Every read of a file through io_uring starts at offset 0. The future of File::read submits
  exactly one read operation on the descriptor of the file, and its offset is 0, whatever
  was read before; so does write.
\<close>

theorem uring_file_offset:
  assumes "finds tid Uring_class i c" "dr_objects (co_driver c) ! i = Uring_obj s" "fst (wo_sqe w)"
  shows "(\<exists>c1 s1. uring_file_read_poll w tid buf len this e (uring_file_future e f c) = Inr (None, c1)
      \<and> dr_objects (co_driver c1) ! i = Uring_obj s1
      \<and> ui_calls s1 = ui_calls s @ [Get_sqe True, Prep (Prep_read (fi_fd f) buf (of_nat len) 0), Set_data e, Submit])
    \<and> (\<exists>c2 s2. uring_file_write_poll w tid buf len this e (uring_file_future e f c) = Inr (None, c2)
      \<and> dr_objects (co_driver c2) ! i = Uring_obj s2
      \<and> ui_calls s2 = ui_calls s @ [Get_sqe True, Prep (Prep_write (fi_fd f) buf (of_nat len) 0), Set_data e, Submit])"
proof -
  let ?c = "uring_file_future e f c" and ?x = "uring_IoExtra\<lparr>ur_fd := fi_fd f\<rparr>"
  have "finds tid Uring_class i ?c" "dr_objects (co_driver ?c) ! i = Uring_obj s"
    "ev_extra (co_heap ?c e) = Some (UringExtra ?x)" "\<not> get_field 2 (ur_state ?x)" "\<not> get_field 1 (ur_state ?x)"
    using assms by (simp_all add: uring_file_future_def finds_def uring_IoExtra_def get_field_def)
  note asks = uring_poll_asks [OF this _ assms(3)]
  show ?thesis
    using asks [of "\<lambda>x. x\<lparr>ur_args := Args_Read buf (of_nat len) 0\<rparr>" "\<lambda>ret c. (uring_bytes ret, c)" this]
      asks [of "\<lambda>x. x\<lparr>ur_args := Args_Write buf (of_nat len) 0\<rparr>" "\<lambda>ret c. (uring_bytes ret, c)" this]
    by (simp add: uring_file_read_poll_def uring_file_write_poll_def)
qed

theorem uring_file_offset_witness:
  "\<exists>c1 s1. uring_file_read_poll quiet_world 0 64 10 1 5 (uring_file_future 5 \<lparr>fi_fd = 9, fi_path = []\<rparr> net_core) = Inr (None, c1)
      \<and> dr_objects (co_driver c1) ! 1 = Uring_obj s1
      \<and> ui_calls s1 = [Get_sqe True, Prep (Prep_read 9 64 (of_nat 10) 0), Set_data 5, Submit]"
proof -
  have "dr_objects (co_driver net_core) ! 1 = Uring_obj \<lparr>ui_registered = [], ui_calls = []\<rparr>" "fst (wo_sqe quiet_world)"
    by (simp_all add: net_core_def quiet_world_def)
  from conjunct1 [OF uring_file_offset [OF net_core_finds(2) this, of 64 10 1 5 "\<lparr>fi_fd = 9, fi_path = []\<rparr>"]]
  show ?thesis by (simp only: file_obj.simps uring_registry.simps append_Nil)
qed

end
