(* ===== verification/Io_Buffer.thy ===== *)
theory Io_Buffer
  imports Xyco_Error
begin

text \<open>
  The buffered reader (\<open>include/xyco/io/buffer_reader.ccm\<close>) and the utilities that read and
  write whole buffers (\<open>include/xyco/io/read.ccm\<close>, \<open>include/xyco/io/write.ccm\<close>). They are
  templates over a reader and a writer; these are arguments here. A reader is what awaiting
  \<open>reader.read(begin, end)\<close> gives: from a state of the world and the length of the range, the bytes
  stored from \<open>begin\<close> on, or an error, and the new state. A writer gets the bytes of its range and
  gives how many of them it took. The loops end only if the reader or writer lets them, so
  they are partial functions: \<^const>\<open>None\<close> is a loop that never ends.
\<close>

type_synonym 'w reader = "'w \<Rightarrow> nat \<Rightarrow> string result \<times> 'w"
type_synonym 'w writer = "'w \<Rightarrow> string \<Rightarrow> nat result \<times> 'w"

section \<open>The buffered reader\<close>

record buffer_reader =
  br_buffer :: string
  br_pos :: nat
  br_cap :: nat

definition BufferReader :: buffer_reader where
  "BufferReader = \<lparr>br_buffer = replicate (8 * 1024) (CHR 0x00), br_pos = 0, br_cap = 0\<rparr>"

definition consume :: "16 word \<Rightarrow> buffer_reader \<Rightarrow> buffer_reader" where
  "consume amt b = b\<lparr>br_pos := min (br_pos b + unat amt) (br_cap b)\<rparr>"

text \<open>The result is the pair of positions in the buffer that the returned iterators point to.\<close>

definition fill_buffer :: "'w reader \<Rightarrow> buffer_reader \<Rightarrow> 'w \<Rightarrow> (nat \<times> nat) result \<times> buffer_reader \<times> 'w" where
  "fill_buffer inner_reader b w =
     (if br_pos b = br_cap b
      then (case inner_reader w (length (br_buffer b)) of
              (Inl err, w) \<Rightarrow> (Inl err, b, w)
            | (Inr bytes, w) \<Rightarrow>
                (Inr (0, length bytes),
                 b\<lparr>br_buffer := bytes @ drop (length bytes) (br_buffer b), br_cap := length bytes, br_pos := 0\<rparr>, w))
      else (Inr (br_pos b, br_cap b), b, w))"

definition BufferReader_read :: "'w reader \<Rightarrow> nat \<Rightarrow> buffer_reader \<Rightarrow> 'w \<Rightarrow> string result \<times> buffer_reader \<times> 'w" where
  "BufferReader_read inner_reader len b w =
     (if len \<le> br_cap b - br_pos b
      then (Inr (take len (drop (br_pos b) (br_buffer b))), consume (of_nat len) b, w)
      else (case fill_buffer inner_reader b w of
              (Inl err, b, w) \<Rightarrow> (Inl err, b, w)
            | (Inr _, b, w) \<Rightarrow>
                (let len = min len (br_cap b - br_pos b)
                 in (Inr (take len (br_buffer b)), consume (of_nat len) b, w))))"

section \<open>Reading\<close>

text \<open>
  The bytes between two iterators into the buffer. One byte past the end of the buffer is the
  terminator of the string.
\<close>

definition bytes_between :: "nat \<Rightarrow> nat \<Rightarrow> buffer_reader \<Rightarrow> string" where
  "bytes_between i j b = take (j - i) (drop i (br_buffer b @ [CHR 0x00]))"

text \<open>\<open>std::find\<close> on the bytes from position \<open>i\<close> to \<open>j\<close> of the buffer.\<close>

definition find_from :: "char \<Rightarrow> nat \<Rightarrow> nat \<Rightarrow> buffer_reader \<Rightarrow> nat" where
  "find_from c i j b = i + length (takeWhile (\<lambda>x. x \<noteq> c) (bytes_between i j b))"

text \<open>Dereferencing the result of a failed \<open>fill_buffer\<close> is undefined.\<close>

partial_function (option) read_to_end_loop ::
  "'w reader \<Rightarrow> string \<Rightarrow> buffer_reader \<Rightarrow> 'w \<Rightarrow> (string outcome \<times> buffer_reader \<times> 'w) option" where
  "read_to_end_loop rd content b w = (case fill_buffer rd b w of
     (Inl _, b, w) \<Rightarrow> Some (Inl Bad_expected, b, w)
   | (Inr (begin, end'), b, w) \<Rightarrow>
       if begin = end' then Some (Inr content, b, w)
       else read_to_end_loop rd (content @ bytes_between begin end' b) (consume (of_nat (end' - begin)) b) w)"

definition read_to_end :: "'w reader \<Rightarrow> buffer_reader \<Rightarrow> 'w \<Rightarrow> (string outcome \<times> buffer_reader \<times> 'w) option" where
  "read_to_end rd = read_to_end_loop rd []"

partial_function (option) read_until_loop ::
  "'w reader \<Rightarrow> char \<Rightarrow> string \<Rightarrow> buffer_reader \<Rightarrow> 'w \<Rightarrow> (string outcome \<times> buffer_reader \<times> 'w) option" where
  "read_until_loop rd c content b w = (case fill_buffer rd b w of
     (Inl _, b, w) \<Rightarrow> Some (Inl Bad_expected, b, w)
   | (Inr (begin, end'), b, w) \<Rightarrow>
       if begin = end' then Some (Inr content, b, w)
       else
         (let pos = find_from c begin end' b;
              content = content @ bytes_between begin (pos + 1) b;
              b' = consume (of_nat (pos + 1 - begin)) b
          in if pos \<noteq> end' then Some (Inr content, b', w) else read_until_loop rd c content b' w))"

definition read_until :: "'w reader \<Rightarrow> char \<Rightarrow> buffer_reader \<Rightarrow> 'w \<Rightarrow> (string outcome \<times> buffer_reader \<times> 'w) option" where
  "read_until rd c = read_until_loop rd c []"

abbreviation (input) newline :: char where "newline \<equiv> CHR 0x0A"

definition read_line :: "'w reader \<Rightarrow> buffer_reader \<Rightarrow> 'w \<Rightarrow> (string outcome \<times> buffer_reader \<times> 'w) option" where
  "read_line rd = read_until rd newline"

section \<open>Writing\<close>

text \<open>\<open>EAGAIN\<close> and \<open>EWOULDBLOCK\<close> are the same number on Linux.\<close>

definition again :: "err \<Rightarrow> bool" where
  "again error \<longleftrightarrow> \<not> (err_no error \<noteq> EAGAIN \<and> err_no error \<noteq> EWOULDBLOCK \<and> err_no error \<noteq> EINTR)"

text \<open>\<open>total_write\<close> is also the distance of \<open>begin\<close> from the start of the buffer.\<close>

partial_function (option) write_all_loop :: "'w writer \<Rightarrow> string \<Rightarrow> nat \<Rightarrow> 'w \<Rightarrow> (unit result \<times> 'w) option" where
  "write_all_loop wr buffer total_write w =
     (if total_write = length buffer then Some (Inr (), w)
      else (case wr w (drop total_write buffer) of
              (Inr nbytes, w) \<Rightarrow> write_all_loop wr buffer (total_write + nbytes) w
            | (Inl error, w) \<Rightarrow>
                if \<not> again error then Some (Inl error, w) else write_all_loop wr buffer total_write w))"

definition write_all :: "'w writer \<Rightarrow> string \<Rightarrow> 'w \<Rightarrow> (unit result \<times> 'w) option" where
  "write_all wr buffer = write_all_loop wr buffer 0"

section \<open>Invariant and laws\<close>

definition reader_ok :: "buffer_reader \<Rightarrow> bool" where
  "reader_ok b \<longleftrightarrow> length (br_buffer b) = 8192 \<and> br_pos b \<le> br_cap b \<and> br_cap b \<le> 8192"

definition unread :: "buffer_reader \<Rightarrow> string" where
  "unread b = take (br_cap b - br_pos b) (drop (br_pos b) (br_buffer b))"

text \<open>A reader that stores no more than it is asked for.\<close>

definition bounded_reader :: "'w reader \<Rightarrow> bool" where
  "bounded_reader rd \<longleftrightarrow> (\<forall>w len bs w'. rd w len = (Inr bs, w') \<longrightarrow> length bs \<le> len)"

text \<open>
  A reader of a stream of bytes, of which \<open>rest\<close> are still to come: every read gives a piece of them
  of its own choice, empty only at the end.
\<close>

definition byte_source :: "'w reader \<Rightarrow> ('w \<Rightarrow> string) \<Rightarrow> bool" where
  "byte_source rd rest \<longleftrightarrow> (\<forall>w len. 0 < len \<longrightarrow> (\<exists>bs w'. rd w len = (Inr bs, w') \<and> length bs \<le> len
     \<and> rest w = bs @ rest w' \<and> (bs = [] \<longrightarrow> rest w = [])))"

text \<open>
  A writer onto a stream of bytes \<open>sent\<close>: it takes a piece of the front of what it is given, or
  fails and takes nothing. \<open>patience\<close> bounds how often it takes nothing and asks to be called again.
\<close>

definition byte_sink :: "'w writer \<Rightarrow> ('w \<Rightarrow> string) \<Rightarrow> ('w \<Rightarrow> nat) \<Rightarrow> bool" where
  "byte_sink wr sent patience \<longleftrightarrow> (\<forall>w bs. bs \<noteq> [] \<longrightarrow> (case wr w bs of
     (Inr n, w') \<Rightarrow> n \<le> length bs \<and> sent w' = sent w @ take n bs \<and> (n = 0 \<longrightarrow> patience w' < patience w)
   | (Inl e, w') \<Rightarrow> sent w' = sent w \<and> (again e \<longrightarrow> patience w' < patience w)))"

lemma reader_ok_BufferReader [simp]: "reader_ok BufferReader"
  by (simp add: reader_ok_def BufferReader_def)

lemma unread_BufferReader [simp]: "unread BufferReader = []"
  by (simp add: unread_def BufferReader_def)

lemma length_unread: "reader_ok b \<Longrightarrow> length (unread b) = br_cap b - br_pos b"
  by (auto simp: unread_def reader_ok_def)

lemma unread_empty: "reader_ok b \<Longrightarrow> unread b = [] \<longleftrightarrow> br_pos b = br_cap b"
  by (metis diff_is_0_eq le_antisym length_0_conv length_unread reader_ok_def)

lemma consume_ok:
  assumes "reader_ok b" "n \<le> 65535"
  shows "reader_ok (consume (of_nat n) b)" "unread (consume (of_nat n) b) = drop n (unread b)"
    "br_buffer (consume (of_nat n) b) = br_buffer b" "br_cap (consume (of_nat n) b) = br_cap b"
proof -
  have "unat (of_nat n :: 16 word) = n" using assms(2) by (simp add: unat_of_nat take_bit_nat_eq_self)
  then show "reader_ok (consume (of_nat n) b)" "br_buffer (consume (of_nat n) b) = br_buffer b"
    "br_cap (consume (of_nat n) b) = br_cap b" "unread (consume (of_nat n) b) = drop n (unread b)"
    using assms(1) by (auto simp: reader_ok_def consume_def unread_def min_def drop_take add.commute)
qed

lemma bytes_between_unread:
  assumes "reader_ok b"
  shows "bytes_between (br_pos b) (br_cap b) b = unread b"
    "n \<le> length (unread b) \<Longrightarrow> bytes_between (br_pos b) (br_pos b + n) b = take n (unread b)"
    "bytes_between (br_pos b) (br_cap b + 1) b = unread b @ [(br_buffer b @ [CHR 0x00]) ! br_cap b]"
proof -
  have len: "length (br_buffer b) = 8192" "br_pos b \<le> br_cap b" "br_cap b \<le> 8192" using assms by (simp_all add: reader_ok_def)
  then show all: "bytes_between (br_pos b) (br_cap b) b = unread b" by (simp add: bytes_between_def unread_def)
  show "bytes_between (br_pos b) (br_pos b + n) b = take n (unread b)" if "n \<le> length (unread b)"
    using that len length_unread [OF assms] by (simp add: bytes_between_def unread_def)
  have "take (Suc (br_cap b - br_pos b)) (drop (br_pos b) (br_buffer b @ [CHR 0x00]))
      = take (br_cap b - br_pos b) (drop (br_pos b) (br_buffer b @ [CHR 0x00])) @ [drop (br_pos b) (br_buffer b @ [CHR 0x00]) ! (br_cap b - br_pos b)]"
    using len by (intro take_Suc_conv_app_nth) simp
  then show "bytes_between (br_pos b) (br_cap b + 1) b = unread b @ [(br_buffer b @ [CHR 0x00]) ! br_cap b]"
    using all len by (simp add: bytes_between_def Suc_diff_le del: drop_append)
qed

text \<open>Filling the buffer loses nothing, and finds nothing only at the end of the stream.\<close>

lemma fill_buffer_source:
  assumes "reader_ok b" "byte_source rd rest"
  obtains b' w' where "fill_buffer rd b w = (Inr (br_pos b', br_cap b'), b', w')" "reader_ok b'"
    "unread b' @ rest w' = unread b @ rest w" "unread b' = [] \<longrightarrow> unread b @ rest w = []"
proof (cases "br_pos b = br_cap b")
  case True
  have len: "length (br_buffer b) = 8192" using assms(1) by (simp add: reader_ok_def)
  then obtain bs w' where rd: "rd w (length (br_buffer b)) = (Inr bs, w')" "length bs \<le> 8192" "rest w = bs @ rest w'"
    "bs = [] \<Longrightarrow> rest w = []"
    using assms(2) unfolding byte_source_def by (metis zero_less_numeral)
  let ?b = "b\<lparr>br_buffer := bs @ drop (length bs) (br_buffer b), br_cap := length bs, br_pos := 0\<rparr>"
  have "unread ?b = bs" "unread b = []" using True by (simp_all add: unread_def)
  moreover have "reader_ok ?b" using rd(2) len by (simp add: reader_ok_def)
  moreover have "fill_buffer rd b w = (Inr (br_pos ?b, br_cap ?b), ?b, w')" using True rd(1) by (simp add: fill_buffer_def)
  ultimately show ?thesis using that [of ?b w'] rd(3,4) by simp
next
  case False
  with assms(1) have "unread b \<noteq> []" by (simp add: unread_empty)
  with False show ?thesis using that [of b w] assms(1) by (simp add: fill_buffer_def)
qed

lemma read_to_end_loop_all:
  assumes "byte_source rd rest" "reader_ok b"
  shows "\<exists>b' w'. read_to_end_loop rd content b w = Some (Inr (content @ unread b @ rest w), b', w')
    \<and> reader_ok b' \<and> unread b' = [] \<and> rest w' = []"
  using assms(2)
proof (induction "length (unread b @ rest w)" arbitrary: content b w rule: less_induct)
  case less
  obtain b1 w1 where fill: "fill_buffer rd b w = (Inr (br_pos b1, br_cap b1), b1, w1)" and ok: "reader_ok b1"
    and eq: "unread b1 @ rest w1 = unread b @ rest w" and none: "unread b1 = [] \<longrightarrow> unread b @ rest w = []"
    by (rule fill_buffer_source [OF less.prems assms(1), where w = w])
  show ?case
  proof (cases "unread b1 = []")
    case True
    with none eq ok fill show ?thesis by (subst read_to_end_loop.simps) (simp add: unread_empty)
  next
    case False
    let ?b = "consume (of_nat (br_cap b1 - br_pos b1)) b1"
    have "br_cap b1 - br_pos b1 \<le> 65535" using ok by (auto simp: reader_ok_def)
    then have b: "reader_ok ?b" "unread ?b = []" using consume_ok(1,2) [OF ok] length_unread [OF ok] by simp_all
    have "length (unread ?b @ rest w1) < length (unread b @ rest w)"
      using False b(2) by (simp flip: eq)
    note IH = less.hyps [OF this b(1), of "content @ unread b1"]
    have "read_to_end_loop rd content b w = read_to_end_loop rd (content @ unread b1) ?b w1"
      using fill False ok by (subst read_to_end_loop.simps) (simp add: unread_empty bytes_between_unread)
    with IH b(2) eq show ?thesis by simp
  qed
qed

text \<open>One round of \<^const>\<open>read_until_loop\<close> on bytes that are already buffered.\<close>

lemma read_until_found:
  assumes "reader_ok b" "c \<in> set (unread b)"
  shows "\<exists>b'. read_until_loop rd c content b w = Some (Inr (content @ takeWhile (\<lambda>x. x \<noteq> c) (unread b) @ [c]), b', w)
    \<and> reader_ok b' \<and> unread b' = tl (dropWhile (\<lambda>x. x \<noteq> c) (unread b)) \<and> br_buffer b' = br_buffer b \<and> br_cap b' = br_cap b"
proof -
  let ?n = "length (takeWhile (\<lambda>x. x \<noteq> c) (unread b))"
  have n: "?n < length (unread b)" using assms(2) by (metis (mono_tags, lifting) length_takeWhile_le nat_less_le takeWhile_eq_all_conv takeWhile_eq_take take_all_iff order_refl)
  have c: "unread b ! ?n = c" using n nth_length_takeWhile [of "\<lambda>x. x \<noteq> c" "unread b"] by simp
  have full: "fill_buffer rd b w = (Inr (br_pos b, br_cap b), b, w)" "br_pos b \<noteq> br_cap b"
    using n unread_empty [OF assms(1)] by (auto simp: fill_buffer_def)
  have pos: "find_from c (br_pos b) (br_cap b) b = br_pos b + ?n" by (simp add: find_from_def bytes_between_unread [OF assms(1)])
  have "bytes_between (br_pos b) (br_pos b + Suc ?n) b = take (Suc ?n) (unread b)"
    using n by (intro bytes_between_unread [OF assms(1)]) simp
  also have "\<dots> = takeWhile (\<lambda>x. x \<noteq> c) (unread b) @ [c]" using n c by (simp add: take_Suc_conv_app_nth flip: takeWhile_eq_take)
  finally have bytes: "bytes_between (br_pos b) (Suc (br_pos b + ?n)) b = takeWhile (\<lambda>x. x \<noteq> c) (unread b) @ [c]" by simp
  have "length (unread b) \<le> 8192" using length_unread [OF assms(1)] assms(1) by (auto simp: reader_ok_def)
  with n have "Suc ?n \<le> 65535" by linarith
  note b' = consume_ok [OF assms(1) this]
  have "drop (Suc ?n) (unread b) = tl (dropWhile (\<lambda>x. x \<noteq> c) (unread b))" by (simp add: dropWhile_eq_drop drop_Suc tl_drop)
  moreover have "br_pos b + ?n \<noteq> br_cap b" using n length_unread [OF assms(1)] by simp
  ultimately show ?thesis using full pos bytes b'
    by (subst read_until_loop.simps) (simp add: Let_def)
qed

lemma read_until_absent:
  assumes "reader_ok b" "unread b \<noteq> []" "c \<notin> set (unread b)"
  shows "\<exists>b'. read_until_loop rd c content b w
      = read_until_loop rd c (content @ unread b @ [(br_buffer b @ [CHR 0x00]) ! br_cap b]) b' w
    \<and> reader_ok b' \<and> unread b' = [] \<and> br_buffer b' = br_buffer b \<and> br_cap b' = br_cap b"
proof -
  have pos: "find_from c (br_pos b) (br_cap b) b = br_cap b"
  proof -
    have "takeWhile (\<lambda>x. x \<noteq> c) (unread b) = unread b" using assms(3) by (subst takeWhile_eq_all_conv) blast
    moreover have "br_pos b + length (unread b) = br_cap b" using assms(1) length_unread [OF assms(1)] by (simp add: reader_ok_def)
    ultimately show ?thesis using assms(1) by (simp only: find_from_def bytes_between_unread)
  qed
  have full: "fill_buffer rd b w = (Inr (br_pos b, br_cap b), b, w)" "br_pos b \<noteq> br_cap b"
    using assms(2) unread_empty [OF assms(1)] by (auto simp: fill_buffer_def)
  have "br_cap b + 1 - br_pos b \<le> 65535" using assms(1) unfolding reader_ok_def by linarith
  note b' = consume_ok [OF assms(1) this]
  have "drop (br_cap b + 1 - br_pos b) (unread b) = []" using length_unread [OF assms(1)] by simp
  moreover have "read_until_loop rd c content b w = read_until_loop rd c (content @ unread b @ [(br_buffer b @ [CHR 0x00]) ! br_cap b])
      (consume (of_nat (br_cap b + 1 - br_pos b)) b) w"
    by (subst read_until_loop.simps)
      (simp only: full pos bytes_between_unread(3) [OF assms(1)] Let_def prod.case sum.case if_False simp_thms append_assoc)
  ultimately show ?thesis using b' by (intro exI [of _ "consume (of_nat (br_cap b + 1 - br_pos b)) b"]) (simp only: simp_thms)
qed

text \<open>At the end of the stream, what was collected so far is returned.\<close>

lemma read_until_eof:
  assumes "reader_ok b" "unread b = []" "rd w 8192 = (Inr [], w')"
  shows "read_until_loop rd c content b w = Some (Inr content, b\<lparr>br_cap := 0, br_pos := 0\<rparr>, w')"
  using assms by (subst read_until_loop.simps) (simp add: fill_buffer_def unread_empty reader_ok_def)

definition delivered :: "('w \<Rightarrow> string) \<Rightarrow> string \<Rightarrow> 'w \<Rightarrow> unit result \<Rightarrow> 'w \<Rightarrow> bool" where
  "delivered sent bs w r w' \<longleftrightarrow> (case r of
     Inr _ \<Rightarrow> sent w' = sent w @ bs
   | Inl e \<Rightarrow> \<not> again e \<and> (\<exists>k < length bs. sent w' = sent w @ take k bs))"

lemma delivered_step:
  assumes "sent w1 = sent w @ take n bs" "n \<le> length bs" "delivered sent (drop n bs) w1 r w'"
  shows "delivered sent bs w r w'"
proof (cases r)
  case (Inl e)
  with assms(3) obtain k where k: "\<not> again e" "k < length bs - n" "sent w' = sent w1 @ take k (drop n bs)"
    by (auto simp: delivered_def)
  then have "sent w' = sent w @ take (n + k) bs" "n + k < length bs" using assms(1) by (simp_all add: take_add)
  with k(1) Inl show ?thesis by (auto simp: delivered_def)
next
  case (Inr u)
  with assms show ?thesis by (simp add: delivered_def)
qed

lemma write_all_loop_delivers:
  assumes "byte_sink wr sent patience" "k \<le> length buffer"
  shows "\<exists>r w'. write_all_loop wr buffer k w = Some (r, w') \<and> delivered sent (drop k buffer) w r w'"
  using assms(2)
proof (induction "(length buffer - k, patience w)" arbitrary: k w
    rule: wf_induct_rule [OF wf_lex_prod [OF wf_less_than wf_less_than]])
  case 1
  show ?case
  proof (cases "k = length buffer")
    case True
    then show ?thesis by (subst write_all_loop.simps) (simp add: delivered_def)
  next
    case False
    with "1.prems" have less: "k < length buffer" and ne: "drop k buffer \<noteq> []" by simp_all
    obtain r w1 where wr: "wr w (drop k buffer) = (r, w1)" by fastforce
    note law = assms(1) [unfolded byte_sink_def, rule_format, OF ne, of w, unfolded wr]
    have again: ?thesis if n: "n \<le> length buffer - k" "sent w1 = sent w @ take n (drop k buffer)"
        "n = 0 \<longrightarrow> patience w1 < patience w" and step: "write_all_loop wr buffer k w = write_all_loop wr buffer (k + n) w1" for n
    proof -
      have "((length buffer - (k + n), patience w1), length buffer - k, patience w) \<in> less_than <*lex*> less_than"
        using n less by (cases n) auto
      moreover have "k + n \<le> length buffer" using n(1) less by linarith
      ultimately obtain r w' where "write_all_loop wr buffer (k + n) w1 = Some (r, w')" "delivered sent (drop (k + n) buffer) w1 r w'"
        using "1.hyps" by blast
      with step n delivered_step [of sent w1 w n "drop k buffer" r w'] show ?thesis by (auto simp: add.commute)
    qed
    consider n where "r = Inr n" | e where "r = Inl e" "again e" | e where "r = Inl e" "\<not> again e" by (cases r) auto
    then show ?thesis
    proof cases
      case (1 n)
      moreover have "write_all_loop wr buffer k w = write_all_loop wr buffer (k + n) w1"
        using False wr 1 by (subst write_all_loop.simps) simp
      ultimately show ?thesis using law again [of n] by simp
    next
      case (2 e)
      moreover have "write_all_loop wr buffer k w = write_all_loop wr buffer (k + 0) w1"
        using False wr 2 by (subst write_all_loop.simps) simp
      ultimately show ?thesis using law again [of 0] by simp
    next
      case (3 e)
      then have "write_all_loop wr buffer k w = Some (Inl e, w1)" using False wr by (subst write_all_loop.simps) simp
      with 3 law less show ?thesis by (auto simp: delivered_def intro!: exI [of _ 0])
    qed
  qed
qed

end
