(* ===== verification/Io_Properties.thy ===== *)
theory Io_Properties
  imports Io_Buffer
begin

text \<open>
  Properties of the buffered reader and of the utilities that read and write whole buffers, for
  every reader and writer that keeps the contract of \<open>read\<close> and \<open>write\<close>.
\<close>

text \<open>
  A stream for the witnesses: the bytes to come, of which a read gives at most two, and the bytes
  sent, of which a write takes at most two; the counter is how often a write is still interrupted.
\<close>

definition pipe_read :: "(string \<times> string \<times> nat) reader" where
  "pipe_read = (\<lambda>(rest, sent, k) len. (Inr (take (min 2 len) rest), drop (min 2 len) rest, sent, k))"

definition pipe_write :: "(string \<times> string \<times> nat) writer" where
  "pipe_write = (\<lambda>(rest, sent, k) bs.
     if k = 0 then (Inr (min 2 (length bs)), rest, sent @ take 2 bs, 0)
     else (Inl \<lparr>err_no = EINTR, err_info = []\<rparr>, rest, sent, k - 1))"

lemma pipe_source: "byte_source pipe_read fst"
  by (auto simp: byte_source_def pipe_read_def)

lemma pipe_sink: "byte_sink pipe_write (fst \<circ> snd) (snd \<circ> snd)"
  by (auto simp: byte_sink_def pipe_write_def min_def)

text \<open>
  C27. write_all ends and delivers. With a writer that takes a front piece of what it is given or
  fails without taking any, and that takes nothing and asks for another attempt (a count
  of 0, EAGAIN, EWOULDBLOCK or EINTR) only finitely often in a row, write_all returns. On success
  exactly the buffer was sent, once and in order; on failure the error is not one of the three, and
  what was sent is a proper front piece of the buffer.
\<close>

theorem write_all_delivers:
  assumes "byte_sink wr sent patience"
  shows "\<exists>r w'. write_all wr buffer w = Some (r, w') \<and> (case r of
      Inr _ \<Rightarrow> sent w' = sent w @ buffer
    | Inl e \<Rightarrow> err_no e \<notin> {EAGAIN, EWOULDBLOCK, EINTR} \<and> (\<exists>k < length buffer. sent w' = sent w @ take k buffer))"
proof -
  obtain r w' where "write_all wr buffer w = Some (r, w')" "delivered sent buffer w r w'"
    using write_all_loop_delivers [OF assms, of 0 buffer w] unfolding write_all_def by auto
  then show ?thesis by (intro exI [of _ r] exI [of _ w']) (cases r, simp_all add: delivered_def again_def)
qed

theorem write_all_delivers_witness:
  "\<exists>r w'. write_all pipe_write ''hello'' ([], ''>'', 3) = Some (r, w') \<and> (case r of
      Inr _ \<Rightarrow> fst (snd w') = ''>hello''
    | Inl e \<Rightarrow> err_no e \<notin> {EAGAIN, EWOULDBLOCK, EINTR} \<and> (\<exists>k < length ''hello''. fst (snd w') = ''>'' @ take k ''hello''))"
proof -
  from write_all_delivers [OF pipe_sink, of "''hello''" "([], ''>'', 3)"] obtain r w' where
    "write_all pipe_write ''hello'' ([], ''>'', 3) = Some (r, w')" and "case r of
      Inr _ \<Rightarrow> (fst \<circ> snd) w' = (fst \<circ> snd) ([] :: string, ''>'', 3 :: nat) @ ''hello''
    | Inl e \<Rightarrow> err_no e \<notin> {EAGAIN, EWOULDBLOCK, EINTR}
        \<and> (\<exists>k < length ''hello''. (fst \<circ> snd) w' = (fst \<circ> snd) ([] :: string, ''>'', 3 :: nat) @ take k ''hello'')"
    by blast
  then show ?thesis by (intro exI [of _ r] exI [of _ w']) (cases r, simp_all)
qed

text \<open>
  C28. read_to_end returns the stream. Over a reader that gives a stream of bytes in pieces of any
  size, empty only at its end, read_to_end terminates with exactly the bytes still in the buffer
  followed by the rest of the stream, and leaves nothing unread.
\<close>

theorem read_to_end_all:
  assumes "byte_source rd rest" "reader_ok b"
  shows "\<exists>b' w'. read_to_end rd b w = Some (Inr (unread b @ rest w), b', w')
    \<and> reader_ok b' \<and> unread b' = [] \<and> rest w' = []"
  using read_to_end_loop_all [OF assms, of "[]" w] by (simp add: read_to_end_def)

theorem read_to_end_all_witness:
  "\<exists>b' w'. read_to_end pipe_read BufferReader (''hello'', [], 0) = Some (Inr ''hello'', b', w')
    \<and> reader_ok b' \<and> unread b' = [] \<and> fst w' = []"
  using read_to_end_all [OF pipe_source reader_ok_BufferReader, of "(''hello'', [], 0)"] by simp

text \<open>
  C30. read_until is exact on buffered bytes only. When the delimiter is among the unread bytes of
  the buffer, read_until returns them up to and including its first occurrence, reads
  nothing, and leaves the bytes behind it unread. When it is not, the byte of the buffer
  behind the filled part gets into the result after the unread bytes, and reading goes on: at the end
  of the stream the result has one byte the stream did not have.
\<close>

theorem read_until_buffered:
  assumes "reader_ok b" "unread b \<noteq> []"
  shows "if c \<in> set (unread b)
    then \<exists>b' line. read_until rd c b w = Some (Inr (line @ [c]), b', w) \<and> reader_ok b' \<and> c \<notin> set line
      \<and> unread b = line @ c # unread b'
    else (rd w 8192 = (Inr [], w') \<longrightarrow>
      (\<exists>b' x. read_until rd c b w = Some (Inr (unread b @ [x]), b', w') \<and> x = (br_buffer b @ [CHR 0x00]) ! br_cap b))"
proof (cases "c \<in> set (unread b)")
  case True
  let ?line = "takeWhile (\<lambda>x. x \<noteq> c) (unread b)" and ?rest = "dropWhile (\<lambda>x. x \<noteq> c) (unread b)"
  have "?rest \<noteq> []" using True by (simp add: dropWhile_eq_Nil_conv)
  moreover from this have "hd ?rest = c" by (metis (mono_tags, lifting) hd_dropWhile)
  ultimately have "unread b = ?line @ c # tl ?rest" by (metis list.collapse takeWhile_dropWhile_id)
  moreover have "c \<notin> set ?line" by (auto dest: set_takeWhileD)
  moreover from read_until_found [OF assms(1) True, of rd "[]" w] obtain b' where
    "read_until rd c b w = Some (Inr (?line @ [c]), b', w)" "reader_ok b'" "unread b' = tl ?rest"
    unfolding read_until_def by auto
  ultimately show ?thesis using True by auto
next
  case False
  from read_until_absent [OF assms False, of rd "[]" w] obtain b' where
    "read_until rd c b w = read_until_loop rd c (unread b @ [(br_buffer b @ [CHR 0x00]) ! br_cap b]) b' w"
    "reader_ok b'" "unread b' = []"
    unfolding read_until_def by auto
  with False show ?thesis using read_until_eof [of b' rd w w'] by auto
qed

definition two_left :: buffer_reader where
  "two_left = BufferReader\<lparr>br_buffer := ''ab'' @ replicate 8190 (CHR 0x00), br_cap := 2\<rparr>"

lemma two_left_simps: "reader_ok two_left" "unread two_left = ''ab''" "(br_buffer two_left @ [CHR 0x00]) ! br_cap two_left = CHR 0x00"
  by (simp_all add: two_left_def BufferReader_def reader_ok_def unread_def nth_append)

theorem read_until_buffered_witness:
  "(\<exists>b'. read_until pipe_read (CHR ''a'') two_left ([], [], 0) = Some (Inr ''a'', b', [], [], 0))
   \<and> (\<exists>b'. read_until pipe_read (CHR ''c'') two_left ([], [], 0) = Some (Inr [CHR ''a'', CHR ''b'', CHR 0x00], b', [], [], 0))"
proof -
  have a: "line = []" if "''ab'' = line @ CHR ''a'' # r" "CHR ''a'' \<notin> set line" for line r
    using that by (cases line) auto
  have "pipe_read ([], [], 0) 8192 = (Inr [], [], [], 0)" by (simp add: pipe_read_def)
  with read_until_buffered [OF two_left_simps(1), of "CHR ''a''" pipe_read "([], [], 0)" "([], [], 0)"]
    read_until_buffered [OF two_left_simps(1), of "CHR ''c''" pipe_read "([], [], 0)" "([], [], 0)"]
  show ?thesis using a by (auto simp: two_left_simps)
qed

text \<open>
  \<open>BufferReader::read\<close> gives the next bytes when enough of them are buffered or none at all. With
  fewer buffered than asked for, it gives bytes from the start of the buffer instead of the unread ones.
\<close>

lemma buffered_read_cases:
  assumes "reader_ok b"
  shows "len \<le> length (unread b) \<Longrightarrow> fst (BufferReader_read rd len b w) = Inr (take len (unread b))"
    and "unread b \<noteq> [] \<Longrightarrow> length (unread b) < len
      \<Longrightarrow> fst (BufferReader_read rd len b w) = Inr (take (length (unread b)) (br_buffer b))"
  using assms length_unread [OF assms] unread_empty [OF assms]
  by (auto simp: BufferReader_read_def fill_buffer_def unread_def Let_def min_def)

text \<open>The reader keeps its invariant, and as a reader is bounded if the one it buffers is.\<close>

lemma buffered_read_ok:
  assumes "bounded_reader rd" "reader_ok b" "BufferReader_read rd len b w = (r, b', w')"
  shows "reader_ok b'" "r = Inr bs \<Longrightarrow> length bs \<le> len"
proof -
  have "length x \<le> 8192" if "rd w 8192 = (Inr x, w1)" for x w1 using assms(1) that unfolding bounded_reader_def by blast
  then have fill: "reader_ok b1" if "fill_buffer rd b w = (r1, b1, w1)" for r1 b1 w1
    using that assms(2) unfolding fill_buffer_def
    by (fastforce simp: reader_ok_def split: if_splits sum.splits prod.splits)
  have ok: "reader_ok (consume n b1)" if "reader_ok b1" for n b1 using that by (auto simp: reader_ok_def consume_def)
  show "reader_ok b'" "r = Inr bs \<Longrightarrow> length bs \<le> len"
    using assms(2,3) fill by (auto simp: BufferReader_read_def Let_def ok split: if_splits sum.splits prod.splits)
qed

section \<open>The positions of the buffered reader\<close>

lemma fill_buffer_ok:
  assumes "bounded_reader rd" "reader_ok b" "fill_buffer rd b w = (r, b', w')"
  shows "reader_ok b' \<and> (\<forall>i j. r = Inr (i, j) \<longrightarrow> i \<le> j \<and> j \<le> 8192)"
proof (cases "br_pos b = br_cap b")
  case True
  have len: "length (br_buffer b) = 8192" using assms(2) by (simp add: reader_ok_def)
  obtain x w1 where rd: "rd w (length (br_buffer b)) = (x, w1)" by fastforce
  moreover have "length bytes \<le> 8192" if "x = Inr bytes" for bytes
    using assms(1) rd that len unfolding bounded_reader_def by metis
  ultimately show ?thesis using assms(2,3) True len by (cases x) (auto simp: fill_buffer_def reader_ok_def)
next
  case False
  with assms(2,3) show ?thesis by (auto simp: fill_buffer_def reader_ok_def)
qed

lemma consume_any: "reader_ok b \<Longrightarrow> reader_ok (consume amt b)"
  by (auto simp: consume_def reader_ok_def)

lemma read_to_end_loop_ok:
  assumes "bounded_reader rd" "reader_ok b" "read_to_end_loop rd content b w = Some (r, b', w')"
  shows "reader_ok b'"
proof -
  have "(\<lambda>rd content b w (r, b', w'). bounded_reader rd \<longrightarrow> reader_ok b \<longrightarrow> reader_ok b') rd content b w (r, b', w')"
    using assms(3)
  proof (rule read_to_end_loop.raw_induct [rotated])
    fix f :: "'a reader \<Rightarrow> string \<Rightarrow> buffer_reader \<Rightarrow> 'a \<Rightarrow> (string outcome \<times> buffer_reader \<times> 'a) option" and rd content b w y
    assume IH: "\<And>rd content b w y. f rd content b w = Some y \<Longrightarrow>
        (case y of (r, b', w') \<Rightarrow> bounded_reader rd \<longrightarrow> reader_ok b \<longrightarrow> reader_ok b')"
      and step: "(case fill_buffer rd b w of
        (Inl x, b, w) \<Rightarrow> Some (Inl Bad_expected, b, w)
      | (Inr (begin, end'), b, w) \<Rightarrow>
          if begin = end' then Some (Inr content, b, w)
          else f rd (content @ bytes_between begin end' b) (consume (word_of_nat (end' - begin)) b) w) = Some y"
    obtain x b1 w1 where fill: "fill_buffer rd b w = (x, b1, w1)" by (metis prod_cases3)
    have "reader_ok b1" if "bounded_reader rd" "reader_ok b" using fill_buffer_ok [OF that fill] by simp
    note ok = this consume_any [OF this]
    show "case y of (r, b', w') \<Rightarrow> bounded_reader rd \<longrightarrow> reader_ok b \<longrightarrow> reader_ok b'"
    proof (cases x)
      case (Inl e)
      with step fill ok(1) show ?thesis by auto
    next
      case (Inr p)
      obtain i j where p: "p = (i, j)" by fastforce
      show ?thesis
      proof (cases "i = j")
        case True
        with step fill ok(1) Inr p show ?thesis by auto
      next
        case False
        with step fill Inr p have "f rd (content @ bytes_between i j b1) (consume (word_of_nat (j - i)) b1) w1 = Some y" by simp
        from IH [OF this] ok(2) show ?thesis by auto
      qed
    qed
  qed
  with assms(1,2) show ?thesis by simp
qed

lemma read_until_loop_ok:
  assumes "bounded_reader rd" "reader_ok b" "read_until_loop rd ch content b w = Some (r, b', w')"
  shows "reader_ok b'"
proof -
  have "(\<lambda>rd ch content b w (r, b', w'). bounded_reader rd \<longrightarrow> reader_ok b \<longrightarrow> reader_ok b') rd ch content b w (r, b', w')"
    using assms(3)
  proof (rule read_until_loop.raw_induct [rotated])
    fix f :: "'a reader \<Rightarrow> char \<Rightarrow> string \<Rightarrow> buffer_reader \<Rightarrow> 'a \<Rightarrow> (string outcome \<times> buffer_reader \<times> 'a) option" and rd ch content b w y
    assume IH: "\<And>rd ch content b w y. f rd ch content b w = Some y \<Longrightarrow>
        (case y of (r, b', w') \<Rightarrow> bounded_reader rd \<longrightarrow> reader_ok b \<longrightarrow> reader_ok b')"
      and step: "(case fill_buffer rd b w of
        (Inl x, b, w) \<Rightarrow> Some (Inl Bad_expected, b, w)
      | (Inr (begin, end'), b, w) \<Rightarrow>
          if begin = end' then Some (Inr content, b, w)
          else let pos = find_from ch begin end' b; content = content @ bytes_between begin (pos + 1) b;
                   b' = consume (word_of_nat (pos + 1 - begin)) b
               in if pos \<noteq> end' then Some (Inr content, b', w) else f rd ch content b' w) = Some y"
    obtain x b1 w1 where fill: "fill_buffer rd b w = (x, b1, w1)" by (metis prod_cases3)
    have "reader_ok b1" if "bounded_reader rd" "reader_ok b" using fill_buffer_ok [OF that fill] by simp
    note ok = this consume_any [OF this]
    show "case y of (r, b', w') \<Rightarrow> bounded_reader rd \<longrightarrow> reader_ok b \<longrightarrow> reader_ok b'"
    proof (cases x)
      case (Inl e)
      with step fill ok(1) show ?thesis by auto
    next
      case (Inr p)
      obtain i j where p: "p = (i, j)" by fastforce
      let ?pos = "find_from ch i j b1"
      let ?b = "consume (word_of_nat (?pos + 1 - i)) b1"
      consider "i = j" | "i \<noteq> j" "?pos \<noteq> j" | "i \<noteq> j" "?pos = j" by blast
      then show ?thesis
      proof cases
        case 1
        with step fill ok(1) Inr p show ?thesis by auto
      next
        case 2
        with step fill ok(2) Inr p show ?thesis by (auto simp: Let_def)
      next
        case 3
        with step fill Inr p have "f rd ch (content @ bytes_between i (?pos + 1) b1) ?b w1 = Some y" by (simp add: Let_def)
        from IH [OF this] ok(2) show ?thesis by auto
      qed
    qed
  qed
  with assms(1,2) show ?thesis by simp
qed

text \<open>
  C29. The buffered reader keeps its type: a buffer of 8192 bytes in which the read position never passes
  the filled part and this never the buffer. Over a reader that stores no more than it is asked for, each
  operation keeps it, also when the reader fails; the iterators that \<open>fill_buffer\<close> returns are in
  order and in the buffer, and \<open>read\<close> never gives more bytes than asked for.
\<close>

theorem buffer_reader_type:
  assumes "bounded_reader rd" "reader_ok b"
  shows "reader_ok (consume amt b)
    \<and> (\<forall>r b' w'. fill_buffer rd b w = (r, b', w') \<longrightarrow> reader_ok b' \<and> (\<forall>i j. r = Inr (i, j) \<longrightarrow> i \<le> j \<and> j \<le> 8192))
    \<and> (\<forall>r b' w'. BufferReader_read rd len b w = (r, b', w') \<longrightarrow> reader_ok b' \<and> (\<forall>bytes. r = Inr bytes \<longrightarrow> length bytes \<le> len))
    \<and> (\<forall>r b' w'. read_to_end rd b w = Some (r, b', w') \<longrightarrow> reader_ok b')
    \<and> (\<forall>r b' w'. read_until rd ch b w = Some (r, b', w') \<longrightarrow> reader_ok b')
    \<and> (\<forall>r b' w'. read_line rd b w = Some (r, b', w') \<longrightarrow> reader_ok b')"
proof -
  have read: "reader_ok b' \<and> (\<forall>bytes. r = Inr bytes \<longrightarrow> length bytes \<le> len)"
    if "BufferReader_read rd len b w = (r, b', w')" for r b' w'
    using buffered_read_ok [OF assms that] by blast
  show ?thesis
    unfolding read_to_end_def read_until_def read_line_def
    by (intro conjI allI impI consume_any [OF assms(2)]; (erule read_to_end_loop_ok [OF assms] read_until_loop_ok [OF assms])?)
      (use fill_buffer_ok [OF assms] read in \<open>simp_all\<close>)
qed

theorem buffer_reader_type_witness:
  "reader_ok (consume 5 BufferReader)
   \<and> reader_ok (fst (snd (fill_buffer (\<lambda>w n. (Inr (take n w), drop n w)) BufferReader ''ab'')))
   \<and> reader_ok (fst (snd (BufferReader_read (\<lambda>w n. (Inr (take n w), drop n w)) 1 BufferReader ''ab'')))"
proof -
  have "bounded_reader (\<lambda>w n. (Inr (take n w), drop n w))" by (auto simp: bounded_reader_def)
  note type = buffer_reader_type [OF this reader_ok_BufferReader, where amt = 5 and len = 1 and w = "''ab''"]
  show ?thesis
  proof (intro conjI)
    show "reader_ok (fst (snd (fill_buffer (\<lambda>w n. (Inr (take n w), drop n w)) BufferReader ''ab'')))"
      by (rule prod_cases3 [of "fill_buffer (\<lambda>w n. (Inr (take n w), drop n w)) BufferReader ''ab''"])
        (use type in \<open>simp only: fst_conv snd_conv\<close>)
    show "reader_ok (fst (snd (BufferReader_read (\<lambda>w n. (Inr (take n w), drop n w)) 1 BufferReader ''ab'')))"
      by (rule prod_cases3 [of "BufferReader_read (\<lambda>w n. (Inr (take n w), drop n w)) 1 BufferReader ''ab''"])
        (use type in \<open>simp only: fst_conv snd_conv\<close>)
  qed (use type in blast)
qed

end
