(* ===== verification/Xyco_Format.thy ===== *)
theory Xyco_Format
  imports Io_State Net_Socket
begin

text \<open>
  The text of log lines: the specialisations of \<open>std::formatter\<close> that stand next to the classes
  of the library, and \<open>Extra::print\<close> with its four overrides. Of \<open>std::format\<close> this needs
  decimal and hexadecimal numbers and the calendar of \<open>{:%F %T}\<close>. \<open>inet_ntop\<close> is an argument:
  the family, the address and the size of the buffer give the text, or None for a null pointer. To
  assign a null pointer to a \<open>std::string\<close> is undefined, so that formatting has an outcome.
\<close>

unbundle bit_operations_syntax

section \<open>Numbers\<close>

fun to_decimal :: "nat \<Rightarrow> string" where
  "to_decimal n = (if n < 10 then [char_of (48 + n)] else to_decimal (n div 10) @ [char_of (48 + n mod 10)])"

declare to_decimal.simps [simp del]

definition to_string_int :: "int \<Rightarrow> string" where
  "to_string_int i = (if i < 0 then CHR ''-'' # to_decimal (nat (- i)) else to_decimal (nat i))"

definition is_digit :: "char \<Rightarrow> bool" where
  "is_digit c \<longleftrightarrow> 48 \<le> (of_char c :: nat) \<and> (of_char c :: nat) \<le> 57"

fun to_hex :: "nat \<Rightarrow> string" where
  "to_hex n = (let digit = (\<lambda>d. char_of (if d < 10 then 48 + d else 87 + d))
     in if n < 16 then [digit n] else to_hex (n div 16) @ [digit (n mod 16)])"

declare to_hex.simps [simp del]

lemma of_char_digit: "d < 10 \<Longrightarrow> (of_char (char_of (48 + d) :: char) :: nat) = 48 + d" for d :: nat
  by (simp add: of_char_of)

lemma is_digit_char: "d < 10 \<Longrightarrow> is_digit (char_of (48 + d))" for d :: nat
  using of_char_digit [of d] by (simp add: is_digit_def)

lemma to_decimal_digits: "list_all is_digit (to_decimal n) \<and> to_decimal n \<noteq> []"
proof (induction n rule: to_decimal.induct)
  case (1 n)
  show ?case
  proof (cases "n < 10")
    case True
    then show ?thesis by (subst (1 2) to_decimal.simps) (simp add: is_digit_char)
  next
    case False
    then show ?thesis using 1 by (subst (1 2) to_decimal.simps) (simp add: is_digit_char)
  qed
qed

lemma to_decimal_value: "foldl (\<lambda>v c. 10 * v + (of_char c - 48)) 0 (to_decimal n) = int n"
proof (induction n rule: to_decimal.induct)
  case (1 n)
  have digit: "(of_char (char_of (48 + d) :: char) :: int) = 48 + int d" if "d < 10" for d :: nat
    using of_char_digit [OF that] by (metis of_nat_add of_nat_numeral of_nat_of_char)
  show ?case
  proof (cases "n < 10")
    case True
    then show ?thesis by (subst to_decimal.simps) (simp add: digit)
  next
    case False
    then have "foldl (\<lambda>v c. 10 * v + (of_char c - 48)) 0 (to_decimal n) = 10 * int (n div 10) + int (n mod 10)"
      using 1 by (subst to_decimal.simps) (simp add: digit)
    also have "\<dots> = int n" by presburger
    finally show ?thesis .
  qed
qed

lemma to_decimal_inject [simp]: "to_decimal m = to_decimal n \<longleftrightarrow> m = n"
  by (metis to_decimal_value of_nat_eq_iff)

lemma to_decimal_no_sign: "to_decimal n \<noteq> CHR ''-'' # s"
  using to_decimal_digits [of n] by (cases "to_decimal n") (auto simp: is_digit_def)

lemma to_string_int_inject [simp]: "to_string_int i = to_string_int j \<longleftrightarrow> i = j"
proof
  assume eq: "to_string_int i = to_string_int j"
  show "i = j"
  proof (cases "i < 0"; cases "j < 0")
    assume "i < 0" "\<not> j < 0"
    with eq to_decimal_no_sign [of "nat j"] show ?thesis by (simp add: to_string_int_def) metis
  next
    assume "\<not> i < 0" "j < 0"
    with eq to_decimal_no_sign [of "nat i"] show ?thesis by (simp add: to_string_int_def)
  qed (use eq in \<open>simp_all add: to_string_int_def\<close>)
qed simp

section \<open>Times\<close>

text \<open>\<open>std::chrono::round\<close> to seconds, to the even one when two are equally near.\<close>

definition round_seconds :: "int \<Rightarrow> int" where
  "round_seconds t = (let s = t div 1000000; r = t mod 1000000
     in if r < 500000 then s else if 500000 < r then s + 1 else if even s then s else s + 1)"

text \<open>Year, month and day of a number of days since 1970-01-01.\<close>

definition year_month_day :: "int \<Rightarrow> int \<times> int \<times> int" where
  "year_month_day days = (let z = days + 719468;
      era = z div 146097;
      doe = z mod 146097;
      yoe = (doe - doe div 1460 + doe div 36524 - doe div 146096) div 365;
      doy = doe - (365 * yoe + yoe div 4 - yoe div 100);
      mp = (5 * doy + 2) div 153;
      m = (if mp < 10 then mp + 3 else mp - 9)
    in (yoe + era * 400 + (if m \<le> 2 then 1 else 0), m, doy - (153 * mp + 2) div 5 + 1))"

definition pad_number :: "nat \<Rightarrow> int \<Rightarrow> string" where
  "pad_number n i = (let s = to_decimal (nat \<bar>i\<bar>)
     in (if i < 0 then [CHR ''-''] else []) @ replicate (n - length s) (CHR ''0'') @ s)"

definition format_F_T :: "int \<Rightarrow> string" where
  "format_F_T s = (let (y, m, d) = year_month_day (s div 86400); r = s mod 86400
     in pad_number 4 y @ ''-'' @ pad_number 2 m @ ''-'' @ pad_number 2 d @ '' '' @ pad_number 2 (r div 3600) @ '':'' @ pad_number 2 (r mod 3600 div 60) @ '':'' @ pad_number 2 (r mod 60))"

lemma format_F_T_dates:
  "format_F_T 0 = ''1970-01-01 00:00:00''" "format_F_T (-1) = ''1969-12-31 23:59:59''"
  "format_F_T 951782400 = ''2000-02-29 00:00:00''" "format_F_T 4107542399 = ''2100-02-28 23:59:59''"
  by code_simp+

section \<open>The formatters\<close>

definition format_Error :: "err \<Rightarrow> string" where
  "format_Error err =
     (if 0 < err_no err then ''IoError{errno='' @ to_string_int (err_no err) @ '', info='' @ err_info err @ ''}''
      else (let error_kind =
              (if err_no err = to_underlying Uncategorized then ''Uncategorized''
               else if err_no err = to_underlying Unsupported then ''Unsupported''
               else ''Unknown'')
            in ''IoError{error_kind='' @ error_kind @ '', info='' @ err_info err @ ''}''))"

fun format_Shutdown :: "Shutdown \<Rightarrow> string" where
  "format_Shutdown Shutdown_Read = ''Shutdown{Read}''"
| "format_Shutdown Shutdown_Write = ''Shutdown{Write}''"
| "format_Shutdown Shutdown_All = ''Shutdown{All}''"

text \<open>The last character of the state, a comma, becomes the bracket.\<close>

definition format_state :: "8 word \<Rightarrow> string" where
  "format_state field = (let state = ''['' @
       (if get_field Registered field then ''Registered,'' else []) @
       (if get_field Pending field then ''Pending,'' else []) @
       (if get_field Readable field then ''Readable,'' else []) @
       (if get_field Writable field then ''Writable,'' else []) @
       (if get_field Error field then ''Error,'' else [])
     in state[length state - 1 := CHR '']''])"

fun format_Interest :: "Interest \<Rightarrow> string" where
  "format_Interest Interest_Read = ''Read''"
| "format_Interest Interest_Write = ''Write''"
| "format_Interest Interest_All = ''All''"

definition format_epoll_IoExtra :: "epoll_extra \<Rightarrow> string" where
  "format_epoll_IoExtra x = ''IoExtra{state_='' @ format_state (ep_state x) @ '', interest_='' @ format_Interest (ep_interest x)
     @ '', fd_='' @ to_string_int (ep_fd x) @ ''}''"

type_synonym ntop = "16 word \<Rightarrow> 32 word \<Rightarrow> nat \<Rightarrow> string option"

fun assign_string :: "string option \<Rightarrow> string outcome" where
  "assign_string None = Inl Null_deref"
| "assign_string (Some s) = Inr s"

text \<open>
  The arguments of an \<open>io_uring\<close> operation; \<open>mem\<close> is what is at an address, read as a
  \<open>sockaddr_in\<close>. The buffer has \<open>INET_ADDRSTRLEN\<close> bytes.
\<close>

fun format_args :: "ntop \<Rightarrow> (nat \<Rightarrow> sockaddr_in) \<Rightarrow> uring_args \<Rightarrow> string outcome" where
  "format_args inet_ntop mem (Args_Read buf len offset) =
     Inr (''Read{len_='' @ to_decimal (unat len) @ '', offset_='' @ to_decimal (unat offset) @ ''}'')"
| "format_args inet_ntop mem (Args_Write buf len offset) =
     Inr (''Write{len_='' @ to_decimal (unat len) @ '', offset_='' @ to_decimal (unat offset) @ ''}'')"
| "format_args inet_ntop mem Args_Close = Inr ''Close{}''"
| "format_args inet_ntop mem (Args_Accept p addrlen flags) = (let addr = mem p
     in and_then (assign_string (inet_ntop (sin_family addr) (sin_addr addr) 16)) (\<lambda>ip_addr.
          Inr (''Accept{addr_={'' @ ip_addr @ '':'' @ to_decimal (unat (sin_port addr)) @ ''}, flags_='' @ to_string_int flags @ ''}'')))"
| "format_args inet_ntop mem (Args_Connect p addrlen) = (let addr = mem p
     in and_then (assign_string (inet_ntop (sin_family addr) (sin_addr addr) 16)) (\<lambda>ip_addr.
          Inr (''Connect{addr_={'' @ ip_addr @ '':'' @ to_decimal (unat (sin_port addr)) @ ''}}'')))"
| "format_args inet_ntop mem (Args_Shutdown shutdown) = Inr (''Shutdown{shutdown_='' @ format_Shutdown shutdown @ ''}'')"

definition format_uring_IoExtra :: "ntop \<Rightarrow> (nat \<Rightarrow> sockaddr_in) \<Rightarrow> uring_extra \<Rightarrow> string outcome" where
  "format_uring_IoExtra inet_ntop mem x = and_then (format_args inet_ntop mem (ur_args x)) (\<lambda>args.
     Inr (''IoExtra{args_='' @ args @ '', fd_='' @ to_string_int (ur_fd x) @ '', return_='' @ to_string_int (ur_return x) @ ''}''))"

definition format_TimeExtra :: "int \<Rightarrow> string" where
  "format_TimeExtra expire_time = ''TimeExtra{expire_time_='' @ format_F_T (round_seconds expire_time) @ ''}''"

text \<open>\<open>Extra::print\<close> and its overrides.\<close>

definition TimeExtra_print :: "int \<Rightarrow> string" where
  "TimeExtra_print expire_time = format_TimeExtra expire_time"

definition format_BlockingExtra :: string where
  "format_BlockingExtra = ''BlockingExtra{}''"

definition BlockingExtra_print :: string where
  "BlockingExtra_print = format_BlockingExtra"

definition epoll_IoExtra_print :: "epoll_extra \<Rightarrow> string" where
  "epoll_IoExtra_print x = format_epoll_IoExtra x"

definition uring_IoExtra_print :: "ntop \<Rightarrow> (nat \<Rightarrow> sockaddr_in) \<Rightarrow> uring_extra \<Rightarrow> string outcome" where
  "uring_IoExtra_print inet_ntop mem x = format_uring_IoExtra inet_ntop mem x"

fun Extra_print :: "ntop \<Rightarrow> (nat \<Rightarrow> sockaddr_in) \<Rightarrow> extra \<Rightarrow> string outcome" where
  "Extra_print inet_ntop mem (TimeExtra expire_time) = Inr (TimeExtra_print expire_time)"
| "Extra_print inet_ntop mem (BlockingExtra before after) = Inr BlockingExtra_print"
| "Extra_print inet_ntop mem (EpollExtra x) = Inr (epoll_IoExtra_print x)"
| "Extra_print inet_ntop mem (UringExtra x) = uring_IoExtra_print inet_ntop mem x"

definition format_Event :: "ntop \<Rightarrow> (nat \<Rightarrow> sockaddr_in) \<Rightarrow> event \<Rightarrow> string outcome" where
  "format_Event inet_ntop mem event =
     and_then (case ev_extra event of Some x \<Rightarrow> Extra_print inet_ntop mem x | None \<Rightarrow> Inr ''nullptr'') (\<lambda>s.
       Inr (''Event{extra_='' @ s @ ''}''))"

definition format_epoll_event :: "ntop \<Rightarrow> (nat \<Rightarrow> sockaddr_in) \<Rightarrow> 32 word \<Rightarrow> event \<Rightarrow> string outcome" where
  "format_epoll_event inet_ntop mem events data = and_then (format_Event inet_ntop mem data) (\<lambda>s.
     Inr (''epoll_event{events='' @ to_hex (unat events) @ '',data='' @ s @ ''}''))"

text \<open>The buffer of a \<open>SocketAddr\<close> has \<open>INET6_ADDRSTRLEN\<close> bytes.\<close>

fun format_SocketAddr :: "ntop \<Rightarrow> (16 word \<Rightarrow> 128 word \<Rightarrow> nat \<Rightarrow> string option) \<Rightarrow> SocketAddr \<Rightarrow> string outcome" where
  "format_SocketAddr inet_ntop inet_ntop6 (SocketAddrV4 a) = and_then (assign_string (inet_ntop (sin_family a) (sin_addr a) 46)) (\<lambda>ip_addr.
     Inr (''SocketAddr{ip='' @ ip_addr @ '',port='' @ to_decimal (unat (get_port (SocketAddrV4 a))) @ ''}''))"
| "format_SocketAddr inet_ntop inet_ntop6 (SocketAddrV6 a) = and_then (assign_string (inet_ntop6 (sin6_family a) (sin6_addr a) 46)) (\<lambda>ip_addr.
     Inr (''SocketAddr{ip='' @ ip_addr @ '',port='' @ to_decimal (unat (get_port (SocketAddrV6 a))) @ ''}''))"

definition format_Socket :: "int \<Rightarrow> string" where
  "format_Socket fd = ''Socket{fd_='' @ to_string_int fd @ ''}''"

definition format_TcpSocket :: "int \<Rightarrow> string" where
  "format_TcpSocket fd = ''TcpSocket{socket_='' @ format_Socket fd @ ''}''"

definition format_TcpStream :: "int \<Rightarrow> string" where
  "format_TcpStream fd = ''TcpStream{socket_='' @ format_Socket fd @ ''}''"

definition format_TcpListener :: "int \<Rightarrow> string" where
  "format_TcpListener fd = ''TcpListener{socket_='' @ format_Socket fd @ ''}''"

definition format_File :: "string \<Rightarrow> string" where
  "format_File path = ''File{path_='' @ path @ ''}''"

section \<open>What a line tells\<close>

text \<open>The flags can be read from the state, the names of which stand before its only closing bracket.\<close>

definition read_flags :: "string \<Rightarrow> bool list" where
  "read_flags s = [CHR ''s'' \<in> set s, CHR ''P'' \<in> set s, 1 < count_list s (CHR ''a''), CHR ''W'' \<in> set s, CHR ''o'' \<in> set s]"

definition state_flags :: "8 word \<Rightarrow> bool list" where
  "state_flags field = map (\<lambda>F. get_field F field) [Registered, Pending, Readable, Writable, Error]"

lemma format_state_split: "\<exists>s. format_state field = s @ '']'' \<and> CHR '']'' \<notin> set s \<and> read_flags s = state_flags field"
  by (cases "get_field Registered field"; cases "get_field Pending field"; cases "get_field Readable field";
      cases "get_field Writable field"; cases "get_field Error field")
    (simp_all add: format_state_def read_flags_def state_flags_def)

lemma format_Interest_end: "format_Interest i @ CHR '','' # s = format_Interest j @ CHR '','' # t \<longleftrightarrow> i = j \<and> s = t"
  by (cases i; cases j) simp_all

lemma append_mark: "x \<notin> set xs \<Longrightarrow> x \<notin> set ys \<Longrightarrow> xs @ x # us = ys @ x # vs \<longleftrightarrow> xs = ys \<and> us = vs"
proof (induction xs arbitrary: ys)
  case Nil
  then show ?case by (cases ys) auto
next
  case (Cons a xs)
  then show ?case by (cases ys) auto
qed

lemma epoll_line_readable:
  assumes "format_epoll_IoExtra x = format_epoll_IoExtra y"
  shows "state_flags (ep_state x) = state_flags (ep_state y) \<and> ep_interest x = ep_interest y \<and> ep_fd x = ep_fd y"
proof -
  from format_state_split obtain s where s: "format_state (ep_state x) = s @ '']''" "CHR '']'' \<notin> set s" "read_flags s = state_flags (ep_state x)" by blast
  from format_state_split obtain t where t: "format_state (ep_state y) = t @ '']''" "CHR '']'' \<notin> set t" "read_flags t = state_flags (ep_state y)" by blast
  from assms s t have "s = t" "format_Interest (ep_interest x) @ CHR '','' # '' fd_='' @ to_string_int (ep_fd x) @ ''}''
      = format_Interest (ep_interest y) @ CHR '','' # '' fd_='' @ to_string_int (ep_fd y) @ ''}''"
    by (simp_all add: format_epoll_IoExtra_def append_mark)
  with s(3) t(3) show ?thesis by (simp only: format_Interest_end) simp
qed

text \<open>Only the address of an \<open>io_uring\<close> operation can make a line of an event fail.\<close>

lemma event_line_fails:
  "format_Event inet_ntop mem e = Inl x \<longleftrightarrow> x = Null_deref \<and> (\<exists>u p. ev_extra e = Some (UringExtra u)
     \<and> ((\<exists>n fl. ur_args u = Args_Accept p n fl) \<or> (\<exists>n. ur_args u = Args_Connect p n))
     \<and> inet_ntop (sin_family (mem p)) (sin_addr (mem p)) 16 = None)"
proof (cases "ev_extra e")
  case (Some y)
  show ?thesis
  proof (cases y)
    case (UringExtra u)
    show ?thesis
    proof (cases "ur_args u")
      case (Args_Accept p n fl)
      then show ?thesis using Some UringExtra
        by (cases "inet_ntop (sin_family (mem p)) (sin_addr (mem p)) 16") (auto simp: format_Event_def uring_IoExtra_print_def format_uring_IoExtra_def Let_def)
    next
      case (Args_Connect p n)
      then show ?thesis using Some UringExtra
        by (cases "inet_ntop (sin_family (mem p)) (sin_addr (mem p)) 16") (auto simp: format_Event_def uring_IoExtra_print_def format_uring_IoExtra_def Let_def)
    qed (use Some UringExtra in \<open>simp_all add: format_Event_def uring_IoExtra_print_def format_uring_IoExtra_def\<close>)
  qed (use Some in \<open>simp_all add: format_Event_def\<close>)
qed (simp add: format_Event_def)

end
