(* ===== verification/Http_Server.thy ===== *)
theory Http_Server
  imports Io_Buffer Fs_File Xyco_Format
begin

text \<open>
  The HTTP server of \<open>examples/http_server.cc\<close>, a client of nearly every part of the library. A
  request is read from a connection with the buffered reader, and the response is written with
  \<open>write_all\<close>. The connection and the file are a reader and a writer over the state of the world;
  the loops are partial functions. \<open>receive_request\<close> gives the request that it passes to
  \<open>execute_request\<close>, and none for a connection that was closed at once.
\<close>

section \<open>Strings\<close>

text \<open>Positions and counts are 64 bits wide, and \<open>npos\<close> is the largest of them.\<close>

definition npos :: "64 word" where
  "npos = - 1"

definition substr :: "64 word \<Rightarrow> 64 word \<Rightarrow> string \<Rightarrow> string outcome" where
  "substr i n s = (if length s < unat i then Inl Out_of_range else Inr (take (unat n) (drop (unat i) s)))"

definition find_char :: "char \<Rightarrow> string \<Rightarrow> 64 word" where
  "find_char c s = (if c \<in> set s then of_nat (length (takeWhile (\<lambda>x. x \<noteq> c) s)) else npos)"

definition is_space :: "char \<Rightarrow> bool" where
  "is_space c \<longleftrightarrow> c \<in> {CHR 0x20, CHR 0x09, CHR 0x0A, CHR 0x0B, CHR 0x0C, CHR 0x0D}"

text \<open>The extraction of a word from a stream: the word, empty at its end, and the rest.\<close>

definition extract_word :: "string \<Rightarrow> string \<times> string" where
  "extract_word s = (let s = dropWhile is_space s in (takeWhile (\<lambda>c. \<not> is_space c) s, dropWhile (\<lambda>c. \<not> is_space c) s))"

text \<open>\<open>std::from_chars\<close> for an \<open>int\<close>: the value is left alone when there is no number or it does not fit.\<close>

definition from_chars :: "string \<Rightarrow> int \<Rightarrow> int" where
  "from_chars s value =
     (let neg = (s \<noteq> [] \<and> s ! 0 = CHR ''-'');
          digits = takeWhile is_digit (if neg then drop 1 s else s);
          n = foldl (\<lambda>v c. 10 * v + (of_char c - 48)) 0 digits;
          i = (if neg then - n else n)
      in if digits = [] \<or> i < - 2147483648 \<or> 2147483647 < i then value else i)"

abbreviation (input) crlf :: string where "crlf \<equiv> [CHR 0x0D, CHR 0x0A]"

section \<open>Requests\<close>

datatype Method = Get | Head | Post | Put | Delete | Connect | Options | Trace | Patch

fun method_underlying :: "Method \<Rightarrow> int" where
  "method_underlying Get = 0"
| "method_underlying Head = 1"
| "method_underlying Post = 2"
| "method_underlying Put = 3"
| "method_underlying Delete = 4"
| "method_underlying Connect = 5"
| "method_underlying Options = 6"
| "method_underlying Trace = 7"
| "method_underlying Patch = 8"

record request_line =
  rl_method :: Method
  rl_url :: string
  rl_version :: string

text \<open>\<open>method_\<close> has no initialiser: \<open>uninit\<close> is what its memory holds.\<close>

definition RequestLine :: "Method \<Rightarrow> string \<Rightarrow> request_line" where
  "RequestLine uninit line =
     (let (method, stream) = extract_word line;
          (url, stream) = extract_word stream;
          (version, stream) = extract_word stream;
          url = (if url \<noteq> [] \<and> last url = CHR ''/'' then url @ ''index.html'' else url);
          url = CHR ''.'' # url;
          m = uninit;
          m = (if method = ''GET'' then Get else m);
          m = (if method = ''HEAD'' then Head else m);
          m = (if method = ''POST'' then Post else m);
          m = (if method = ''PUT'' then Put else m);
          m = (if method = ''DELETE'' then Delete else m);
          m = (if method = ''CONNECT'' then Connect else m);
          m = (if method = ''OPTIONS'' then Options else m);
          m = (if method = ''TRACE'' then Trace else m);
          m = (if method = ''PATCH'' then Patch else m)
      in \<lparr>rl_method = m, rl_url = url, rl_version = version\<rparr>)"

definition RequestLine_to_string :: "request_line \<Rightarrow> string" where
  "RequestLine_to_string rl = to_string_int (method_underlying (rl_method rl)) @ '' '' @ rl_url rl @ '' '' @ rl_version rl"

record http_request =
  rq_line :: request_line
  rq_headers :: "string \<rightharpoonup> string"
  rq_body :: string

record status_line =
  sl_version :: string
  sl_code :: int
  sl_reason :: string

definition StatusLine_to_string :: "status_line \<Rightarrow> string" where
  "StatusLine_to_string sl = sl_version sl @ '' '' @ to_string_int (sl_code sl) @ '' '' @ sl_reason sl @ crlf"

section \<open>Receiving\<close>

text \<open>\<open>emplace\<close> leaves the value of a name that is already there.\<close>

definition add_header :: "string \<Rightarrow> (string \<rightharpoonup> string) \<Rightarrow> (string \<rightharpoonup> string) outcome" where
  "add_header line headers =
     and_then (substr 0 (find_char CHR '':'' line) line) (\<lambda>name.
       and_then (substr (find_char CHR '':'' line + 2) (of_nat (length line) - 2) line) (\<lambda>value.
         Inr (if name \<in> dom headers then headers else headers(name \<mapsto> value))))"

partial_function (option) read_headers ::
  "'w reader \<Rightarrow> (string \<rightharpoonup> string) \<Rightarrow> buffer_reader \<Rightarrow> 'w \<Rightarrow> ((string \<rightharpoonup> string) outcome \<times> buffer_reader \<times> 'w) option" where
  "read_headers rd headers b w = Option.bind (read_line rd b w) (\<lambda>(r, b, w). case r of
     Inl e \<Rightarrow> Some (Inl e, b, w)
   | Inr line \<Rightarrow>
       if line = crlf then Some (Inr headers, b, w)
       else (case add_header line headers of
               Inl e \<Rightarrow> Some (Inl e, b, w)
             | Inr headers \<Rightarrow> read_headers rd headers b w))"

definition content_length :: "(string \<rightharpoonup> string) \<Rightarrow> int" where
  "content_length headers = (case headers ''Content-Length'' of None \<Rightarrow> 0 | Some s \<Rightarrow> from_chars s 0)"

text \<open>The body is read from the connection itself, not through the buffered reader.\<close>

partial_function (option) read_body :: "'w reader \<Rightarrow> string \<Rightarrow> nat \<Rightarrow> 'w \<Rightarrow> (string outcome \<times> 'w) option" where
  "read_body rd body left w =
     (if left = 0 then Some (Inr body, w)
      else (case rd w left of
              (Inl _, w) \<Rightarrow> Some (Inl Bad_expected, w)
            | (Inr bytes, w) \<Rightarrow> read_body rd (body @ bytes) (left - length bytes) w))"

definition receive_request ::
  "'w reader \<Rightarrow> ('w \<Rightarrow> unit result \<times> 'w) \<Rightarrow> Method \<Rightarrow> 'w \<Rightarrow> (http_request option outcome \<times> 'w) option" where
  "receive_request rd shutdown uninit w = Option.bind (read_line rd BufferReader w) (\<lambda>(r, b, w). case r of
     Inl e \<Rightarrow> Some (Inl e, w)
   | Inr line \<Rightarrow>
       if line = [] then (case shutdown w of (Inl _, w) \<Rightarrow> Some (Inl Bad_expected, w) | (Inr _, w) \<Rightarrow> Some (Inr None, w))
       else (case substr 0 (of_nat (length line) - 2) line of
          Inl e \<Rightarrow> Some (Inl e, w)
        | Inr l \<Rightarrow> Option.bind (read_headers rd Map.empty b w) (\<lambda>(r, b, w). case r of
            Inl e \<Rightarrow> Some (Inl e, w)
          | Inr headers \<Rightarrow>
              if content_length headers < 0 then Some (Inl Length_error, w)
              else Option.bind (read_body rd [] (nat (content_length headers)) w) (\<lambda>(r, w). case r of
                     Inl e \<Rightarrow> Some (Inl e, w)
                   | Inr body \<Rightarrow> Some (Inr (Some \<lparr>rq_line = RequestLine uninit l, rq_headers = headers, rq_body = body\<rparr>), w)))))"

section \<open>Responding\<close>

text \<open>\<open>*co_await write_all(...)\<close>; dereferencing a failure is undefined.\<close>

definition put :: "'w writer \<Rightarrow> string \<Rightarrow> 'w \<Rightarrow> (unit outcome \<times> 'w) option" where
  "put wr s w = Option.bind (write_all wr s w)
     (\<lambda>(r, w). case r of Inl _ \<Rightarrow> Some (Inl Bad_expected, w) | Inr _ \<Rightarrow> Some (Inr (), w))"

fun put_all :: "'w writer \<Rightarrow> string list \<Rightarrow> 'w \<Rightarrow> (unit outcome \<times> 'w) option" where
  "put_all wr [] w = Some (Inr (), w)"
| "put_all wr (s # ss) w = Option.bind (put wr s w)
     (\<lambda>(r, w). case r of Inl e \<Rightarrow> Some (Inl e, w) | Inr _ \<Rightarrow> put_all wr ss w)"

text \<open>The lines of a file go to the connection, up to and including the empty one at its end.\<close>

partial_function (option) copy_lines ::
  "'w reader \<Rightarrow> 'w writer \<Rightarrow> buffer_reader \<Rightarrow> 'w \<Rightarrow> (unit outcome \<times> 'w) option" where
  "copy_lines rd wr b w = Option.bind (read_line rd b w) (\<lambda>(r, b, w). case r of
     Inl e \<Rightarrow> Some (Inl e, w)
   | Inr line \<Rightarrow> Option.bind (put wr line w) (\<lambda>(r, w). case r of
       Inl e \<Rightarrow> Some (Inl e, w)
     | Inr _ \<Rightarrow> if line = [] then Some (Inr (), w) else copy_lines rd wr b w))"

definition content_length_line :: "nat \<Rightarrow> string" where
  "content_length_line n = ''Content-Length: '' @ to_decimal n @ crlf"

definition bad_request_body :: string where
  "bad_request_body = ''<P>Your browser sent a bad request.'' @ crlf"

definition unsupported_body :: string where
  "unsupported_body = ''<P>Unsupported method.'' @ crlf"

text \<open>
  A string literal is an array with its terminating zero, all of which the overload of \<open>write_all\<close> for arrays sends.
\<close>

definition literal_bytes :: "string \<Rightarrow> string" where
  "literal_bytes s = s @ [CHR 0x00]"

definition execute_request ::
  "(string \<Rightarrow> 32 word \<Rightarrow> 32 word \<Rightarrow> int \<times> int) \<Rightarrow> (string \<Rightarrow> 64 word \<times> error_code) \<Rightarrow> (file_obj \<Rightarrow> 'w reader)
    \<Rightarrow> 'w writer \<Rightarrow> http_request \<Rightarrow> 'w \<Rightarrow> (unit outcome \<times> 'w) option" where
  "execute_request sys_open file_size file_read wr request w =
     (let status = (\<lambda>code reason. StatusLine_to_string
            \<lparr>sl_version = rl_version (rq_line request), sl_code = code, sl_reason = reason\<rparr>)
      in if rl_method (rq_line request) = Get
         then (case epoll_file_open sys_open (rl_url (rq_line request)) of
            Inl _ \<Rightarrow> put_all wr [status 404 ''ERROR'', content_length_line (length bad_request_body), literal_bytes crlf, bad_request_body] w
          | Inr file' \<Rightarrow> Option.bind (put wr (status 200 ''OK'') w) (\<lambda>(r, w). case r of
              Inl e \<Rightarrow> Some (Inl e, w)
            | Inr _ \<Rightarrow> (case epoll_file_size file_size file' of
                Inl _ \<Rightarrow> Some (Inl Bad_expected, w)
              | Inr n \<Rightarrow> Option.bind (put_all wr [content_length_line (unat n), literal_bytes crlf] w) (\<lambda>(r, w). case r of
                  Inl e \<Rightarrow> Some (Inl e, w)
                | Inr _ \<Rightarrow> copy_lines (file_read file') wr BufferReader w))))
         else put_all wr [status 500 ''Internal Server Error'', content_length_line (length unsupported_body), literal_bytes crlf, unsupported_body] w)"

end
