(* ===== verification/Http_Properties.thy ===== *)
theory Http_Properties
  imports Http_Server Io_Properties
begin

text \<open>Properties of the HTTP server, over the laws of the streams it reads and writes.\<close>

section \<open>Responses\<close>

text \<open>A writer that only ever fails with an error that asks for another attempt.\<close>

definition reliable_sink :: "'w writer \<Rightarrow> ('w \<Rightarrow> string) \<Rightarrow> ('w \<Rightarrow> nat) \<Rightarrow> ('w \<Rightarrow> 'f) \<Rightarrow> bool" where
  "reliable_sink wr sent patience other \<longleftrightarrow> byte_sink wr sent patience
     \<and> (\<forall>w bs. other (snd (wr w bs)) = other w \<and> (\<forall>e. fst (wr w bs) = Inl e \<longrightarrow> again e))"

lemma write_all_other:
  assumes "\<And>w bs. other (snd (wr w bs)) = other w" "\<And>w bs e. fst (wr w bs) = Inl e \<Longrightarrow> again e"
    and "write_all_loop wr buffer k w = Some (r, w')"
  shows "other w' = other w \<and> r = Inr ()"
proof -
  have "(\<lambda>wr buffer k w (r, w'). (\<forall>w bs. other (snd (wr w bs)) = other w) \<longrightarrow> (\<forall>w bs e. fst (wr w bs) = Inl e \<longrightarrow> again e)
      \<longrightarrow> other w' = other w \<and> r = Inr ()) wr buffer k w (r, w')"
    using assms(3)
  proof (rule write_all_loop.raw_induct [rotated])
    fix f wr buffer k w res
    assume IH: "\<And>wr buffer k w y. f wr buffer k w = Some y \<Longrightarrow> (case y of (r, w') \<Rightarrow>
        (\<forall>w bs. other (snd (wr w bs)) = other w) \<longrightarrow> (\<forall>w bs e. fst (wr w bs) = Inl e \<longrightarrow> again e) \<longrightarrow> other w' = other w \<and> r = Inr ())"
      and step: "(if k = length buffer then Some (Inr (), w)
        else case wr w (drop k buffer) of (Inl error, w) \<Rightarrow> if \<not> again error then Some (Inl error, w) else f wr buffer k w
             | (Inr nbytes, w) \<Rightarrow> f wr buffer (k + nbytes) w) = Some res"
    show "case res of (r, w') \<Rightarrow> (\<forall>w bs. other (snd (wr w bs)) = other w) \<longrightarrow> (\<forall>w bs e. fst (wr w bs) = Inl e \<longrightarrow> again e)
        \<longrightarrow> other w' = other w \<and> r = Inr ()"
    proof (clarify)
      fix r w' assume res: "res = (r, w')" and keep: "\<forall>w bs. other (snd (wr w bs)) = other w"
        and retry: "\<forall>w bs e. fst (wr w bs) = Inl e \<longrightarrow> again e"
      obtain q w1 where wr: "wr w (drop k buffer) = (q, w1)" by fastforce
      have w1: "other w1 = other w" "\<And>e. q = Inl e \<Longrightarrow> again e"
        using keep [rule_format, of w "drop k buffer"] retry [rule_format, of w "drop k buffer"] wr by simp_all
      show "other w' = other w \<and> r = Inr ()"
        using step res wr w1 keep retry by (cases q) (auto split: if_splits dest!: IH)
    qed
  qed
  with assms(1,2) show ?thesis by simp
qed

lemma put_sent:
  assumes "reliable_sink wr sent patience other"
  obtains w' where "put wr s w = Some (Inr (), w')" "sent w' = sent w @ s" "other w' = other w"
proof -
  from assms have sink: "byte_sink wr sent patience" and other: "\<And>w bs. other (snd (wr w bs)) = other w"
    and retry: "\<And>w bs e. fst (wr w bs) = Inl e \<Longrightarrow> again e" by (simp_all add: reliable_sink_def)
  obtain r w' where w': "write_all_loop wr s 0 w = Some (r, w')" "delivered sent s w r w'"
    using write_all_loop_delivers [OF sink, of 0 s w] by auto
  with write_all_other [of other wr s 0 w r w'] other retry have "other w' = other w" "r = Inr ()" by simp_all
  with w' show ?thesis using that [of w'] by (simp add: put_def write_all_def delivered_def)
qed

lemma put_all_sent:
  assumes "reliable_sink wr sent patience other"
  shows "\<exists>w'. put_all wr ss w = Some (Inr (), w') \<and> sent w' = sent w @ concat ss \<and> other w' = other w"
proof (induction ss arbitrary: w)
  case (Cons s ss)
  obtain w1 where "put wr s w = Some (Inr (), w1)" "sent w1 = sent w @ s" "other w1 = other w" by (rule put_sent [OF assms])
  with Cons.IH [of w1] show ?case by simp
qed simp

text \<open>A file whose unread bytes are \<open>to_read\<close>, read in one piece; reading does not touch the connection.\<close>

definition whole_file :: "'w reader \<Rightarrow> ('w \<Rightarrow> string) \<Rightarrow> ('w \<Rightarrow> string) \<Rightarrow> bool" where
  "whole_file rd to_read sent \<longleftrightarrow> (\<forall>w. length (to_read w) \<le> 8192 \<longrightarrow>
     (\<exists>w'. rd w 8192 = (Inr (to_read w), w') \<and> to_read w' = [] \<and> sent w' = sent w))"

text \<open>What a line without its end becomes.\<close>

definition terminated :: "string \<Rightarrow> string" where
  "terminated s = (if s = [] \<or> last s = newline then s else s @ [CHR 0x00])"

lemma terminated_split: "s \<noteq> [] \<longrightarrow> terminated (l @ newline # s) = l @ newline # terminated s" "terminated (l @ [newline]) = l @ [newline]"
  by (simp_all add: terminated_def)

lemma read_line_unread:
  assumes "reader_ok b" "unread b = l @ newline # r" "newline \<notin> set l"
  obtains b' where "read_line rd b w = Some (Inr (l @ [newline]), b', w)" "reader_ok b'" "unread b' = r"
    "br_buffer b' = br_buffer b" "br_cap b' = br_cap b"
proof -
  have "takeWhile (\<lambda>x. x \<noteq> newline) (unread b) = l" "dropWhile (\<lambda>x. x \<noteq> newline) (unread b) = newline # r"
    using assms(2,3) by (auto simp: takeWhile_append dropWhile_append)
  with read_until_found [OF assms(1), of newline rd "[]" w] assms(2) show ?thesis
    using that by (auto simp: read_line_def read_until_def)
qed

lemma read_line_first:
  assumes "rd w 8192 = (Inr bs, w')" "bs \<noteq> []" "length bs \<le> 8192"
  obtains b where "read_line rd BufferReader w = read_line rd b w'" "reader_ok b" "unread b = bs"
    "(br_buffer b @ [CHR 0x00]) ! br_cap b = CHR 0x00"
proof -
  let ?b = "BufferReader\<lparr>br_buffer := bs @ drop (length bs) (br_buffer BufferReader), br_cap := length bs, br_pos := 0\<rparr>"
  have fill: "fill_buffer rd BufferReader w = fill_buffer rd ?b w'"
    using assms(1,2) by (simp add: fill_buffer_def BufferReader_def)
  have "read_line rd BufferReader w = read_line rd ?b w'"
    unfolding read_line_def read_until_def by (subst (1 2) read_until_loop.simps) (simp only: fill)
  moreover have "reader_ok ?b" "unread ?b = bs" using assms(3) by (simp_all add: reader_ok_def unread_def BufferReader_def)
  moreover have "(br_buffer ?b @ [CHR 0x00]) ! br_cap ?b = CHR 0x00"
    using assms(3) by (cases "length bs = 8192") (simp_all add: BufferReader_def nth_append)
  ultimately show ?thesis using that by blast
qed

lemma copy_lines_step:
  assumes "reliable_sink wr sent patience other" "read_line rd b w = Some (Inr line, b', w1)" "line \<noteq> []"
  obtains w' where "copy_lines rd wr b w = copy_lines rd wr b' w'" "sent w' = sent w1 @ line" "other w' = other w1"
proof -
  obtain w' where w': "put wr line w1 = Some (Inr (), w')" "sent w' = sent w1 @ line" "other w' = other w1"
    by (rule put_sent [OF assms(1)])
  with assms(2,3) have "copy_lines rd wr b w = copy_lines rd wr b' w'" by (subst copy_lines.simps) simp
  with w'(2,3) show ?thesis using that by blast
qed

lemma copy_lines_end:
  assumes "whole_file rd to_read sent" "reliable_sink wr sent patience to_read" "reader_ok b" "unread b = []" "to_read w = []"
  shows "\<exists>w'. copy_lines rd wr b w = Some (Inr (), w') \<and> sent w' = sent w"
proof -
  obtain w1 where "rd w 8192 = (Inr [], w1)" "sent w1 = sent w" using assms(1,5) unfolding whole_file_def by force
  moreover from this have "read_line rd b w = Some (Inr [], b\<lparr>br_cap := 0, br_pos := 0\<rparr>, w1)"
    using read_until_eof [OF assms(3,4), of rd w w1 newline "[]"] by (simp add: read_line_def read_until_def)
  moreover obtain w' where "put wr [] w1 = Some (Inr (), w')" "sent w' = sent w1 @ []"
    using put_sent [OF assms(2), of "[]" w1] by blast
  ultimately show ?thesis by (subst copy_lines.simps) simp
qed

lemma copy_lines_rest:
  assumes "whole_file rd to_read sent" "reliable_sink wr sent patience to_read" "reader_ok b" "to_read w = []"
    "(br_buffer b @ [CHR 0x00]) ! br_cap b = CHR 0x00"
  shows "\<exists>w'. copy_lines rd wr b w = Some (Inr (), w') \<and> sent w' = sent w @ terminated (unread b)"
  using assms(3-)
proof (induction "length (unread b)" arbitrary: b w rule: less_induct)
  case less
  note last_line = copy_lines_end [OF assms(1,2)]
  consider "unread b = []" | l r where "unread b = l @ newline # r" "newline \<notin> set l" | "unread b \<noteq> []" "newline \<notin> set (unread b)"
    by (metis split_list_first)
  then show ?case
  proof cases
    case 1
    with last_line [OF less.prems(1) 1 less.prems(2)] show ?thesis by (simp add: terminated_def)
  next
    case (2 l r)
    obtain b1 where b1: "read_line rd b w = Some (Inr (l @ [newline]), b1, w)" "reader_ok b1" "unread b1 = r"
      "br_buffer b1 = br_buffer b" "br_cap b1 = br_cap b" by (rule read_line_unread [OF less.prems(1) 2])
    obtain w1 where w1: "copy_lines rd wr b w = copy_lines rd wr b1 w1" "sent w1 = sent w @ l @ [newline]" "to_read w1 = to_read w"
      by (rule copy_lines_step [OF assms(2) b1(1)]) simp
    from less.hyps [of b1 w1] 2 b1 w1 less.prems obtain w' where
      "copy_lines rd wr b1 w1 = Some (Inr (), w')" "sent w' = sent w1 @ terminated r" by auto
    with w1 2 show ?thesis by (cases "r = []") (simp_all add: terminated_split, simp add: terminated_def)
  next
    case 3
    obtain w1 where eof: "rd w 8192 = (Inr [], w1)" "to_read w1 = []" "sent w1 = sent w"
      using assms(1) less.prems(2) unfolding whole_file_def by force
    obtain b1 where b1: "read_line rd b w = read_until_loop rd newline (unread b @ [CHR 0x00]) b1 w" "reader_ok b1" "unread b1 = []"
      using read_until_absent [OF less.prems(1) 3, of rd "[]" w] less.prems(3) by (auto simp: read_line_def read_until_def)
    let ?b = "b1\<lparr>br_cap := 0, br_pos := 0\<rparr>"
    have "read_line rd b w = Some (Inr (unread b @ [CHR 0x00]), ?b, w1)" using b1 read_until_eof [where rd = rd, OF b1(2,3) eof(1)] by simp
    then obtain w2 where w2: "copy_lines rd wr b w = copy_lines rd wr ?b w2" "sent w2 = sent w1 @ unread b @ [CHR 0x00]" "to_read w2 = to_read w1"
      by (rule copy_lines_step [OF assms(2)]) simp
    have "reader_ok ?b" "unread ?b = []" using b1(2) by (simp_all add: reader_ok_def unread_def)
    from last_line [OF this, of w2] w2 eof obtain w' where "copy_lines rd wr ?b w2 = Some (Inr (), w')" "sent w' = sent w2" by auto
    moreover have "terminated (unread b) = unread b @ [CHR 0x00]" using 3 by (metis last_in_set terminated_def)
    ultimately show ?thesis using w2 eof by simp
  qed
qed

lemma copy_lines_file:
  assumes "whole_file rd to_read sent" "reliable_sink wr sent patience to_read" "length (to_read w) \<le> 8192"
  shows "\<exists>w'. copy_lines rd wr BufferReader w = Some (Inr (), w') \<and> sent w' = sent w @ terminated (to_read w)"
proof (cases "to_read w = []")
  case True
  with copy_lines_end [OF assms(1,2), of BufferReader w] show ?thesis by (simp add: terminated_def)
next
  case False
  obtain w1 where w1: "rd w 8192 = (Inr (to_read w), w1)" "to_read w1 = []" "sent w1 = sent w"
    using assms(1,3) unfolding whole_file_def by blast
  obtain b where b: "read_line rd BufferReader w = read_line rd b w1" "reader_ok b" "unread b = to_read w"
    "(br_buffer b @ [CHR 0x00]) ! br_cap b = CHR 0x00" by (rule read_line_first [where rd = rd, OF w1(1) False assms(3)])
  have "copy_lines rd wr BufferReader w = copy_lines rd wr b w1" by (subst (1 2) copy_lines.simps) (simp only: b(1))
  with copy_lines_rest [OF assms(1,2) b(2) w1(2) b(4)] b(3) w1(3) show ?thesis by simp
qed

lemma error_bodies:
  "content_length_line (length bad_request_body) = ''Content-Length: 37'' @ crlf"
  "content_length_line (length unsupported_body) = ''Content-Length: 24'' @ crlf"
  by code_simp+

lemma status_codes: "to_string_int 200 = ''200''" "to_string_int 404 = ''404''" "to_string_int 500 = ''500''"
  by code_simp+

text \<open>The three kinds of response.\<close>

lemma respond_unsupported:
  assumes "reliable_sink wr sent patience other" "rl_method (rq_line rq) \<noteq> Get"
  shows "\<exists>w'. execute_request sys_open file_size file_read wr rq w = Some (Inr (), w')
    \<and> sent w' = sent w @ rl_version (rq_line rq) @ '' 500 Internal Server Error'' @ crlf
        @ ''Content-Length: 24'' @ crlf @ crlf @ [CHR 0x00] @ ''<P>Unsupported method.'' @ crlf"
proof -
  let ?status = "StatusLine_to_string \<lparr>sl_version = rl_version (rq_line rq), sl_code = 500, sl_reason = ''Internal Server Error''\<rparr>"
  let ?parts = "[?status, content_length_line (length unsupported_body), literal_bytes crlf, unsupported_body]"
  have "execute_request sys_open file_size file_read wr rq w = put_all wr ?parts w"
    using assms(2) by (simp add: execute_request_def del: put_all.simps)
  moreover have "concat ?parts = rl_version (rq_line rq) @ '' 500 Internal Server Error'' @ crlf
      @ ''Content-Length: 24'' @ crlf @ crlf @ [CHR 0x00] @ ''<P>Unsupported method.'' @ crlf"
    unfolding error_bodies by (simp add: StatusLine_to_string_def status_codes unsupported_body_def literal_bytes_def)
  ultimately show ?thesis using put_all_sent [OF assms(1), of ?parts w] by (simp only:) blast
qed

lemma respond_missing:
  assumes "reliable_sink wr sent patience other" "rl_method (rq_line rq) = Get" "epoll_file_open sys_open (rl_url (rq_line rq)) = Inl e"
  shows "\<exists>w'. execute_request sys_open file_size file_read wr rq w = Some (Inr (), w')
    \<and> sent w' = sent w @ rl_version (rq_line rq) @ '' 404 ERROR'' @ crlf
        @ ''Content-Length: 37'' @ crlf @ crlf @ [CHR 0x00] @ ''<P>Your browser sent a bad request.'' @ crlf"
proof -
  let ?status = "StatusLine_to_string \<lparr>sl_version = rl_version (rq_line rq), sl_code = 404, sl_reason = ''ERROR''\<rparr>"
  let ?parts = "[?status, content_length_line (length bad_request_body), literal_bytes crlf, bad_request_body]"
  have "execute_request sys_open file_size file_read wr rq w = put_all wr ?parts w"
    using assms(2,3) by (simp add: execute_request_def del: put_all.simps)
  moreover have "concat ?parts = rl_version (rq_line rq) @ '' 404 ERROR'' @ crlf
      @ ''Content-Length: 37'' @ crlf @ crlf @ [CHR 0x00] @ ''<P>Your browser sent a bad request.'' @ crlf"
    unfolding error_bodies by (simp add: StatusLine_to_string_def status_codes bad_request_body_def literal_bytes_def)
  ultimately show ?thesis using put_all_sent [OF assms(1), of ?parts w] by (simp only:) blast
qed

lemma respond_file:
  assumes "reliable_sink wr sent patience to_read" "whole_file (file_read f) to_read sent" "length (to_read w) \<le> 8192"
    and "rl_method (rq_line rq) = Get" "epoll_file_open sys_open (rl_url (rq_line rq)) = Inr f" "epoll_file_size file_size f = Inr n"
  shows "\<exists>w'. execute_request sys_open file_size file_read wr rq w = Some (Inr (), w')
    \<and> sent w' = sent w @ rl_version (rq_line rq) @ '' 200 OK'' @ crlf @ ''Content-Length: '' @ to_decimal (unat n) @ crlf @ crlf @ [CHR 0x00]
        @ terminated (to_read w)"
proof -
  let ?status = "StatusLine_to_string \<lparr>sl_version = rl_version (rq_line rq), sl_code = 200, sl_reason = ''OK''\<rparr>"
  obtain w1 where w1: "put wr ?status w = Some (Inr (), w1)" "sent w1 = sent w @ ?status" "to_read w1 = to_read w"
    by (rule put_sent [OF assms(1)])
  obtain w2 where w2: "put_all wr [content_length_line (unat n), literal_bytes crlf] w1 = Some (Inr (), w2)"
    "sent w2 = sent w1 @ content_length_line (unat n) @ crlf @ [CHR 0x00]" "to_read w2 = to_read w1"
    using put_all_sent [OF assms(1), of "[content_length_line (unat n), literal_bytes crlf]" w1] by (auto simp: literal_bytes_def)
  obtain w' where w': "copy_lines (file_read f) wr BufferReader w2 = Some (Inr (), w')" "sent w' = sent w2 @ terminated (to_read w2)"
    using copy_lines_file [OF assms(2,1), of w2] assms(3) w1(3) w2(3) by auto
  have "execute_request sys_open file_size file_read wr rq w = Some (Inr (), w')"
    using assms(4-6) w1(1) w2(1) w'(1) by (simp add: execute_request_def del: put_all.simps)
  then show ?thesis using w'(2) w2(2,3) w1(2,3)
    by (simp add: StatusLine_to_string_def status_codes content_length_line_def)
qed

text \<open>
  Every request is answered. Over a connection that only fails with errors asking for another
  attempt, \<open>execute_request\<close> returns, and what it sent is one complete response: 500 for a method
  other than GET, 404 when the file cannot be opened, both with a Content-Length that is the
  length of their text, and otherwise 200 with the size of the file and its contents. A zero byte that
  Content-Length does not count precedes each body, the end of the literal of the blank line. For a file of
  at most 8192 bytes that one read gives, the file follows as it is when it is empty or ends
  in a newline; otherwise a second zero byte comes behind it.
\<close>

theorem http_response:
  assumes "reliable_sink wr sent patience to_read" "whole_file (file_read f) to_read sent" "length (to_read w) \<le> 8192"
    and "epoll_file_open sys_open (rl_url (rq_line rq)) = Inr f \<Longrightarrow> epoll_file_size file_size f = Inr n"
    and "epoll_file_open sys_open (rl_url (rq_line rq)) \<in> {Inl e, Inr f}"
  shows "\<exists>w'. execute_request sys_open file_size file_read wr rq w = Some (Inr (), w')
    \<and> sent w' = sent w @ rl_version (rq_line rq) @
       (if rl_method (rq_line rq) \<noteq> Get
        then '' 500 Internal Server Error'' @ crlf @ ''Content-Length: 24'' @ crlf @ crlf @ [CHR 0x00] @ ''<P>Unsupported method.'' @ crlf
        else if epoll_file_open sys_open (rl_url (rq_line rq)) = Inl e
        then '' 404 ERROR'' @ crlf @ ''Content-Length: 37'' @ crlf @ crlf @ [CHR 0x00] @ ''<P>Your browser sent a bad request.'' @ crlf
        else '' 200 OK'' @ crlf @ ''Content-Length: '' @ to_decimal (unat n) @ crlf @ crlf @ [CHR 0x00] @ to_read w @
          (if to_read w = [] \<or> last (to_read w) = newline then [] else [CHR 0x00]))"
proof -
  consider "rl_method (rq_line rq) \<noteq> Get" | "rl_method (rq_line rq) = Get" "epoll_file_open sys_open (rl_url (rq_line rq)) = Inl e"
    | "rl_method (rq_line rq) = Get" "epoll_file_open sys_open (rl_url (rq_line rq)) = Inr f" using assms(5) by auto
  then show ?thesis
  proof cases
    case 1
    with respond_unsupported [OF assms(1) 1] show ?thesis by simp
  next
    case 2
    with respond_missing [OF assms(1) 2] show ?thesis by simp
  next
    case 3
    have "to_read w @ (if to_read w = [] \<or> last (to_read w) = newline then [] else [CHR 0x00]) = terminated (to_read w)"
      by (simp add: terminated_def)
    with respond_file [where file_read = file_read and f = f and to_read = to_read and w = w, OF assms(1-3) 3 assms(4) [OF 3(2)]] 3
    show ?thesis by simp
  qed
qed

definition file_bytes :: "file_obj \<Rightarrow> (string \<times> string \<times> nat) reader" where
  "file_bytes f = (\<lambda>(rest, sent, k) len. (Inr (take len rest), drop len rest, sent, k))"

definition get_index :: http_request where
  "get_index = \<lparr>rq_line = RequestLine Patch ''GET / HTTP/1.1'', rq_headers = Map.empty, rq_body = []\<rparr>"

lemma get_index_line: "rq_line get_index = \<lparr>rl_method = Get, rl_url = ''./index.html'', rl_version = ''HTTP/1.1''\<rparr>"
  by (simp add: get_index_def RequestLine_def extract_word_def is_space_def Let_def)

lemma file_bytes_whole: "whole_file (file_bytes f) fst (fst \<circ> snd)"
  by (auto simp: whole_file_def file_bytes_def)

lemma pipe_reliable: "reliable_sink pipe_write (fst \<circ> snd) (snd \<circ> snd) fst"
proof -
  have "fst (snd (pipe_write w bs)) = fst w" "fst (pipe_write w bs) = Inl e \<longrightarrow> again e" for w bs e
    by (auto simp: pipe_write_def again_def split: prod.splits)
  with pipe_sink show ?thesis by (simp add: reliable_sink_def)
qed

theorem http_response_witness:
  "\<exists>w'. execute_request (\<lambda>path flags mode. (5, 0)) (\<lambda>path. (2, 0, [])) file_bytes pipe_write get_index (''hi'', [], 0)
       = Some (Inr (), w')
    \<and> fst (snd w') = ''HTTP/1.1 200 OK'' @ crlf @ ''Content-Length: 2'' @ crlf @ crlf @ [CHR 0x00] @ ''hi'' @ [CHR 0x00]"
proof -
  let ?f = "\<lparr>fi_fd = 5, fi_path = ''./index.html''\<rparr>"
  have "epoll_file_open (\<lambda>path flags mode. (5, 0)) ''./index.html'' = Inr ?f"
    by (simp add: epoll_file_open_def epoll_open_def opt_read_def OpenOptions_def get_access_mode_def get_creation_mode_def into_sys_result_def)
  moreover have "epoll_file_size (\<lambda>path. (2, 0, [])) ?f = Inr 2" by (simp add: epoll_file_size_def error_code_result_def)
  moreover have "to_decimal 2 = ''2''" by code_simp
  ultimately show ?thesis
    using http_response [OF pipe_reliable, of file_bytes ?f "(''hi'', [], 0)" "\<lambda>path flags mode. (5, 0)" get_index "\<lambda>path. (2, 0, [])" 2 undefined]
    by (simp add: file_bytes_whole get_index_line)
qed

section \<open>Requests\<close>

text \<open>The words of a request line.\<close>

lemma request_line_words:
  assumes "\<forall>x \<in> set m \<union> set url \<union> set v. \<not> is_space x" "m \<noteq> []" "url \<noteq> []" "v \<noteq> []"
  shows "rl_version (RequestLine u (m @ '' '' @ url @ '' '' @ v)) = v"
    "rl_url (RequestLine u (m @ '' '' @ url @ '' '' @ v)) = ''.'' @ url @ (if last url = CHR ''/'' then ''index.html'' else [])"
    "m = ''GET'' \<Longrightarrow> rl_method (RequestLine u (m @ '' '' @ url @ '' '' @ v)) = Get"
proof -
  have word: "extract_word (x @ CHR '' '' # r) = (x, CHR '' '' # r)" "extract_word (CHR '' '' # x) = (x, [])"
    "extract_word (CHR '' '' # x @ CHR '' '' # r) = (x, CHR '' '' # r)"
    if "\<forall>c \<in> set x. \<not> is_space c" "x \<noteq> []" for x r
    using that by (cases x; auto simp: extract_word_def Let_def is_space_def takeWhile_append dropWhile_append)+
  have "extract_word (m @ '' '' @ url @ '' '' @ v) = (m, '' '' @ url @ '' '' @ v)"
    "extract_word ('' '' @ url @ '' '' @ v) = (url, '' '' @ v)" "extract_word ('' '' @ v) = (v, [])"
    using word assms by simp_all
  with assms show "rl_version (RequestLine u (m @ '' '' @ url @ '' '' @ v)) = v"
    "rl_url (RequestLine u (m @ '' '' @ url @ '' '' @ v)) = ''.'' @ url @ (if last url = CHR ''/'' then ''index.html'' else [])"
    "m = ''GET'' \<Longrightarrow> rl_method (RequestLine u (m @ '' '' @ url @ '' '' @ v)) = Get"
    by (simp_all add: RequestLine_def Let_def)
qed

text \<open>Header lines as they are sent, and what the server keeps of them.\<close>

definition header_line :: "string \<times> string \<Rightarrow> string" where
  "header_line = (\<lambda>(name, val). name @ '': '' @ val @ crlf)"

definition kept_headers :: "(string \<times> string) list \<Rightarrow> (string \<rightharpoonup> string) \<Rightarrow> (string \<rightharpoonup> string)" where
  "kept_headers hs h = foldl (\<lambda>h (name, val). if name \<in> dom h then h else h(name \<mapsto> val @ crlf)) h hs"

definition header_ok :: "string \<times> string \<Rightarrow> bool" where
  "header_ok = (\<lambda>(name, val). CHR '':'' \<notin> set name \<and> newline \<notin> set name \<and> newline \<notin> set val)"

lemma unat_small: "n \<le> 8200 \<Longrightarrow> unat (of_nat n :: 64 word) = n"
  by (simp add: unat_of_nat take_bit_nat_eq_self)

lemma add_header_line:
  assumes "CHR '':'' \<notin> set name" "length (header_line (name, val)) \<le> 8192"
  shows "add_header (header_line (name, val)) h = Inr (if name \<in> dom h then h else h(name \<mapsto> val @ crlf))"
proof -
  let ?line = "header_line (name, val)"
  have len: "length ?line = length name + length val + 4" by (simp add: header_line_def)
  have find: "find_char CHR '':'' ?line = of_nat (length name)"
    using assms(1) by (auto simp: find_char_def header_line_def takeWhile_append)
  have "of_nat (length name) + 2 = (of_nat (length name + 2) :: 64 word)" by simp
  then have at: "unat (find_char CHR '':'' ?line) = length name" "unat (find_char CHR '':'' ?line + 2) = length name + 2"
    using assms(2) len by (simp_all only: find) (intro unat_small; linarith)+
  have "of_nat (length ?line) - 2 = (of_nat (length ?line - 2) :: 64 word)" using len by (simp add: of_nat_diff)
  then have n: "unat (of_nat (length ?line) - 2 :: 64 word) = length ?line - 2"
    using assms(2) by (simp only:) (intro unat_small; linarith)
  have "substr 0 (find_char CHR '':'' ?line) ?line = Inr name" by (simp add: substr_def at) (simp add: header_line_def)
  moreover have "substr (find_char CHR '':'' ?line + 2) (of_nat (length ?line) - 2) ?line = Inr (val @ crlf)"
    using len unfolding substr_def at n by simp (simp add: header_line_def)
  ultimately show ?thesis by (simp add: add_header_def)
qed

lemma read_headers_all:
  assumes "\<forall>p \<in> set hs. header_ok p" "reader_ok b" "unread b = concat (map header_line hs) @ crlf @ body"
  shows "\<exists>b'. read_headers rd h b w = Some (Inr (kept_headers hs h), b', w) \<and> reader_ok b' \<and> unread b' = body"
  using assms
proof (induction hs arbitrary: h b)
  case Nil
  obtain b' where "read_line rd b w = Some (Inr ([CHR 0x0D] @ [newline]), b', w)" "reader_ok b'" "unread b' = body"
    by (rule read_line_unread [of b "[CHR 0x0D]" body rd w]) (use Nil.prems in auto)
  then show ?case by (subst read_headers.simps) (simp add: kept_headers_def)
next
  case (Cons p hs)
  obtain name val where p: "p = (name, val)" by fastforce
  with Cons.prems have ok: "CHR '':'' \<notin> set name" "newline \<notin> set name" "newline \<notin> set val" by (simp_all add: header_ok_def)
  let ?l = "name @ '': '' @ val @ [CHR 0x0D]"
  have l: "?l @ [newline] = header_line (name, val)" by (simp add: header_line_def)
  have rest: "unread b = ?l @ newline # concat (map header_line hs) @ crlf @ body" using Cons.prems(3) p by (simp add: header_line_def)
  obtain b1 where b1: "read_line rd b w = Some (Inr (header_line (name, val)), b1, w)" "reader_ok b1"
    "unread b1 = concat (map header_line hs) @ crlf @ body"
    by (rule read_line_unread [OF Cons.prems(2) rest, of rd w]) (use ok l in auto)
  have "length (unread b) \<le> 8192" using length_unread [OF Cons.prems(2)] Cons.prems(2) by (auto simp: reader_ok_def)
  then have "length (header_line (name, val)) \<le> 8192" using Cons.prems(3) p by simp
  note added = add_header_line [OF ok(1) this, of h]
  have "header_line (name, val) \<noteq> crlf" by (auto simp: header_line_def Cons_eq_append_conv append_eq_Cons_conv)
  with b1(1) added have "read_headers rd h b w = read_headers rd (if name \<in> dom h then h else h(name \<mapsto> val @ crlf)) b1 w"
    by (subst read_headers.simps) simp
  with Cons.IH [of b1 "if name \<in> dom h then h else h(name \<mapsto> val @ crlf)"] Cons.prems(1) b1 p show ?case
    by (simp add: kept_headers_def)
qed

text \<open>Reading the body of a connection that has nothing more to give never ends.\<close>

lemma read_body_starves:
  assumes "\<And>n. rd w n = (Inr [], w)" "0 < left"
  shows "read_body rd body left w = None"
proof (rule ccontr)
  assume "read_body rd body left w \<noteq> None"
  then obtain y where "read_body rd body left w = Some y" by blast
  then have "(\<lambda>rd body left w y. (\<forall>n. rd w n = (Inr [], w)) \<longrightarrow> 0 < left \<longrightarrow> False) rd body left w y"
  proof (rule read_body.raw_induct [rotated], intro impI)
    fix f rd body left w y
    assume IH: "\<And>rd body left w y. f rd body left w = Some y \<Longrightarrow> (\<forall>n. rd w n = (Inr [], w)) \<longrightarrow> 0 < left \<longrightarrow> False"
      and step: "(if left = 0 then Some (Inr body, w) else case rd w left of (Inl x, w) \<Rightarrow> Some (Inl Bad_expected, w)
        | (Inr bytes, w) \<Rightarrow> f rd (body @ bytes) (left - length bytes) w) = Some y"
      and empty: "\<forall>n. rd w n = (Inr [], w)" "0 < left"
    then have "f rd body left w = Some y" by simp
    from IH [OF this] empty show False by blast
  qed
  with assms show False by blast
qed

lemma receive_request_head:
  assumes "rd w 8192 = (Inr (l @ crlf @ concat (map header_line hs) @ crlf @ body), w1)"
    "length (l @ crlf @ concat (map header_line hs) @ crlf @ body) \<le> 8192" "newline \<notin> set l" "\<forall>p \<in> set hs. header_ok p"
  shows "receive_request rd shutdown u w = (let n = content_length (kept_headers hs Map.empty)
    in if n < 0 then Some (Inl Length_error, w1)
       else Option.bind (read_body rd [] (nat n) w1) (\<lambda>(r, w). case r of
              Inl e \<Rightarrow> Some (Inl e, w)
            | Inr body' \<Rightarrow> Some (Inr (Some \<lparr>rq_line = RequestLine u l, rq_headers = kept_headers hs Map.empty, rq_body = body'\<rparr>), w)))"
proof -
  let ?bs = "l @ crlf @ concat (map header_line hs) @ crlf @ body"
  have ne: "?bs \<noteq> []" by simp
  obtain b where b: "read_line rd BufferReader w = read_line rd b w1" "reader_ok b" "unread b = ?bs"
    by (rule read_line_first [where rd = rd, OF assms(1) ne assms(2)])
  obtain b1 where b1: "read_line rd b w1 = Some (Inr ((l @ [CHR 0x0D]) @ [newline]), b1, w1)" "reader_ok b1"
    "unread b1 = concat (map header_line hs) @ crlf @ body"
    by (rule read_line_unread [of b "l @ [CHR 0x0D]" "concat (map header_line hs) @ crlf @ body" rd w1]) (use b assms(3) in auto)
  obtain b2 where b2: "read_headers rd Map.empty b1 w1 = Some (Inr (kept_headers hs Map.empty), b2, w1)"
    using read_headers_all [OF assms(4) b1(2,3), of rd Map.empty w1] by auto
  have "of_nat (length (l @ crlf)) - 2 = (of_nat (length l) :: 64 word)" by simp
  then have "unat (of_nat (length (l @ crlf)) - 2 :: 64 word) = length l"
    using assms(2) by (simp only:) (intro unat_small; simp)
  then have line: "substr 0 (of_nat (length (l @ crlf)) - 2) (l @ crlf) = Inr l" unfolding substr_def by simp
  have "read_line rd BufferReader w = Some (Inr (l @ crlf), b1, w1)" using b(1) b1(1) by simp
  then show ?thesis unfolding receive_request_def Let_def
    by (simp only: bind.bind_lunit option.simps prod.case sum.case line b2 append_is_Nil_conv list.distinct if_False simp_thms)
qed

text \<open>
  C34. A request that arrives in one piece. When the first read of the connection gives a request
  line, header lines and the empty line, all ended by CR LF, and possibly more bytes, then the request
  line is parsed without its end, and each header is kept under its name, the first of a name
  only and with the CR LF as part of its value. Without a Content-Length the request is passed on with an empty body.
  With a positive one and a client that has sent its whole request, the server waits for the
  body forever: the bytes after the empty line are in the buffer of the reader and are not looked at.
\<close>

theorem receive_request_parses:
  assumes "rd w 8192 = (Inr (l @ crlf @ concat (map header_line hs) @ crlf @ body), w1)"
    "length (l @ crlf @ concat (map header_line hs) @ crlf @ body) \<le> 8192" "newline \<notin> set l" "\<forall>p \<in> set hs. header_ok p"
  shows "if kept_headers hs Map.empty ''Content-Length'' = None
    then receive_request rd shutdown u w
      = Some (Inr (Some \<lparr>rq_line = RequestLine u l, rq_headers = kept_headers hs Map.empty, rq_body = []\<rparr>), w1)
    else (\<forall>n. rd w1 n = (Inr [], w1)) \<and> 0 < content_length (kept_headers hs Map.empty) \<longrightarrow> receive_request rd shutdown u w = None"
proof (cases "kept_headers hs Map.empty ''Content-Length'' = None")
  case True
  then have "content_length (kept_headers hs Map.empty) = 0" by (simp add: content_length_def)
  moreover have "read_body rd [] 0 w1 = Some (Inr [], w1)" by (subst read_body.simps) simp
  ultimately show ?thesis using True receive_request_head [where rd = rd, OF assms] by (simp add: Let_def)
next
  case False
  have "receive_request rd shutdown u w = None" if "\<forall>n. rd w1 n = (Inr [], w1)" "0 < content_length (kept_headers hs Map.empty)"
    using that receive_request_head [where rd = rd, OF assms] read_body_starves [of rd w1] by (simp add: Let_def)
  with False show ?thesis by (subst if_not_P) blast+
qed

definition once :: "string \<Rightarrow> bool reader" where
  "once s = (\<lambda>fresh len. (Inr (if fresh then s else []), False))"

theorem receive_request_parses_witness:
  "receive_request (once (''GET / HTTP/1.1'' @ crlf @ ''Host: me'' @ crlf @ crlf)) (\<lambda>w. (Inr (), w)) Put True
     = Some (Inr (Some \<lparr>rq_line = \<lparr>rl_method = Get, rl_url = ''./index.html'', rl_version = ''HTTP/1.1''\<rparr>,
          rq_headers = [''Host'' \<mapsto> ''me'' @ crlf], rq_body = []\<rparr>), False)
   \<and> receive_request (once (''POST /x HTTP/1.1'' @ crlf @ ''Content-Length: 2'' @ crlf @ crlf @ ''hi'')) (\<lambda>w. (Inr (), w)) Put True = None"
proof -
  let ?h = "(''Host'', ''me'')" and ?c = "(''Content-Length'', ''2'')"
  have ok: "header_ok ?h" "header_ok ?c" by (simp_all add: header_ok_def)
  have line: "RequestLine Put ''GET / HTTP/1.1'' = \<lparr>rl_method = Get, rl_url = ''./index.html'', rl_version = ''HTTP/1.1''\<rparr>"
    by (simp add: RequestLine_def extract_word_def is_space_def Let_def)
  have len: "content_length [''Content-Length'' \<mapsto> [CHR ''2'', CHR 0x0D, newline]] = 2" by code_simp
  have get: "once (''GET / HTTP/1.1'' @ crlf @ ''Host: me'' @ crlf @ crlf) True 8192
      = (Inr (''GET / HTTP/1.1'' @ crlf @ concat (map header_line [?h]) @ crlf @ []), False)"
    by (simp add: once_def header_line_def)
  have post: "once (''POST /x HTTP/1.1'' @ crlf @ ''Content-Length: 2'' @ crlf @ crlf @ ''hi'') True 8192
      = (Inr (''POST /x HTTP/1.1'' @ crlf @ concat (map header_line [?c]) @ crlf @ ''hi''), False)"
    by (simp add: once_def header_line_def)
  show ?thesis
    using receive_request_parses [where rd = "once _", OF get, of "\<lambda>w. (Inr (), w)" Put]
      receive_request_parses [where rd = "once _", OF post, of "\<lambda>w. (Inr (), w)" Put]
    by (simp add: ok line len kept_headers_def header_line_def) (simp add: once_def)
qed

section \<open>Decimal numbers\<close>

lemma from_chars_decimal:
  assumes "rest = [] \<or> \<not> is_digit (hd rest)"
  shows "from_chars (to_decimal n @ rest) v = (if n \<le> 2147483647 then int n else v)"
proof -
  note digits = to_decimal_digits [of n]
  have "takeWhile is_digit (to_decimal n @ rest) = to_decimal n"
    using digits assms by (cases rest) (auto simp: takeWhile_append list_all_iff)
  moreover have "(to_decimal n @ rest) ! 0 \<noteq> CHR ''-''" "to_decimal n @ rest \<noteq> []"
    using digits by (cases "to_decimal n"; auto simp: is_digit_def)+
  ultimately show ?thesis using digits unfolding from_chars_def Let_def
    by (simp only: simp_thms if_False to_decimal_value) auto
qed

text \<open>
  C35. A length printed and parsed. The value of a Content-Length header that states \<open>n\<close> in decimal, which the
  server keeps with the CR LF behind it, is read back as \<open>n\<close>, up to the largest \<open>int\<close>. A larger
  length does not fit; it is not reported as an error, and the request is taken to have no body.
\<close>

theorem content_length_roundtrip:
  "content_length (kept_headers [(''Content-Length'', to_decimal n)] Map.empty) = (if n \<le> 2147483647 then int n else 0)"
proof -
  have "\<not> is_digit (hd crlf)" by (simp add: is_digit_def)
  then show ?thesis using from_chars_decimal [of crlf n 0] by (simp add: content_length_def kept_headers_def)
qed

end
