(* ===== verification/Server_Programs.thy ===== *)
theory Server_Programs
  imports Http_Server Net_Epoll
begin

text \<open>
  The programs built on the library: the accept loop and the \<open>main\<close> of the HTTP server
  (\<open>examples/http_server.cc\<close>), the echo server (\<open>benchmark/echo_server.cc\<close>) and the
  demonstration program (\<open>src/main.cc\<close>), all over epoll. The system calls are arguments;
  a coroutine is given the results of what it awaits, and a loop that never ends the results of as many
  awaits as it has come to. \<open>e\<close> is the address of the listener's event.
\<close>

section \<open>Starting a server\<close>

text \<open>\<open>operator*\<close> of an \<open>expected\<close>.\<close>

definition must :: "'v result \<Rightarrow> 'v outcome" where
  "must r = (case r of Inl _ \<Rightarrow> Inl Bad_expected | Inr x \<Rightarrow> Inr x)"

record net_calls =
  nc_socket :: "int \<Rightarrow> int \<Rightarrow> int \<times> int"
  nc_setsockopt :: "int \<Rightarrow> int \<Rightarrow> int \<Rightarrow> int \<times> int"
  nc_bind :: "int \<Rightarrow> (sockaddr_in + sockaddr_in6) \<Rightarrow> nat \<Rightarrow> int \<times> int"
  nc_listen :: "int \<Rightarrow> int \<Rightarrow> int \<times> int"

text \<open>\<open>port_\<close> is an \<open>int\<close>, made from and turned back into 16 bits.\<close>

record server =
  sv_port :: int

definition Server :: "16 word \<Rightarrow> server" where
  "Server port = \<lparr>sv_port = uint port\<rparr>"

abbreviation (input) LISTEN_BACKLOG :: int where "LISTEN_BACKLOG \<equiv> 5000"

text \<open>\<open>SocketAddr::new_v4({}, port)\<close>: the default argument of \<open>Ipv4Addr\<close> is the null pointer.\<close>

definition any_addr :: "int \<Rightarrow> SocketAddr" where
  "any_addr port = new_v4 (Ipv4Addr (\<lambda>_. None) None) (word_of_int port)"

text \<open>The listener, and the descriptor left in the socket.\<close>

definition open_listener :: "net_calls \<Rightarrow> event_ptr \<Rightarrow> server \<Rightarrow> 'a core_scheme \<Rightarrow> (tcp \<times> int \<times> 'a core_scheme) outcome" where
  "open_listener sys e sv c =
     and_then (must (epoll_new_v4 (nc_socket sys))) (\<lambda>fd.
     and_then (must (epoll_set_reuseaddr (nc_setsockopt sys) True fd)) (\<lambda>_.
     and_then (must (epoll_bind (nc_bind sys) fd (any_addr (sv_port sv)))) (\<lambda>_.
     let (r, left, c) = epoll_listen (nc_listen sys) e LISTEN_BACKLOG fd c
     in and_then (must r) (\<lambda>l. Inr (l, left, c)))))"

type_synonym 'c accept = "tcp \<Rightarrow> 'c \<Rightarrow> (tcp \<times> SocketAddr) result \<times> 'c"

text \<open>\<open>(co_await listener.accept())->first\<close> of a failure is as undefined as \<open>*\<close>.\<close>

fun accept_loop ::
  "(tcp \<Rightarrow> 'a core_scheme \<Rightarrow> 'a core_scheme outcome) \<Rightarrow> 'a core_scheme accept list \<Rightarrow> tcp \<Rightarrow> 'a core_scheme \<Rightarrow> 'a core_scheme outcome" where
  "accept_loop spawn [] l c = Inr c"
| "accept_loop spawn (accept # rest) l c =
     (let (r, c) = accept l c
      in and_then (must r) (\<lambda>(server_stream, addr). and_then (spawn server_stream c) (accept_loop spawn rest l)))"

definition init_server ::
  "net_calls \<Rightarrow> event_ptr \<Rightarrow> (tcp \<Rightarrow> 'a core_scheme \<Rightarrow> 'a core_scheme outcome) \<Rightarrow> 'a core_scheme accept list \<Rightarrow> server
   \<Rightarrow> 'a core_scheme \<Rightarrow> 'a core_scheme outcome" where
  "init_server sys e spawn accepts sv c =
     and_then (open_listener sys e sv c) (\<lambda>(l, left, c). accept_loop spawn accepts l c)"

section \<open>The HTTP server\<close>

definition http_runtime :: "world \<Rightarrow> thread_id \<Rightarrow> thread_id list \<Rightarrow> heap \<Rightarrow> store \<Rightarrow> core outcome" where
  "http_runtime w tid threads =
     build w tid threads (registry Epoll_class 4 (registry Blocking_class 1 (worker_threads 1 new_multi_thread)))"

text \<open>\<open>Server::run\<close>; \<open>run\<close> runs the tasks, the accept loop among them.\<close>

definition Server_run ::
  "(ready_task \<Rightarrow> 'a core_scheme \<Rightarrow> 'a core_scheme outcome) \<Rightarrow> (nat \<Rightarrow> (bool \<times> bool) \<times> (nat \<Rightarrow> world)) \<Rightarrow> thread_id
   \<Rightarrow> future_ptr \<Rightarrow> 'a core_scheme \<Rightarrow> 'a core_scheme outcome option" where
  "Server_run run env tid future_wrapper c = block_on_void run env tid future_wrapper c"

text \<open>
  The coroutines the server has spawned: a connection, by number, whose request is to be received, or to
  be answered. \<open>hs_conns\<close> is the state of each connection; the ones from \<open>hs_accepted\<close> on are those
  clients have not opened yet.
\<close>

datatype http_task = Receive_request nat | Execute_request nat http_request

record 'w http_state =
  hs_conns :: "nat \<Rightarrow> 'w"
  hs_accepted :: nat
  hs_tasks :: "http_task list"

text \<open>What the coroutines work with: the connection, its shutdown, and the file system.\<close>

record 'w http_io =
  io_read :: "'w reader"
  io_shutdown :: "'w \<Rightarrow> unit result \<times> 'w"
  io_write :: "'w writer"
  io_open :: "string \<Rightarrow> 32 word \<Rightarrow> 32 word \<Rightarrow> int \<times> int"
  io_file_size :: "string \<Rightarrow> 64 word \<times> error_code"
  io_file_read :: "file_obj \<Rightarrow> 'w reader"

text \<open>One coroutine is run to its end; \<open>receive_request\<close> spawns \<open>execute_request\<close>.\<close>

fun run_http_task :: "'w http_io \<Rightarrow> Method \<Rightarrow> http_task \<Rightarrow> 'w http_state \<Rightarrow> 'w http_state outcome option" where
  "run_http_task io uninit (Receive_request i) s =
     Option.bind (receive_request (io_read io) (io_shutdown io) uninit (hs_conns s i)) (\<lambda>(r, w).
       Some (and_then r (\<lambda>request.
         let s = s\<lparr>hs_conns := (hs_conns s)(i := w)\<rparr>
         in Inr (case request of None \<Rightarrow> s | Some rq \<Rightarrow> s\<lparr>hs_tasks := hs_tasks s @ [Execute_request i rq]\<rparr>))))"
| "run_http_task io uninit (Execute_request i request) s =
     Option.bind (execute_request (io_open io) (io_file_size io) (io_file_read io) (io_write io) request (hs_conns s i)) (\<lambda>(r, w).
       Some (and_then r (\<lambda>_. Inr (s\<lparr>hs_conns := (hs_conns s)(i := w)\<rparr>))))"

text \<open>
  The accept loop and the workers in any interleaving. Different coroutines use different
  connections, so that running one without a pause loses no generality.
\<close>

inductive http_step :: "'w http_io \<Rightarrow> Method \<Rightarrow> 'w http_state \<Rightarrow> 'w http_state \<Rightarrow> bool" for io uninit where
  http_accept: "http_step io uninit s (s\<lparr>hs_accepted := Suc (hs_accepted s), hs_tasks := hs_tasks s @ [Receive_request (hs_accepted s)]\<rparr>)"
| http_run: "hs_tasks s = ts @ t # us \<Longrightarrow> run_http_task io uninit t (s\<lparr>hs_tasks := ts @ us\<rparr>) = Some (Inr s') \<Longrightarrow> http_step io uninit s s'"

inductive http_reach :: "'w http_io \<Rightarrow> Method \<Rightarrow> (nat \<Rightarrow> 'w) \<Rightarrow> 'w http_state \<Rightarrow> bool" for io uninit conns where
  http_start: "http_reach io uninit conns \<lparr>hs_conns = conns, hs_accepted = 0, hs_tasks = []\<rparr>"
| http_next: "http_reach io uninit conns s \<Longrightarrow> http_step io uninit s s' \<Longrightarrow> http_reach io uninit conns s'"

section \<open>The echo server\<close>

text \<open>Up to 1024 bytes are read and written back with one write. The result of \<open>shutdown\<close> is dropped.\<close>

definition echo :: "'w reader \<Rightarrow> 'w writer \<Rightarrow> ('w \<Rightarrow> unit result \<times> 'w) \<Rightarrow> 'w \<Rightarrow> unit outcome \<times> 'w" where
  "echo rd wr shutdown w = (case rd w 1024 of
     (Inl _, w) \<Rightarrow> (Inl Bad_expected, w)
   | (Inr bytes, w) \<Rightarrow>
       if bytes = [] then (Inr (), snd (shutdown w))
       else (case wr w bytes of (Inl _, w) \<Rightarrow> (Inl Bad_expected, w) | (Inr _, w) \<Rightarrow> (Inr (), w)))"

definition echo_runtime :: "world \<Rightarrow> thread_id \<Rightarrow> thread_id list \<Rightarrow> heap \<Rightarrow> store \<Rightarrow> core outcome" where
  "echo_runtime w tid threads =
     build w tid threads (registry Epoll_class 4 (registry Blocking_class 2 (worker_threads 2 new_multi_thread)))"

text \<open>Its start and accept loop are line for line those of the HTTP server; \<open>spawn\<close> spawns \<open>echo\<close> of the stream.\<close>

definition echo_init_server ::
  "net_calls \<Rightarrow> event_ptr \<Rightarrow> (tcp \<Rightarrow> 'a core_scheme \<Rightarrow> 'a core_scheme outcome) \<Rightarrow> 'a core_scheme accept list \<Rightarrow> server
   \<Rightarrow> 'a core_scheme \<Rightarrow> 'a core_scheme outcome" where
  "echo_init_server sys e spawn accepts sv c =
     and_then (open_listener sys e sv c) (\<lambda>(l, left, c). accept_loop spawn accepts l c)"

definition echo_Server_run ::
  "(ready_task \<Rightarrow> 'a core_scheme \<Rightarrow> 'a core_scheme outcome) \<Rightarrow> (nat \<Rightarrow> (bool \<times> bool) \<times> (nat \<Rightarrow> world)) \<Rightarrow> thread_id
   \<Rightarrow> future_ptr \<Rightarrow> 'a core_scheme \<Rightarrow> 'a core_scheme outcome option" where
  "echo_Server_run run env tid future_wrapper c = block_on_void run env tid future_wrapper c"

section \<open>The demonstration program\<close>

abbreviation (input) SERVER_PORT :: int where "SERVER_PORT \<equiv> 8080"
abbreviation (input) SERVER_IP :: string where "SERVER_IP \<equiv> ''127.0.0.1''"

text \<open>Each connection is sent three bytes with one write and is destroyed at the end of the round.\<close>

fun greet_loop ::
  "world \<Rightarrow> thread_id \<Rightarrow> (tcp \<Rightarrow> string \<Rightarrow> 'a core_scheme \<Rightarrow> int result \<times> 'a core_scheme) \<Rightarrow> 'a core_scheme accept list
   \<Rightarrow> tcp \<Rightarrow> 'a core_scheme \<Rightarrow> 'a core_scheme outcome" where
  "greet_loop w tid write [] l c = Inr c"
| "greet_loop w tid write (accept # rest) l c =
     (let (r, c) = accept l c
      in and_then (must r) (\<lambda>(connection, addr).
         let (r, c) = write connection ''abc'' c
         in and_then (must r) (\<lambda>_. and_then (epoll_TcpStream_dtor w tid connection c) (greet_loop w tid write rest l))))"

text \<open>
  An error of \<open>bind\<close> is logged and ends the server. The descriptors that the destructors of sockets
  close are the subject of \<open>Net_Socket\<close>.
\<close>

definition start_server ::
  "net_calls \<Rightarrow> event_ptr \<Rightarrow> world \<Rightarrow> thread_id \<Rightarrow> (tcp \<Rightarrow> string \<Rightarrow> 'a core_scheme \<Rightarrow> int result \<times> 'a core_scheme)
   \<Rightarrow> 'a core_scheme accept list \<Rightarrow> 'a core_scheme \<Rightarrow> 'a core_scheme outcome" where
  "start_server sys e w tid write accepts c =
     and_then (must (epoll_new_v4 (nc_socket sys))) (\<lambda>fd.
     and_then (must (epoll_set_reuseaddr (nc_setsockopt sys) True fd)) (\<lambda>_.
     case epoll_bind (nc_bind sys) fd (any_addr SERVER_PORT) of
       Inl err \<Rightarrow> Inr c
     | Inr _ \<Rightarrow>
         (let (r, left, c) = epoll_listen (nc_listen sys) e 3 fd c
          in and_then (must r) (\<lambda>l. greet_loop w tid write accepts l c))))"

text \<open>
  Time is the state of the client next to its core, in microseconds of the system clock, which \<open>now()\<close>
  reads. \<open>connect t c\<close> is the outcome of awaiting an attempt that starts at \<open>t\<close>, with the time and the core
  after it, and \<open>sleep_for d t\<close> the time at which a sleep of \<open>d\<close> that starts at \<open>t\<close> returns. \<open>k\<close> counts the attempts.
\<close>

partial_function (option) connect_loop ::
  "(int \<Rightarrow> 'c \<Rightarrow> tcp result \<times> int \<times> 'c) \<Rightarrow> (int \<Rightarrow> int \<Rightarrow> int) \<Rightarrow> int \<Rightarrow> nat \<Rightarrow> tcp result \<Rightarrow> int \<Rightarrow> 'c
   \<Rightarrow> (tcp result \<times> nat \<times> int \<times> 'c) option" where
  "connect_loop connect sleep_for start k r t c =
     (if isl r \<and> t - start \<le> 2000000
      then (case connect (sleep_for 1000000 t) c of (r, t, c) \<Rightarrow> connect_loop connect sleep_for start (Suc k) r t c)
      else Some (r, k, t, c))"

declare connect_loop.simps [code]

text \<open>The buffer of ten bytes after the read is the result; the connection is destroyed at the end.\<close>

definition start_client ::
  "world \<Rightarrow> thread_id \<Rightarrow> (SocketAddr \<Rightarrow> int \<Rightarrow> 'a core_scheme \<Rightarrow> tcp result \<times> int \<times> 'a core_scheme) \<Rightarrow> (string \<Rightarrow> 32 word option)
   \<Rightarrow> (int \<Rightarrow> int \<Rightarrow> int) \<Rightarrow> (tcp \<Rightarrow> 'a core_scheme reader) \<Rightarrow> int \<Rightarrow> 'a core_scheme \<Rightarrow> (string outcome \<times> 'a core_scheme) option" where
  "start_client w tid connect inet_pton sleep_for rd t c =
     (let start = t;
          connect = connect (new_v4 (Ipv4Addr inet_pton (Some SERVER_IP)) (word_of_int SERVER_PORT));
          (r, t, c) = connect t c
      in Option.bind (connect_loop connect sleep_for start 1 r t c) (\<lambda>(r, k, t, c). case r of
           Inl _ \<Rightarrow> Some (Inl Bad_expected, c)
         | Inr connection \<Rightarrow> Some (case rd connection c 10 of
             (Inl _, c) \<Rightarrow> (Inl Bad_expected, c)
           | (Inr bytes, c) \<Rightarrow> (case epoll_TcpStream_dtor w tid connection c of
               Inl a \<Rightarrow> (Inl a, c)
             | Inr c \<Rightarrow> (Inr (bytes @ replicate (10 - length bytes) CHR 0x00), c)))))"

definition main_runtime :: "world \<Rightarrow> thread_id \<Rightarrow> thread_id list \<Rightarrow> heap \<Rightarrow> store \<Rightarrow> core outcome" where
  "main_runtime w tid threads =
     build w tid threads (registry Epoll_class 4 (registry Blocking_class 2 (worker_threads 2 new_multi_thread)))"

text \<open>
  The body of \<open>main\<close> on the runtime: the server is spawned, then one client after the other is
  waited for. Each is a new coroutine that awaits the client and suspends the worker.
\<close>

fun run_clients ::
  "(ready_task \<Rightarrow> 'a core_scheme \<Rightarrow> 'a core_scheme outcome) \<Rightarrow> (nat \<Rightarrow> (bool \<times> bool) \<times> (nat \<Rightarrow> world)) \<Rightarrow> thread_id
   \<Rightarrow> (handle \<times> future_ptr) list \<Rightarrow> 'a core_scheme \<Rightarrow> 'a core_scheme outcome option" where
  "run_clients run env tid [] c = Some (Inr c)"
| "run_clients run env tid ((co, p) # rest) c =
     option_then (Some (and_then (get_return_object co p (set_frame co \<lparr>fr_void = True, fr_future = None, fr_done = False\<rparr> (co_store c)))
       (\<lambda>st. Inr (c\<lparr>co_store := st\<rparr>)))) (\<lambda>c.
     option_then (block_on_void run env tid p c) (run_clients run env tid rest))"

definition main_program ::
  "(ready_task \<Rightarrow> 'a core_scheme \<Rightarrow> 'a core_scheme outcome) \<Rightarrow> (nat \<Rightarrow> (bool \<times> bool) \<times> (nat \<Rightarrow> world)) \<Rightarrow> thread_id
   \<Rightarrow> handle \<times> future_ptr \<Rightarrow> (handle \<times> future_ptr) \<times> (handle \<times> future_ptr) \<times> (handle \<times> future_ptr) \<Rightarrow> 'a core_scheme
   \<Rightarrow> 'a core_scheme outcome option" where
  "main_program run env tid server_co clients c =
     option_then (Some (spawn_coroutine (fst server_co) (snd server_co) c))
       (run_clients run env tid [fst clients, fst (snd clients), snd (snd clients)])"

end
