(* ===== verification/Server_Properties.thy ===== *)
theory Server_Properties
  imports Server_Programs Http_Properties Runtime_Properties
begin

text \<open>Properties of the programs that use the library.\<close>

section \<open>Accepting\<close>

text \<open>The frame of a spawned coroutine when nobody has run it yet.\<close>

definition detached :: frame where
  "detached = \<lparr>fr_void = True, fr_future = None, fr_done = False\<rparr>"

lemma spawn_coroutine_queues:
  "\<exists>c'. spawn_coroutine co p c = Inr c' \<and> rev (co_handles c') = rev (co_handles c) @ [(Some co, None)]
     \<and> st_frames (co_store c') = (st_frames (co_store c))(co \<mapsto> detached)"
  by (simp add: spawn_coroutine_def get_return_object_def frame_at_def set_frame_def Future_ctor_def set_fut_def
      Runtime_spawn_def spawn_impl_def spawn_push_def spawn_drop_def get_handle_def fut_at_def push_handle_def emplace_begin_def
      Future_dtor_def destroy_def detached_def Let_def)

definition spawn_connection :: "(tcp \<Rightarrow> handle) \<Rightarrow> future_ptr \<Rightarrow> tcp \<Rightarrow> 'a core_scheme \<Rightarrow> 'a core_scheme outcome" where
  "spawn_connection frame p s c = spawn_coroutine (frame s) p c"

text \<open>Awaiting an accept that gives the stream \<open>s\<close> and leaves the ready queue and the frames alone.\<close>

definition accepts_stream :: "'a core_scheme accept \<Rightarrow> tcp \<Rightarrow> bool" where
  "accepts_stream accept s \<longleftrightarrow> (\<forall>l c. \<exists>addr c'. accept l c = (Inr (s, addr), c')
     \<and> co_handles c' = co_handles c \<and> st_frames (co_store c') = st_frames (co_store c))"

lemma accept_loop_spawns:
  assumes "list_all2 accepts_stream accepts ss"
  shows "\<exists>c'. accept_loop (spawn_connection frame p) (accepts @ rest) l c = accept_loop (spawn_connection frame p) rest l c'
    \<and> rev (co_handles c') = rev (co_handles c) @ map (\<lambda>s. (Some (frame s), None)) ss
    \<and> st_frames (co_store c') = (\<lambda>co. if co \<in> frame ` set ss then Some detached else st_frames (co_store c) co)"
  using assms
proof (induction accepts ss arbitrary: c rule: list_all2_induct)
  case (Cons accept accepts s ss)
  obtain addr c1 where c1: "accept l c = (Inr (s, addr), c1)" "co_handles c1 = co_handles c"
    "st_frames (co_store c1) = st_frames (co_store c)" using Cons.hyps(1) unfolding accepts_stream_def by blast
  obtain c2 where c2: "spawn_coroutine (frame s) p c1 = Inr c2" "rev (co_handles c2) = rev (co_handles c1) @ [(Some (frame s), None)]"
    "st_frames (co_store c2) = (st_frames (co_store c1))(frame s \<mapsto> detached)" using spawn_coroutine_queues by blast
  from Cons.IH [of c2] obtain c' where
    "accept_loop (spawn_connection frame p) (accepts @ rest) l c2 = accept_loop (spawn_connection frame p) rest l c'"
    "rev (co_handles c') = rev (co_handles c2) @ map (\<lambda>s. (Some (frame s), None)) ss"
    "st_frames (co_store c') = (\<lambda>co. if co \<in> frame ` set ss then Some detached else st_frames (co_store c2) co)" by blast
  with c1 c2 show ?case by (intro exI [of _ c']) (auto simp: must_def spawn_connection_def [of _ _ s] fun_eq_iff)
qed auto

text \<open>
  C32. Starting a server. When the four system calls succeed, the server listens on all addresses, on the
  port it was made with, in network byte order, with a backlog of 5000; it then spawns
  exactly one coroutine per accepted connection, in the order of the connections, behind what was in
  the ready queue, each detached from its future. When the next accept fails, for whatever
  reason, the failure is dereferenced: there is no error that the server survives, and the same is true of
  the four calls.
\<close>

theorem init_server_spawns:
  fixes port :: "16 word"
  assumes "nc_socket sys 2 0x801 = (fd, en)" "list_all2 accepts_stream accepts ss"
  defines "setup \<equiv> [fd, fst (nc_setsockopt sys fd 2 1),
      fst (nc_bind sys fd (Inl \<lparr>sin_family = 2, sin_port = htons port, sin_addr = 0\<rparr>) 16), fst (nc_listen sys fd 5000)]"
  shows "(if -1 \<in> set setup
     then init_server sys e (spawn_connection frame p) accepts (Server port) c = Inl Bad_expected
     else (\<exists>c'. init_server sys e (spawn_connection frame p) accepts (Server port) c = Inr c'
         \<and> rev (co_handles c') = rev (co_handles c) @ map (\<lambda>s. (Some (frame s), None)) ss
         \<and> (\<forall>s \<in> set ss. st_frames (co_store c') (frame s) = Some detached))
       \<and> (\<forall>accept rest. (\<forall>l c. isl (fst (accept l c))) \<longrightarrow>
           init_server sys e (spawn_connection frame p) (accepts @ accept # rest) (Server port) c = Inl Bad_expected))"
proof (cases "-1 \<in> set setup")
  case True
  have addr: "into_c_addr (any_addr (sv_port (Server port))) = Inl \<lparr>sin_family = 2, sin_port = htons port, sin_addr = 0\<rparr>"
    by (simp add: any_addr_def new_v4_def Ipv4Addr_def htonl_def Server_def)
  show ?thesis using True assms(1)
    by (auto simp: init_server_def open_listener_def setup_def must_def epoll_new_v4_def into_sys_result_def addr
        epoll_set_reuseaddr_def epoll_bind_def epoll_listen_def to_void_def split: prod.splits)
next
  case False
  have addr: "into_c_addr (any_addr (sv_port (Server port))) = Inl \<lparr>sin_family = 2, sin_port = htons port, sin_addr = 0\<rparr>"
    by (simp add: any_addr_def new_v4_def Ipv4Addr_def htonl_def Server_def)
  let ?l = "fst (epoll_TcpListener e fd c)" and ?c = "snd (epoll_TcpListener e fd c)"
  have c: "co_handles ?c = co_handles c" by (simp add: epoll_TcpListener_def)
  have start: "init_server sys e spawn as (Server port) c = accept_loop spawn as ?l ?c" for spawn as
    using False assms(1)
    by (auto simp: init_server_def open_listener_def setup_def must_def epoll_new_v4_def into_sys_result_def addr
        epoll_set_reuseaddr_def epoll_bind_def epoll_listen_def to_void_def split: prod.splits)
  note loop = accept_loop_spawns [OF assms(2), where l = ?l and c = ?c]
  have "\<exists>c'. init_server sys e (spawn_connection frame p) accepts (Server port) c = Inr c'
         \<and> rev (co_handles c') = rev (co_handles c) @ map (\<lambda>s. (Some (frame s), None)) ss
         \<and> (\<forall>s \<in> set ss. st_frames (co_store c') (frame s) = Some detached)"
    using loop [of frame p "[]"] c unfolding start by auto
  moreover have "init_server sys e (spawn_connection frame p) (accepts @ accept # rest) (Server port) c = Inl Bad_expected"
    if fails: "\<forall>l c. isl (fst (accept l c))" for accept rest
  proof -
    obtain c' where "init_server sys e (spawn_connection frame p) (accepts @ accept # rest) (Server port) c
        = accept_loop (spawn_connection frame p) (accept # rest) ?l c'"
      using loop [of frame p "accept # rest"] unfolding start by blast
    moreover obtain err c2 where "accept ?l c' = (Inl err, c2)" using fails by (metis isl_def prod.collapse)
    ultimately show ?thesis by (simp add: must_def)
  qed
  ultimately show ?thesis using False by simp
qed

definition demo_calls :: net_calls where
  "demo_calls = \<lparr>nc_socket = (\<lambda>d t. (5, 0)), nc_setsockopt = (\<lambda>fd opt v. (0, 0)), nc_bind = (\<lambda>fd addr len. (0, 0)),
     nc_listen = (\<lambda>fd backlog. (0, 0))\<rparr>"

definition demo_accept :: "int \<Rightarrow> core accept" where
  "demo_accept fd l c = (Inr (\<lparr>tcp_fd = fd, tcp_event = 0\<rparr>, any_addr 80), c)"

theorem init_server_spawns_witness:
  "(\<exists>c'. init_server demo_calls 7 (spawn_connection (\<lambda>s. nat (tcp_fd s)) 1) [demo_accept 11, demo_accept 12] (Server 8080) spawn_core = Inr c'
     \<and> rev (co_handles c') = [(Some 11, None), (Some 12, None)])
   \<and> init_server demo_calls 7 (spawn_connection (\<lambda>s. nat (tcp_fd s)) 1) [demo_accept 11, \<lambda>l c. (Inl (from_sys_error 24), c)] (Server 8080) spawn_core = Inl Bad_expected"
proof -
  have acc: "list_all2 accepts_stream (map demo_accept fds) (map (\<lambda>fd. \<lparr>tcp_fd = fd, tcp_event = 0\<rparr>) fds)" for fds
    by (simp add: list_all2_map1 list_all2_map2 list.rel_refl accepts_stream_def demo_accept_def)
  have s: "nc_socket demo_calls 2 0x801 = (5, 0)" "nc_setsockopt demo_calls = (\<lambda>fd opt v. (0, 0))"
    "nc_bind demo_calls = (\<lambda>fd addr len. (0, 0))" "nc_listen demo_calls = (\<lambda>fd backlog. (0, 0))" by (simp_all add: demo_calls_def)
  have "co_handles spawn_core = []" by (simp add: spawn_core_def)
  with init_server_spawns [OF s(1) acc [of "[11, 12]"], of 8080 7 "\<lambda>s. nat (tcp_fd s)" 1 spawn_core]
    init_server_spawns [OF s(1) acc [of "[11]"], of 8080 7 "\<lambda>s. nat (tcp_fd s)" 1 spawn_core]
  show ?thesis unfolding s by auto
qed

section \<open>Serving\<close>

text \<open>The complete response to a request, over a file system of small files.\<close>

definition http_answer :: "(string \<Rightarrow> string option) \<Rightarrow> request_line \<Rightarrow> string" where
  "http_answer files rl = rl_version rl @
     (if rl_method rl \<noteq> Get
      then '' 500 Internal Server Error'' @ crlf @ ''Content-Length: 24'' @ crlf @ crlf @ [CHR 0x00] @ ''<P>Unsupported method.'' @ crlf
      else case files (rl_url rl) of
        None \<Rightarrow> '' 404 ERROR'' @ crlf @ ''Content-Length: 37'' @ crlf @ crlf @ [CHR 0x00] @ ''<P>Your browser sent a bad request.'' @ crlf
      | Some content \<Rightarrow> '' 200 OK'' @ crlf @ ''Content-Length: '' @ to_decimal (length content) @ crlf @ crlf @ [CHR 0x00] @ terminated content)"

text \<open>
  The laws of the streams: writing to the connection only ever fails with a request for another attempt, and
  leaves the files alone; a file is opened, sized and read as \<open>files\<close> says.
\<close>

definition io_laws ::
  "'w http_io \<Rightarrow> ('w \<Rightarrow> string) \<Rightarrow> ('w \<Rightarrow> nat) \<Rightarrow> (file_obj \<Rightarrow> 'w \<Rightarrow> string) \<Rightarrow> (string \<Rightarrow> string option) \<Rightarrow> bool" where
  "io_laws io sent patience to_read files \<longleftrightarrow> reliable_sink (io_write io) sent patience (\<lambda>w f. to_read f w)
     \<and> (\<forall>f. whole_file (io_file_read io f) (to_read f) sent)
     \<and> (\<forall>path. case files path of
          None \<Rightarrow> isl (epoll_file_open (io_open io) path)
        | Some content \<Rightarrow> length content \<le> 8192 \<and> (\<exists>f. epoll_file_open (io_open io) path = Inr f
            \<and> epoll_file_size (io_file_size io) f = Inr (of_nat (length content))))"

text \<open>A connection on which a request without a body arrives in one piece; its files have not been read.\<close>

definition fresh_connection ::
  "'w http_io \<Rightarrow> ('w \<Rightarrow> string) \<Rightarrow> (file_obj \<Rightarrow> 'w \<Rightarrow> string) \<Rightarrow> (string \<Rightarrow> string option) \<Rightarrow> string \<Rightarrow> 'w \<Rightarrow> bool" where
  "fresh_connection io sent to_read files l w \<longleftrightarrow> (\<exists>hs body w1.
     io_read io w 8192 = (Inr (l @ crlf @ concat (map header_line hs) @ crlf @ body), w1)
     \<and> length (l @ crlf @ concat (map header_line hs) @ crlf @ body) \<le> 8192 \<and> newline \<notin> set l \<and> (\<forall>p \<in> set hs. header_ok p)
     \<and> kept_headers hs Map.empty ''Content-Length'' = None
     \<and> sent w1 = sent w
     \<and> (\<forall>path content f. files path = Some content \<and> epoll_file_open (io_open io) path = Inr f \<longrightarrow> to_read f w1 = content))"

text \<open>The state of the connection after \<open>receive_request\<close>.\<close>

definition received ::
  "'w http_io \<Rightarrow> ('w \<Rightarrow> string) \<Rightarrow> (file_obj \<Rightarrow> 'w \<Rightarrow> string) \<Rightarrow> (string \<Rightarrow> string option) \<Rightarrow> string \<Rightarrow> 'w \<Rightarrow> bool" where
  "received io sent to_read files before w \<longleftrightarrow> sent w = before
     \<and> (\<forall>path content f. files path = Some content \<and> epoll_file_open (io_open io) path = Inr f \<longrightarrow> to_read f w = content)"

lemma receive_fresh:
  assumes "fresh_connection io sent to_read files l w"
  shows "\<exists>rq w1. receive_request (io_read io) (io_shutdown io) u w = Some (Inr (Some rq), w1) \<and> rq_line rq = RequestLine u l
    \<and> received io sent to_read files (sent w) w1"
proof -
  from assms obtain hs body w1 where *: "io_read io w 8192 = (Inr (l @ crlf @ concat (map header_line hs) @ crlf @ body), w1)"
    "length (l @ crlf @ concat (map header_line hs) @ crlf @ body) \<le> 8192" "newline \<notin> set l" "\<forall>p \<in> set hs. header_ok p"
    "kept_headers hs Map.empty ''Content-Length'' = None" "sent w1 = sent w"
    "\<forall>path content f. files path = Some content \<and> epoll_file_open (io_open io) path = Inr f \<longrightarrow> to_read f w1 = content"
    unfolding fresh_connection_def by blast
  have "content_length (kept_headers hs Map.empty) = 0" using *(5) by (simp add: content_length_def)
  moreover have "read_body (io_read io) [] 0 w1 = Some (Inr [], w1)" by (subst read_body.simps) simp
  ultimately show ?thesis using receive_request_head [where rd = "io_read io", OF *(1-4), of "io_shutdown io" u] *(6,7)
    by (simp add: received_def Let_def)
qed

lemma execute_received:
  assumes "io_laws io sent patience to_read files" "received io sent to_read files before w" "rq_line rq = rl"
  shows "\<exists>w'. execute_request (io_open io) (io_file_size io) (io_file_read io) (io_write io) rq w = Some (Inr (), w')
    \<and> sent w' = before @ http_answer files rl"
proof -
  let ?open = "epoll_file_open (io_open io) (rl_url (rq_line rq))"
  have disk: "case files (rl_url (rq_line rq)) of None \<Rightarrow> isl ?open
      | Some content \<Rightarrow> length content \<le> 8192 \<and> (\<exists>f. ?open = Inr f \<and> epoll_file_size (io_file_size io) f = Inr (of_nat (length content)))"
    using assms(1) unfolding io_laws_def by blast
  have sink: "reliable_sink (io_write io) sent patience (to_read f)" for f
    using assms(1) unfolding io_laws_def reliable_sink_def by metis
  have whole: "whole_file (io_file_read io f) (to_read f) sent" for f using assms(1) unfolding io_laws_def by blast
  consider "rl_method (rq_line rq) \<noteq> Get" | err where "rl_method (rq_line rq) = Get" "?open = Inl err" "files (rl_url (rq_line rq)) = None"
    | f content where "rl_method (rq_line rq) = Get" "?open = Inr f" "files (rl_url (rq_line rq)) = Some content" "length content \<le> 8192"
      "epoll_file_size (io_file_size io) f = Inr (of_nat (length content))"
    using disk by (cases "files (rl_url (rq_line rq))") (auto simp: isl_def)
  then show ?thesis
  proof cases
    case 1
    with respond_unsupported [where sys_open = "io_open io" and file_size = "io_file_size io" and file_read = "io_file_read io" and w = w, OF sink 1] assms(2,3) show ?thesis by (simp add: http_answer_def received_def)
  next
    case 2
    with respond_missing [where sys_open = "io_open io" and file_size = "io_file_size io" and file_read = "io_file_read io" and w = w, OF sink 2(1,2)] assms(2,3) show ?thesis by (simp add: http_answer_def received_def)
  next
    case (3 f content)
    have "to_read f w = content" using assms(2) 3(2,3) unfolding received_def by blast
    moreover have "unat (of_nat (length content) :: 64 word) = length content" using unat_small 3(4) by simp
    ultimately show ?thesis using respond_file [where file_read = "io_file_read io" and f = f and to_read = "to_read f" and w = w, OF sink whole _ 3(1,2,5)] 3 assms(2,3)
      by (simp add: http_answer_def received_def)
  qed
qed

text \<open>Where a connection is on its way from being opened to being answered.\<close>

fun task_conn :: "http_task \<Rightarrow> nat" where
  "task_conn (Receive_request i) = i"
| "task_conn (Execute_request i rq) = i"

definition conn_tasks :: "nat \<Rightarrow> http_task list \<Rightarrow> http_task list" where
  "conn_tasks i ts = filter (\<lambda>t. task_conn t = i) ts"

lemma conn_tasks_simps [simp]:
  "conn_tasks i [] = []" "conn_tasks i (ts @ us) = conn_tasks i ts @ conn_tasks i us"
  "conn_tasks i (t # ts) = (if task_conn t = i then t # conn_tasks i ts else conn_tasks i ts)"
  by (simp_all add: conn_tasks_def)

definition conn_ok ::
  "'w http_io \<Rightarrow> Method \<Rightarrow> ('w \<Rightarrow> string) \<Rightarrow> (file_obj \<Rightarrow> 'w \<Rightarrow> string) \<Rightarrow> (string \<Rightarrow> string option) \<Rightarrow> (nat \<Rightarrow> string) \<Rightarrow> (nat \<Rightarrow> 'w)
    \<Rightarrow> 'w http_state \<Rightarrow> nat \<Rightarrow> bool" where
  "conn_ok io u sent to_read files l conns s i \<longleftrightarrow>
     (if i < hs_accepted s
      then conn_tasks i (hs_tasks s) = [Receive_request i] \<and> hs_conns s i = conns i
        \<or> (\<exists>rq. conn_tasks i (hs_tasks s) = [Execute_request i rq] \<and> rq_line rq = RequestLine u (l i)
             \<and> received io sent to_read files (sent (conns i)) (hs_conns s i))
        \<or> conn_tasks i (hs_tasks s) = [] \<and> sent (hs_conns s i) = sent (conns i) @ http_answer files (RequestLine u (l i))
      else conn_tasks i (hs_tasks s) = [] \<and> hs_conns s i = conns i)"

text \<open>What running a task of such a state does.\<close>

lemma run_task_ok:
  assumes "io_laws io sent patience to_read files" "\<And>i. fresh_connection io sent to_read files (l i) (conns i)"
    and "\<And>i. conn_ok io u sent to_read files l conns s i" "hs_tasks s = ts @ t # us"
  shows "\<exists>s'. run_http_task io u t (s\<lparr>hs_tasks := ts @ us\<rparr>) = Some (Inr s') \<and> (\<forall>i. conn_ok io u sent to_read files l conns s' i)
    \<and> hs_accepted s' = hs_accepted s"
proof -
  let ?k = "task_conn t" and ?s = "s\<lparr>hs_tasks := ts @ us\<rparr>"
  have mine: "t \<in> set (conn_tasks ?k (hs_tasks s))" using assms(4) by simp
  have k: "?k < hs_accepted s" using assms(3) [of ?k] mine unfolding conn_ok_def by (metis empty_iff empty_set)
  have only: "conn_tasks ?k (ts @ us) = []" "conn_tasks ?k (hs_tasks s) = [t]"
    using assms(3) [of ?k] assms(4) k unfolding conn_ok_def by (auto simp: append_eq_Cons_conv)
  have others: "conn_tasks i (hs_tasks s) = conn_tasks i (ts @ us)" if "i \<noteq> ?k" for i using assms(4) that by simp
  show ?thesis
  proof (cases t)
    case (Receive_request i)
    with assms(3) [of i] only k have "hs_conns s i = conns i" unfolding conn_ok_def by auto
    with receive_fresh [OF assms(2) [of i], of u] obtain rq w1 where
      w1: "receive_request (io_read io) (io_shutdown io) u (hs_conns s i) = Some (Inr (Some rq), w1)" "rq_line rq = RequestLine u (l i)"
        "received io sent to_read files (sent (conns i)) w1" by auto
    let ?s' = "?s\<lparr>hs_conns := (hs_conns s)(i := w1), hs_tasks := ts @ us @ [Execute_request i rq]\<rparr>"
    have "run_http_task io u t ?s = Some (Inr ?s')" using w1(1) Receive_request by simp
    moreover have "conn_ok io u sent to_read files l conns ?s' j" for j
      using assms(3) [of j] only others [of j] k w1(2,3) Receive_request unfolding conn_ok_def by (cases "j = i") auto
    ultimately show ?thesis by (intro exI [of _ ?s']) simp
  next
    case (Execute_request i rq)
    with assms(3) [of i] only k have rq: "rq_line rq = RequestLine u (l i)" "received io sent to_read files (sent (conns i)) (hs_conns s i)"
      unfolding conn_ok_def by auto
    obtain w' where w': "execute_request (io_open io) (io_file_size io) (io_file_read io) (io_write io) rq (hs_conns s i) = Some (Inr (), w')"
      "sent w' = sent (conns i) @ http_answer files (RequestLine u (l i))"
      using execute_received [OF assms(1) rq(2,1)] by blast
    let ?s' = "?s\<lparr>hs_conns := (hs_conns s)(i := w')\<rparr>"
    have "run_http_task io u t ?s = Some (Inr ?s')" using w'(1) Execute_request by simp
    moreover have "conn_ok io u sent to_read files l conns ?s' j" for j
      using assms(3) [of j] only others [of j] k w'(2) Execute_request unfolding conn_ok_def by (cases "j = i") auto
    ultimately show ?thesis by (intro exI [of _ ?s']) simp
  qed
qed

lemma http_reach_ok:
  assumes "http_reach io u conns s" "io_laws io sent patience to_read files" "\<And>i. fresh_connection io sent to_read files (l i) (conns i)"
  shows "\<forall>i. conn_ok io u sent to_read files l conns s i"
  using assms(1)
proof (induction rule: http_reach.induct)
  case http_start
  show ?case by (simp add: conn_ok_def)
next
  case (http_next s s')
  from http_next.hyps(2) show ?case
  proof cases
    case http_accept
    show ?thesis
    proof
      fix i
      show "conn_ok io u sent to_read files l conns s' i"
        using http_next.IH [rule_format, of i] http_accept unfolding conn_ok_def by (cases "i = hs_accepted s") auto
    qed
  next
    case (http_run ts t us)
    with run_task_ok [OF assms(2,3) http_next.IH [rule_format] http_run(1)] show ?thesis by auto
  qed
qed

text \<open>
  C31. The server answers every request. Let connections come in and the coroutines of the
  server run in any order and interleaving, every connection carrying a request without a body that arrives in
  one piece, the files be small and the connections reliable. Then no coroutine fails or runs forever: any of them that is ready
  can be run; and whenever none is left, every connection accepted so far has been sent
  exactly its response: 500 for a method other than GET, 404 for a file that is missing, and else 200 with the
  length and the contents of the file. Each response has a zero byte between the blank line and the body,
  and a second one behind a file that does not end in a newline; Content-Length counts neither.
\<close>

theorem server_answers:
  assumes "http_reach io u conns s" "io_laws io sent patience to_read files" "\<And>i. fresh_connection io sent to_read files (l i) (conns i)"
  shows "(\<forall>t \<in> set (hs_tasks s). \<exists>ts us s'. hs_tasks s = ts @ t # us \<and> run_http_task io u t (s\<lparr>hs_tasks := ts @ us\<rparr>) = Some (Inr s'))
    \<and> (hs_tasks s = [] \<longrightarrow> (\<forall>i < hs_accepted s. sent (hs_conns s i) = sent (conns i) @ http_answer files (RequestLine u (l i))))"
proof -
  note ok = http_reach_ok [OF assms]
  have "\<exists>ts us s'. hs_tasks s = ts @ t # us \<and> run_http_task io u t (s\<lparr>hs_tasks := ts @ us\<rparr>) = Some (Inr s')" if "t \<in> set (hs_tasks s)" for t
  proof -
    from split_list [OF that] obtain ts us where tasks: "hs_tasks s = ts @ t # us" by blast
    from run_task_ok [OF assms(2,3) ok [rule_format] tasks] tasks show ?thesis by blast
  qed
  moreover have "sent (hs_conns s i) = sent (conns i) @ http_answer files (RequestLine u (l i))" if "hs_tasks s = []" "i < hs_accepted s" for i
    using ok [rule_format, of i] that unfolding conn_ok_def by auto
  ultimately show ?thesis by blast
qed

text \<open>A connection: whether its request is still to be read, the file and what was sent.\<close>

definition demo_io :: "(bool \<times> string \<times> string) http_io" where
  "demo_io = \<lparr>io_read = (\<lambda>(fresh, rest, out) n. (Inr (if fresh then ''GET /a HTTP/1.1'' @ crlf @ crlf else []), False, rest, out)),
     io_shutdown = (\<lambda>w. (Inr (), w)),
     io_write = (\<lambda>(fresh, rest, out) bs. (Inr (length bs), fresh, rest, out @ bs)),
     io_open = (\<lambda>path flags mode. (if path = ''./a'' then 5 else -1, 2)), io_file_size = (\<lambda>path. (3, 0, [])),
     io_file_read = (\<lambda>f (fresh, rest, out) n. (Inr (take n rest), fresh, drop n rest, out))\<rparr>"

definition demo_files :: "string \<Rightarrow> string option" where
  "demo_files path = (if path = ''./a'' then Some (''hi'' @ [newline]) else None)"

lemma demo_io_laws: "io_laws demo_io (\<lambda>w. snd (snd w)) (\<lambda>_. 0) (\<lambda>f w. fst (snd w)) demo_files"
proof -
  have "reliable_sink (io_write demo_io) (\<lambda>w. snd (snd w)) (\<lambda>_. 0) (\<lambda>w f. fst (snd w))"
    by (auto simp: reliable_sink_def byte_sink_def demo_io_def)
  moreover have "whole_file (io_file_read demo_io f) (\<lambda>w. fst (snd w)) (\<lambda>w. snd (snd w))" for f
    by (auto simp: whole_file_def demo_io_def)
  ultimately show ?thesis
    by (auto simp: io_laws_def demo_files_def demo_io_def epoll_file_open_def epoll_open_def opt_read_def OpenOptions_def
        get_access_mode_def get_creation_mode_def into_sys_result_def epoll_file_size_def error_code_result_def split: option.splits)
qed

lemma demo_fresh: "fresh_connection demo_io (\<lambda>w. snd (snd w)) (\<lambda>f w. fst (snd w)) demo_files ''GET /a HTTP/1.1'' (True, ''hi'' @ [newline], [])"
  unfolding fresh_connection_def
  by (intro exI [of _ "[]"] exI [of _ "(False, ''hi'' @ [newline], [])"]) (auto simp: demo_io_def demo_files_def kept_headers_def split: if_splits)

theorem server_answers_witness:
  "\<exists>s. http_reach demo_io Put (\<lambda>_. (True, ''hi'' @ [newline], [])) s \<and> hs_accepted s = 1 \<and> hs_tasks s = []
     \<and> snd (snd (hs_conns s 0)) = ''HTTP/1.1 200 OK'' @ crlf @ ''Content-Length: 3'' @ crlf @ crlf @ [CHR 0x00] @ ''hi'' @ [newline]"
proof -
  let ?conns = "\<lambda>_ :: nat. (True, ''hi'' @ [newline], [])" and ?l = "\<lambda>_ :: nat. ''GET /a HTTP/1.1''"
  let ?s1 = "\<lparr>hs_conns = ?conns, hs_accepted = 1, hs_tasks = [Receive_request 0]\<rparr>"
  have run1: "http_reach demo_io Put ?conns ?s1" using http_next [OF http_start http_accept, of demo_io Put ?conns] by simp
  obtain rq w1 where rq: "receive_request (io_read demo_io) (io_shutdown demo_io) Put (?conns 0) = Some (Inr (Some rq), w1)"
    "rq_line rq = RequestLine Put (?l 0)" "received demo_io (\<lambda>w. snd (snd w)) (\<lambda>f w. fst (snd w)) demo_files (snd (snd (?conns 0))) w1"
    using receive_fresh [OF demo_fresh, of Put] by blast
  let ?s2 = "\<lparr>hs_conns = ?conns(0 := w1), hs_accepted = 1, hs_tasks = [Execute_request 0 rq]\<rparr>"
  have run2: "http_reach demo_io Put ?conns ?s2"
    by (rule http_next [OF run1], rule http_run [of _ "[]" "Receive_request 0" "[]"]) (use rq(1) in simp_all)
  obtain w2 where w2: "execute_request (io_open demo_io) (io_file_size demo_io) (io_file_read demo_io) (io_write demo_io) rq w1 = Some (Inr (), w2)"
    using execute_received [OF demo_io_laws rq(3,2)] by blast
  let ?s3 = "\<lparr>hs_conns = ?conns(0 := w2), hs_accepted = 1, hs_tasks = []\<rparr>"
  have run3: "http_reach demo_io Put ?conns ?s3"
    by (rule http_next [OF run2], rule http_run [of _ "[]" "Execute_request 0 rq" "[]"]) (use w2 in simp_all)
  have "http_answer demo_files (RequestLine Put ''GET /a HTTP/1.1'') = ''HTTP/1.1 200 OK'' @ crlf @ ''Content-Length: 3'' @ crlf @ crlf @ [CHR 0x00] @ ''hi'' @ [newline]"
    by code_simp
  with server_answers [OF run3 demo_io_laws demo_fresh] run3 show ?thesis by (intro exI [of _ ?s3]) simp
qed

section \<open>The demonstration program\<close>

text \<open>
  A sleep lasts at least as long as it was asked to, and the clock is not set back, neither during a
  sleep nor during an attempt.
\<close>

definition sleeps_long :: "(int \<Rightarrow> int \<Rightarrow> int) \<Rightarrow> bool" where
  "sleeps_long sleep_for \<longleftrightarrow> (\<forall>d t. 0 \<le> d \<longrightarrow> t + d \<le> sleep_for d t)"

definition clock_forward :: "(int \<Rightarrow> 'c \<Rightarrow> tcp result \<times> int \<times> 'c) \<Rightarrow> bool" where
  "clock_forward connect \<longleftrightarrow> (\<forall>t c. t \<le> fst (snd (connect t c)))"

lemma connect_loop_ends:
  assumes clk: "sleeps_long sleep_for" "clock_forward connect"
    and k: "k \<le> 4" "start + 1000000 * (int k - 1) \<le> t"
  shows "\<exists>r' k' t' c'. connect_loop connect sleep_for start k r t c = Some (r', k', t', c') \<and> k' \<le> 4 \<and> (isl r' \<longrightarrow> start + 2000000 < t')
    \<and> ((\<forall>t c. isl (fst (connect t c))) \<and> isl r \<longrightarrow> isl r')"
  using k
proof (induction "4 - k" arbitrary: k r t c)
  case 0
  then have "k = 4" by simp
  with 0 show ?case by (subst connect_loop.simps) auto
next
  case (Suc n)
  show ?case
  proof (cases "isl r \<and> t - start \<le> 2000000")
    case True
    obtain r1 t1 c1 where 1: "connect (sleep_for 1000000 t) c = (r1, t1, c1)" by (rule prod_cases3)
    have "t + 1000000 \<le> sleep_for 1000000 t" using clk(1) by (simp add: sleeps_long_def)
    also have "\<dots> \<le> t1" using clk(2) 1 by (metis clock_forward_def fst_conv snd_conv)
    finally have "n = 4 - Suc k" "Suc k \<le> 4" "start + 1000000 * (int (Suc k) - 1) \<le> t1" using Suc.hyps(2) Suc.prems(2) by auto
    from Suc.hyps(1) [OF this, of r1 c1] obtain r' k' t' c' where
      "connect_loop connect sleep_for start (Suc k) r1 t1 c1 = Some (r', k', t', c')" "k' \<le> 4" "isl r' \<longrightarrow> start + 2000000 < t'"
      "(\<forall>t c. isl (fst (connect t c))) \<and> isl r1 \<longrightarrow> isl r'" by blast
    moreover have "isl r1" if "\<forall>t c. isl (fst (connect t c))" using that 1 by (metis fst_conv)
    ultimately show ?thesis using True 1 by (subst connect_loop.simps) auto
  next
    case False
    with Suc.prems show ?thesis by (subst connect_loop.simps) auto
  qed
qed

text \<open>
  C33. The client of the demonstration program does not retry forever. With the second it sleeps between
  attempts, and a clock that is not set back, it makes at most four attempts to connect
  and always returns; it stops early exactly on success, and otherwise only when two seconds
  have passed. When all attempts failed it dereferences the failure, and when the first one
  succeeds it has read the first bytes that the server sent, up to ten, and then destroys the connection.
\<close>

theorem client_gives_up:
  fixes inet_pton :: "string \<Rightarrow> 32 word option"
  defines "addr \<equiv> new_v4 (Ipv4Addr inet_pton (Some ''127.0.0.1'')) 8080"
  assumes "sleeps_long sleep_for" "clock_forward (connect addr)"
  shows "(\<exists>r k t' c'. (case connect addr t c of (r0, t0, c0) \<Rightarrow> connect_loop (connect addr) sleep_for t 1 r0 t0 c0) = Some (r, k, t', c')
      \<and> k \<le> 4 \<and> (isl r \<longrightarrow> t + 2000000 < t'))
    \<and> (\<exists>res c'. start_client w tid connect inet_pton sleep_for rd t c = Some (res, c')
      \<and> ((\<forall>t c. isl (fst (connect addr t c))) \<longrightarrow> res = Inl Bad_expected)
      \<and> (\<forall>conn t1 c1 bytes c2. connect addr t c = (Inr conn, t1, c1) \<and> rd conn c1 10 = (Inr bytes, c2) \<longrightarrow>
          (case epoll_TcpStream_dtor w tid conn c2 of
             Inl a \<Rightarrow> res = Inl a \<and> c' = c2
           | Inr c3 \<Rightarrow> res = Inr (bytes @ replicate (10 - length bytes) CHR 0x00) \<and> c' = c3)))"
proof -
  obtain r0 t0 c0 where 0: "connect addr t c = (r0, t0, c0)" by (rule prod_cases3)
  have t0: "t \<le> t0" using assms(3) 0 by (metis clock_forward_def fst_conv snd_conv)
  have "\<exists>r k t' c'. connect_loop (connect addr) sleep_for t 1 r0 t0 c0 = Some (r, k, t', c') \<and> k \<le> 4 \<and> (isl r \<longrightarrow> t + 2000000 < t')
      \<and> ((\<forall>t c. isl (fst (connect addr t c))) \<and> isl r0 \<longrightarrow> isl r)"
    using t0 by (intro connect_loop_ends [OF assms(2,3)]) simp_all
  then obtain r k t' c' where
    loop: "connect_loop (connect addr) sleep_for t 1 r0 t0 c0 = Some (r, k, t', c')" "k \<le> 4" "isl r \<longrightarrow> t + 2000000 < t'"
      "(\<forall>t c. isl (fst (connect addr t c))) \<and> isl r0 \<longrightarrow> isl r" by blast
  have client: "start_client w tid connect inet_pton sleep_for rd t c = (case r of
       Inl _ \<Rightarrow> Some (Inl Bad_expected, c')
     | Inr connection \<Rightarrow> Some (case rd connection c' 10 of
         (Inl _, c) \<Rightarrow> (Inl Bad_expected, c)
       | (Inr bytes, c) \<Rightarrow> (case epoll_TcpStream_dtor w tid connection c of
           Inl a \<Rightarrow> (Inl a, c)
         | Inr c \<Rightarrow> (Inr (bytes @ replicate (10 - length bytes) CHR 0x00), c))))"
    using 0 loop(1) by (simp add: start_client_def addr_def)
  have fails: "isl r" if all: "\<forall>t c. isl (fst (connect addr t c))"
  proof -
    have "isl (fst (connect addr t c))" using all by blast
    with loop(4) all 0 show ?thesis by simp
  qed
  have first: "r = Inr conn \<and> c' = c0" if "r0 = Inr conn" for conn
    using loop(1) that by (subst (asm) connect_loop.simps) simp
  have "\<exists>y. start_client w tid connect inet_pton sleep_for rd t c = Some y" unfolding client by (cases r) simp_all
  then obtain res c'' where res: "start_client w tid connect inet_pton sleep_for rd t c = Some (res, c'')" by (metis surj_pair)
  have "res = Inl Bad_expected" if "\<forall>t c. isl (fst (connect addr t c))"
    using fails [OF that] client res by (auto simp: isl_def)
  moreover have "case epoll_TcpStream_dtor w tid conn c2 of
       Inl a \<Rightarrow> res = Inl a \<and> c'' = c2
     | Inr c3 \<Rightarrow> res = Inr (bytes @ replicate (10 - length bytes) CHR 0x00) \<and> c'' = c3"
    if "connect addr t c = (Inr conn, t1, c1)" "rd conn c1 10 = (Inr bytes, c2)" for conn t1 c1 bytes c2
    using first [of conn] that 0 client res by (auto split: sum.splits)
  moreover have "\<exists>r k t' c'. (case connect addr t c of (r0, t0, c0) \<Rightarrow> connect_loop (connect addr) sleep_for t 1 r0 t0 c0) = Some (r, k, t', c')
      \<and> k \<le> 4 \<and> (isl r \<longrightarrow> t + 2000000 < t')"
    using loop(1-3) by (intro exI [of _ r] exI [of _ k] exI [of _ t'] exI [of _ c']) (simp add: 0)
  ultimately show ?thesis using res by blast
qed

theorem client_gives_up_witness:
  "(\<exists>c'. start_client quiet_world 0 (\<lambda>a t c. (Inl (from_sys_error 111), t + 20, c)) (\<lambda>_. None) (\<lambda>d t. t + d) (\<lambda>conn c n. (Inr ''abc'', c)) 5 spawn_core
     = Some (Inl Bad_expected, c'))
   \<and> start_client quiet_world 0 (\<lambda>a t c. (Inr (fst (epoll_TcpStream 0 5 True False c)), t + 20, snd (epoll_TcpStream 0 5 True False c)))
       (\<lambda>_. None) (\<lambda>d t. t + d) (\<lambda>conn c n. (Inr ''abc'', c)) 5 spawn_core
     = Some (Inr (''abc'' @ replicate 7 CHR 0x00), snd (epoll_TcpStream 0 5 True False spawn_core))"
proof -
  let ?refused = "\<lambda>(a :: SocketAddr) t c. (Inl (from_sys_error 111), t + 20, c)"
  let ?opened = "\<lambda>(a :: SocketAddr) t c. (Inr (fst (epoll_TcpStream 0 5 True False c)), t + 20, snd (epoll_TcpStream 0 5 True False c))"
  have s: "sleeps_long (\<lambda>d t. t + d)" by (simp add: sleeps_long_def)
  have f: "clock_forward (?refused a)" "clock_forward (?opened a)" for a by (simp_all add: clock_forward_def)
  obtain t c where t: "epoll_TcpStream 0 5 True False spawn_core = (t, c)" by fastforce
  have dtor: "epoll_TcpStream_dtor quiet_world 0 t c = Inr c"
    using t by (auto simp: epoll_TcpStream_def epoll_TcpStream_dtor_def epoll_extra_at_def epoll_IoExtra_def Let_def outcome_simps set_field_def get_field_def)
  note client = client_gives_up [where inet_pton = "\<lambda>_. None" and rd = "\<lambda>conn c n. (Inr ''abc'', c)" and c = spawn_core and w = quiet_world and tid = 0 and t = 5]
  show ?thesis
    using client [where connect = ?refused, OF s f(1)] client [where connect = ?opened, OF s f(2)] dtor by (simp add: t)
qed

text \<open>Starting the runtimes of the programs: each has both registries on its own thread.\<close>

lemma main_runtime_registries:
  assumes "main_runtime w tid threads h st = Inr c"
  shows "dr_local (co_driver c) tid = Some [(Blocking_class, 0), (Epoll_class, 1)] \<and> co_handles c = []
    \<and> {t. co_workers c t \<noteq> None} = set (take 2 threads)"
  using assms
  by (auto simp: main_runtime_def build_def Runtime_def RuntimeCore_def registry_def worker_threads_def new_multi_thread_def
      add_thread_def add_registry_def get_instance_def Driver_def Let_def outcome_simps split: prod.splits if_splits)

end
