(* ===== verification/Sync_Channel.thy ===== *)
theory Sync_Channel
  imports Runtime_Core
begin

text \<open>
  The channels of \<open>include/xyco/sync/mpsc.ccm\<close> and \<open>include/xyco/sync/oneshot.ccm\<close>. The shared
  state of a channel is a record, with the count of the \<open>shared_ptr\<close>s to it. A poll of a
  sending or receiving future is the composition of its critical sections, so that the
  interleavings of two polls can be written down. Waking is \<^const>\<open>register_future\<close> of the runtime.
\<close>

abbreviation (input) sender_closed :: nat where "sender_closed \<equiv> 1"
abbreviation (input) receiver_closed :: nat where "receiver_closed \<equiv> 2"

section \<open>The bounded channel\<close>

record 'v mpsc =
  ms_state :: nat
  ms_receiver :: "future_ptr option"
  ms_senders :: "future_ptr list"
  ms_queue :: "'v list"
  ms_owners :: nat

text \<open>One sender and the receiver own the shared state.\<close>

definition mpsc_channel :: "'v mpsc" where
  "mpsc_channel = \<lparr>ms_state = 0, ms_receiver = None, ms_senders = [], ms_queue = [], ms_owners = 2\<rparr>"

text \<open>Under the mutex of the queue: was there room?\<close>

definition mpsc_send_queue :: "nat \<Rightarrow> 'v \<Rightarrow> 'v mpsc \<Rightarrow> 'a core_scheme \<Rightarrow> (bool \<times> 'v mpsc \<times> 'a core_scheme) outcome" where
  "mpsc_send_queue sz value sh c =
     (if length (ms_queue sh) < sz
      then (let sh = sh\<lparr>ms_queue := queue_push value (ms_queue sh)\<rparr>
            in case ms_receiver sh of
                 None \<Rightarrow> Inr (True, sh, c)
               | Some receiver \<Rightarrow> and_then (register_future receiver c) (\<lambda>c. Inr (True, sh, c)))
      else Inr (False, sh, c))"

text \<open>Under the mutex of the waiting senders.\<close>

definition mpsc_send_wait :: "future_ptr \<Rightarrow> 'v mpsc \<Rightarrow> 'v mpsc" where
  "mpsc_send_wait this sh = sh\<lparr>ms_senders := queue_push this (ms_senders sh)\<rparr>"

definition mpsc_send_poll ::
  "nat \<Rightarrow> future_ptr \<Rightarrow> 'v \<Rightarrow> 'v mpsc \<Rightarrow> 'a core_scheme \<Rightarrow> (('v + unit) poll \<times> 'v mpsc \<times> 'a core_scheme) outcome" where
  "mpsc_send_poll sz this value sh c =
     (if ms_state sh = receiver_closed then Inr (Some (Inl value), sh, c)
      else and_then (mpsc_send_queue sz value sh c) (\<lambda>(pushed, sh, c).
        Inr (if pushed then (Some (Inr ()), sh, c) else (None, mpsc_send_wait this sh, c))))"

text \<open>Under the mutex of the queue: a value, the end, or waiting.\<close>

definition mpsc_receive_queue :: "future_ptr \<Rightarrow> 'v mpsc \<Rightarrow> 'v option poll \<times> 'v mpsc" where
  "mpsc_receive_queue this sh = (case queue_pop (ms_queue sh) of
     Some (front, rest) \<Rightarrow> (Some (Some front), sh\<lparr>ms_queue := rest\<rparr>)
   | None \<Rightarrow>
       if ms_state sh = sender_closed then (Some None, sh)
       else (None, sh\<lparr>ms_receiver := Some this\<rparr>))"

text \<open>Under the mutex of the waiting senders.\<close>

definition mpsc_receive_wake :: "'v mpsc \<Rightarrow> 'a core_scheme \<Rightarrow> ('v mpsc \<times> 'a core_scheme) outcome" where
  "mpsc_receive_wake sh c = (case queue_pop (ms_senders sh) of
     None \<Rightarrow> Inr (sh, c)
   | Some (sender, rest) \<Rightarrow> and_then (register_future sender c) (\<lambda>c. Inr (sh\<lparr>ms_senders := rest\<rparr>, c)))"

definition mpsc_receive_poll ::
  "future_ptr \<Rightarrow> 'v mpsc \<Rightarrow> 'a core_scheme \<Rightarrow> ('v option poll \<times> 'v mpsc \<times> 'a core_scheme) outcome" where
  "mpsc_receive_poll this sh c =
     (let (r, sh) = mpsc_receive_queue this sh
      in case r of
           Some (Some front) \<Rightarrow> and_then (mpsc_receive_wake sh c) (\<lambda>(sh, c). Inr (r, sh, c))
         | _ \<Rightarrow> Inr (r, sh, c))"

definition mpsc_Sender_copy :: "'v mpsc \<Rightarrow> 'v mpsc" where
  "mpsc_Sender_copy sh = sh\<lparr>ms_owners := ms_owners sh + 1\<rparr>"

text \<open>\<open>close\<close> of a sender: the test whether it is the last one, and the store.\<close>

definition mpsc_Sender_last :: "'v mpsc \<Rightarrow> bool" where
  "mpsc_Sender_last sh \<longleftrightarrow> (if ms_state sh \<noteq> receiver_closed then ms_owners sh - 1 else ms_owners sh) = 1"

definition mpsc_Sender_close :: "'v mpsc \<Rightarrow> 'v mpsc" where
  "mpsc_Sender_close sh = (if mpsc_Sender_last sh then sh\<lparr>ms_state := sender_closed\<rparr> else sh)"

definition mpsc_Receiver_close :: "'v mpsc \<Rightarrow> 'v mpsc" where
  "mpsc_Receiver_close sh = sh\<lparr>ms_state := receiver_closed\<rparr>"

text \<open>A destructor closes and then gives up its \<open>shared_ptr\<close>.\<close>

definition mpsc_Sender_dtor :: "'v mpsc \<Rightarrow> 'v mpsc" where
  "mpsc_Sender_dtor sh = (let sh = mpsc_Sender_close sh in sh\<lparr>ms_owners := ms_owners sh - 1\<rparr>)"

definition mpsc_Receiver_dtor :: "'v mpsc \<Rightarrow> 'v mpsc" where
  "mpsc_Receiver_dtor sh = (let sh = mpsc_Receiver_close sh in sh\<lparr>ms_owners := ms_owners sh - 1\<rparr>)"

section \<open>The channel for one value\<close>

text \<open>The last two fields say whether the \<open>shared_\<close> of the sender and of the receiver is not null.\<close>

record 'v oneshot =
  os_state :: nat
  os_value :: "'v option"
  os_receiver :: "future_ptr option"
  os_sender_shared :: bool
  os_receiver_shared :: bool

definition oneshot_channel :: "'v oneshot" where
  "oneshot_channel = \<lparr>os_state = 0, os_value = None, os_receiver = None, os_sender_shared = True, os_receiver_shared = True\<rparr>"

definition oneshot_Sender_close :: "'v oneshot \<Rightarrow> 'v oneshot" where
  "oneshot_Sender_close sh =
     (if os_sender_shared sh then sh\<lparr>os_state := sender_closed, os_sender_shared := False\<rparr> else sh)"

definition oneshot_Receiver_close :: "'v oneshot \<Rightarrow> 'v oneshot" where
  "oneshot_Receiver_close sh =
     (if os_receiver_shared sh then sh\<lparr>os_state := receiver_closed, os_receiver_shared := False\<rparr> else sh)"

definition oneshot_send :: "'v \<Rightarrow> 'v oneshot \<Rightarrow> 'a core_scheme \<Rightarrow> (('v + unit) \<times> 'v oneshot \<times> 'a core_scheme) outcome" where
  "oneshot_send value sh c =
     (if \<not> os_sender_shared sh \<or> os_state sh = receiver_closed then Inr (Inl value, sh, c)
      else
        (let sh = sh\<lparr>os_value := Some value\<rparr>
         in and_then (case os_receiver sh of None \<Rightarrow> Inr c | Some receiver \<Rightarrow> register_future receiver c) (\<lambda>c.
              Inr (Inr (), oneshot_Sender_close sh, c))))"

text \<open>A missing value is \<open>std::nullopt\<close>. A value that was moved out leaves the \<open>optional\<close> engaged.\<close>

definition oneshot_receive_poll :: "future_ptr \<Rightarrow> 'v oneshot \<Rightarrow> 'v option poll \<times> 'v oneshot" where
  "oneshot_receive_poll this sh =
     (if \<not> os_receiver_shared sh then (Some None, sh)
      else case os_value sh of
             Some v \<Rightarrow> (Some (Some v), sh)
           | None \<Rightarrow>
               if os_state sh = sender_closed then (Some None, sh)
               else (None, sh\<lparr>os_receiver := Some this\<rparr>))"

text \<open>
  The poll takes no lock. Its parts are the tests, whose result is none when it is to wait, and
  the store of the waiting future.
\<close>

definition oneshot_receive_check :: "'v oneshot \<Rightarrow> 'v option poll" where
  "oneshot_receive_check sh =
     (if \<not> os_receiver_shared sh then Some None
      else case os_value sh of
             Some v \<Rightarrow> Some (Some v)
           | None \<Rightarrow> if os_state sh = sender_closed then Some None else None)"

definition oneshot_receive_wait :: "future_ptr \<Rightarrow> 'v oneshot \<Rightarrow> 'v oneshot" where
  "oneshot_receive_wait this sh = sh\<lparr>os_receiver := Some this\<rparr>"

lemma oneshot_receive_parts:
  "oneshot_receive_poll this sh = (case oneshot_receive_check sh of Some r \<Rightarrow> (Some r, sh) | None \<Rightarrow> (None, oneshot_receive_wait this sh))"
  by (simp add: oneshot_receive_poll_def oneshot_receive_check_def oneshot_receive_wait_def split: option.splits)

text \<open>\<open>receive\<close> after its future is ready.\<close>

definition oneshot_receive_end :: "'v oneshot \<Rightarrow> 'v oneshot" where
  "oneshot_receive_end sh = oneshot_Receiver_close sh"

section \<open>Runs of a bounded channel\<close>

text \<open>
  A run is made of critical sections: those of any number of polls, closings and copies interleave, and the
  core may change in between. Next to the shared state there are the values accepted and
  received so far; the sends that passed the test of the state (with their values, and whether it is
  the poll after a wakeup) and those that found the queue full, both not yet at their next section; how many
  receives took a value and have not yet looked for a sender; how many senders were woken and did not poll again
  yet; how many wakeups were lost, in that a receive found no sender although one was about to wait; the closings
  that made their test; and whether a receiver is gone.
\<close>

record 'v chan =
  ch_shared :: "'v mpsc"
  ch_core :: core
  ch_accepted :: "'v list"
  ch_received :: "'v list"
  ch_sending :: "(future_ptr \<times> 'v \<times> bool) list"
  ch_full :: "future_ptr list"
  ch_waking :: nat
  ch_woken :: nat
  ch_lost :: nat
  ch_closing :: "bool list"
  ch_dropped :: bool

inductive chan_step :: "nat \<Rightarrow> 'v chan \<Rightarrow> 'v chan \<Rightarrow> bool" for sz :: nat where
  send_test: "ms_state (ch_shared s) \<noteq> receiver_closed \<Longrightarrow>
    chan_step sz s (s\<lparr>ch_sending := (this, v, False) # ch_sending s\<rparr>)"
| send_test_again: "ms_state (ch_shared s) \<noteq> receiver_closed \<Longrightarrow> 0 < ch_woken s \<Longrightarrow>
    chan_step sz s (s\<lparr>ch_sending := (this, v, True) # ch_sending s, ch_woken := ch_woken s - 1\<rparr>)"
| send_refused_again: "ms_state (ch_shared s) = receiver_closed \<Longrightarrow> 0 < ch_woken s \<Longrightarrow>
    chan_step sz s (s\<lparr>ch_woken := ch_woken s - 1\<rparr>)"
| send_section: "ch_sending s = xs @ (this, v, again) # ys \<Longrightarrow>
    mpsc_send_queue sz v (ch_shared s) (ch_core s) = Inr (pushed, sh, c) \<Longrightarrow>
    chan_step sz s (s\<lparr>ch_shared := sh, ch_core := c, ch_sending := xs @ ys,
      ch_accepted := ch_accepted s @ (if pushed then [v] else []),
      ch_full := (if pushed then ch_full s else this # ch_full s)\<rparr>)"
| send_waits: "ch_full s = xs @ this # ys \<Longrightarrow>
    chan_step sz s (s\<lparr>ch_shared := mpsc_send_wait this (ch_shared s), ch_full := xs @ ys\<rparr>)"
| receive_section: "mpsc_receive_queue this (ch_shared s) = (r, sh) \<Longrightarrow>
    chan_step sz s (s\<lparr>ch_shared := sh,
      ch_received := ch_received s @ (case r of Some (Some v) \<Rightarrow> [v] | _ \<Rightarrow> []),
      ch_waking := ch_waking s + (case r of Some (Some v) \<Rightarrow> 1 | _ \<Rightarrow> 0)\<rparr>)"
| receive_wakes: "0 < ch_waking s \<Longrightarrow> mpsc_receive_wake (ch_shared s) (ch_core s) = Inr (sh, c) \<Longrightarrow>
    chan_step sz s (s\<lparr>ch_shared := sh, ch_core := c, ch_waking := ch_waking s - 1,
      ch_woken := ch_woken s + (length (ms_senders (ch_shared s)) - length (ms_senders sh)),
      ch_lost := ch_lost s + (if ms_senders (ch_shared s) = [] \<and> ch_full s \<noteq> [] then 1 else 0)\<rparr>)"
| copy_owner: "chan_step sz s (s\<lparr>ch_shared := mpsc_Sender_copy (ch_shared s)\<rparr>)"
| close_test: "chan_step sz s (s\<lparr>ch_closing := mpsc_Sender_last (ch_shared s) # ch_closing s\<rparr>)"
| close_store: "ch_closing s = xs @ final # ys \<Longrightarrow>
    chan_step sz s (s\<lparr>ch_shared := (ch_shared s)\<lparr>ms_state := (if final then sender_closed else ms_state (ch_shared s)),
      ms_owners := ms_owners (ch_shared s) - 1\<rparr>, ch_closing := xs @ ys\<rparr>)"
| drop_receiver: "chan_step sz s (s\<lparr>ch_shared := mpsc_Receiver_dtor (ch_shared s), ch_dropped := True\<rparr>)"
| other: "chan_step sz s (s\<lparr>ch_core := c\<rparr>)"

definition new_chan :: "core \<Rightarrow> 'v chan" where
  "new_chan c = \<lparr>ch_shared = mpsc_channel, ch_core = c, ch_accepted = [], ch_received = [], ch_sending = [], ch_full = [],
     ch_waking = 0, ch_woken = 0, ch_lost = 0, ch_closing = [], ch_dropped = False\<rparr>"

inductive chan_reach :: "nat \<Rightarrow> 'v chan \<Rightarrow> bool" for sz :: nat where
  start: "chan_reach sz (new_chan c)"
| step: "chan_reach sz s \<Longrightarrow> chan_step sz s s' \<Longrightarrow> chan_reach sz s'"

text \<open>The woken senders that are back at the queue.\<close>

definition resuming :: "'v chan \<Rightarrow> nat" where
  "resuming s = length (filter (\<lambda>(this, v, again). again) (ch_sending s))"

definition chan_ok :: "nat \<Rightarrow> 'v chan \<Rightarrow> bool" where
  "chan_ok sz s \<longleftrightarrow> ch_accepted s = ch_received s @ ms_queue (ch_shared s) \<and> length (ms_queue (ch_shared s)) \<le> sz
     \<and> (ms_state (ch_shared s) = receiver_closed \<longrightarrow> ch_dropped s)
     \<and> (\<not> ch_dropped s \<longrightarrow> ms_senders (ch_shared s) \<noteq> [] \<or> ch_full s \<noteq> [] \<longrightarrow>
         sz \<le> length (ms_queue (ch_shared s)) + ch_woken s + resuming s + ch_waking s + ch_lost s)"

lemma mpsc_send_queue_cases:
  assumes "mpsc_send_queue sz v sh c = Inr (pushed, sh', c')"
  shows "(pushed \<and> sh' = sh\<lparr>ms_queue := ms_queue sh @ [v]\<rparr> \<and> length (ms_queue sh) < sz)
    \<or> (\<not> pushed \<and> sh' = sh \<and> sz \<le> length (ms_queue sh) \<and> c' = c)"
  using assms by (auto simp: mpsc_send_queue_def queue_push_def Let_def and_then_Inr_iff split: if_splits option.splits)

lemma mpsc_receive_queue_cases:
  assumes "mpsc_receive_queue this sh = (r, sh')"
  shows "(\<exists>v q. r = Some (Some v) \<and> ms_queue sh = v # q \<and> sh' = sh\<lparr>ms_queue := q\<rparr>)
    \<or> (r = Some None \<and> sh' = sh \<and> ms_queue sh = [] \<and> ms_state sh = sender_closed)
    \<or> (r = None \<and> sh' = sh\<lparr>ms_receiver := Some this\<rparr> \<and> ms_queue sh = [])"
  using assms by (auto simp: mpsc_receive_queue_def queue_pop_def split: if_splits option.splits list.splits)

lemma mpsc_receive_wake_cases:
  assumes "mpsc_receive_wake sh c = Inr (sh', c')"
  shows "sh' = sh\<lparr>ms_senders := drop 1 (ms_senders sh)\<rparr>"
  using assms by (auto simp: mpsc_receive_wake_def queue_pop_def and_then_Inr_iff split: list.splits)

lemma chan_step_ok:
  assumes "chan_step sz s s'" "chan_ok sz s"
  shows "chan_ok sz s'"
  using assms
proof cases
  case (send_section xs this v again ys pushed sh c)
  from mpsc_send_queue_cases [OF send_section(3)] assms(2) send_section(1,2) show ?thesis
    by (auto simp: chan_ok_def resuming_def split: if_splits)
next
  case (receive_section this r sh)
  from mpsc_receive_queue_cases [OF receive_section(2)] assms(2) receive_section(1) show ?thesis
    by (auto simp: chan_ok_def resuming_def)
next
  case (receive_wakes sh c)
  from mpsc_receive_wake_cases [OF receive_wakes(3)] assms(2) receive_wakes(1,2) show ?thesis
    by (cases "ms_senders (ch_shared s)") (auto simp: chan_ok_def resuming_def)
next
  case (send_waits xs this ys)
  with assms(2) show ?thesis by (auto simp: chan_ok_def resuming_def mpsc_send_wait_def queue_push_def)
qed (use assms(2) in \<open>auto simp: chan_ok_def resuming_def mpsc_Sender_copy_def mpsc_Receiver_dtor_def mpsc_Receiver_close_def Let_def
  split: if_splits\<close>)

lemma chan_reach_ok: "chan_reach sz s \<Longrightarrow> chan_ok sz s"
proof (induction rule: chan_reach.induct)
  case (start c)
  then show ?case by (simp add: chan_ok_def new_chan_def mpsc_channel_def)
qed (rule chan_step_ok)

text \<open>
  A wakeup that is lost, for a channel of any size. The queue is filled; a further send finds it
  full; the receiver empties it and finds no sender; only then does the send start to wait.
\<close>

lemma chan_fills:
  "length vs \<le> sz \<Longrightarrow> chan_reach sz ((new_chan c)\<lparr>ch_shared := mpsc_channel\<lparr>ms_queue := vs\<rparr>, ch_accepted := vs\<rparr>)"
proof (induction vs rule: rev_induct)
  case Nil
  show ?case using chan_reach.start [of sz c] by (simp add: new_chan_def mpsc_channel_def)
next
  case (snoc v vs)
  let ?s = "(new_chan c)\<lparr>ch_shared := mpsc_channel\<lparr>ms_queue := vs\<rparr>, ch_accepted := vs\<rparr>"
  have "chan_step sz ?s (?s\<lparr>ch_sending := (0, v, False) # ch_sending ?s\<rparr>)" by (rule send_test) (simp add: mpsc_channel_def)
  moreover have "chan_step sz (?s\<lparr>ch_sending := (0, v, False) # ch_sending ?s\<rparr>)
      ((new_chan c)\<lparr>ch_shared := mpsc_channel\<lparr>ms_queue := vs @ [v]\<rparr>, ch_accepted := vs @ [v]\<rparr>)"
    using send_section [of "?s\<lparr>ch_sending := (0, v, False) # ch_sending ?s\<rparr>" "[]" 0 v False "[]" sz True
        "mpsc_channel\<lparr>ms_queue := vs @ [v]\<rparr>" c] snoc.prems
    by (simp add: mpsc_send_queue_def queue_push_def mpsc_channel_def new_chan_def)
  ultimately show ?case using snoc by (auto intro: chan_reach.step)
qed

lemma chan_drains:
  assumes "chan_reach sz s" "ms_queue (ch_shared s) = vs" "ms_senders (ch_shared s) = []" "ch_waking s = 0"
  shows "\<exists>n. chan_reach sz (s\<lparr>ch_shared := (ch_shared s)\<lparr>ms_queue := []\<rparr>, ch_received := ch_received s @ vs, ch_lost := n\<rparr>)"
  using assms
proof (induction vs arbitrary: s)
  case Nil
  have "(ch_shared s)\<lparr>ms_queue := []\<rparr> = ch_shared s" using Nil(2) by (cases "ch_shared s") simp
  then show ?case using Nil(1) by (intro exI [of _ "ch_lost s"]) simp
next
  case (Cons v vs)
  let ?sh = "(ch_shared s)\<lparr>ms_queue := vs\<rparr>"
  let ?s1 = "s\<lparr>ch_shared := ?sh, ch_received := ch_received s @ [v], ch_waking := 1\<rparr>"
  let ?n = "ch_lost s + (if ch_full s \<noteq> [] then 1 else 0)"
  let ?s2 = "s\<lparr>ch_shared := ?sh, ch_received := ch_received s @ [v], ch_lost := ?n\<rparr>"
  have "chan_step sz s ?s1"
    using receive_section [of 0 s "Some (Some v)" ?sh sz] Cons.prems(2,4) by (simp add: mpsc_receive_queue_def queue_pop_def)
  moreover have to_s2: "?s1\<lparr>ch_shared := ?sh, ch_core := ch_core s, ch_waking := ch_waking ?s1 - 1,
      ch_woken := ch_woken ?s1 + (length (ms_senders (ch_shared ?s1)) - length (ms_senders ?sh)),
      ch_lost := ch_lost ?s1 + (if ms_senders (ch_shared ?s1) = [] \<and> ch_full ?s1 \<noteq> [] then 1 else 0)\<rparr> = ?s2"
    using Cons.prems(3,4) by (cases s) simp
  have "mpsc_receive_wake ?sh (ch_core s) = Inr (?sh, ch_core s)" using Cons.prems(3) by (simp add: mpsc_receive_wake_def queue_pop_def)
  then have "chan_step sz ?s1 ?s2"
    using receive_wakes [of ?s1 ?sh "ch_core s" sz] unfolding to_s2 by simp
  ultimately have "chan_reach sz ?s2" using Cons.prems(1) by (blast intro: chan_reach.step)
  from Cons.IH [OF this] Cons.prems(3,4) show ?case by simp
qed

lemma chan_loses_wakeup:
  fixes v :: 'v and c :: core
  shows "\<exists>s :: 'v chan. chan_reach sz s \<and> \<not> ch_dropped s \<and> ch_sending s = [] \<and> ch_full s = [] \<and> ch_waking s = 0 \<and> ch_woken s = 0
    \<and> ms_state (ch_shared s) = 0 \<and> ms_senders (ch_shared s) = [g] \<and> ms_queue (ch_shared s) = []"
proof -
  let ?vs = "replicate sz v"
  let ?s0 = "(new_chan c)\<lparr>ch_shared := mpsc_channel\<lparr>ms_queue := ?vs\<rparr>, ch_accepted := ?vs\<rparr>"
  let ?s1 = "?s0\<lparr>ch_sending := [(g, v, False)]\<rparr>"
  let ?s2 = "?s0\<lparr>ch_full := [g]\<rparr>"
  have "chan_step sz ?s0 ?s1" using send_test [of ?s0 sz g v] by (simp add: mpsc_channel_def new_chan_def)
  moreover have "chan_step sz ?s1 ?s2"
    using send_section [of ?s1 "[]" g v False "[]" sz False "mpsc_channel\<lparr>ms_queue := ?vs\<rparr>" c]
    by (simp add: mpsc_send_queue_def new_chan_def)
  ultimately have "chan_reach sz ?s2" using chan_fills [of ?vs sz c] by (auto intro: chan_reach.step)
  then obtain n where "chan_reach sz (?s2\<lparr>ch_shared := mpsc_channel\<lparr>ms_queue := []\<rparr>, ch_received := ?vs, ch_lost := n\<rparr>)"
    using chan_drains [of sz ?s2 ?vs] by (auto simp: mpsc_channel_def new_chan_def)
  moreover have "chan_step sz (?s2\<lparr>ch_shared := mpsc_channel\<lparr>ms_queue := []\<rparr>, ch_received := ?vs, ch_lost := n\<rparr>)
      (?s0\<lparr>ch_shared := mpsc_channel\<lparr>ms_senders := [g]\<rparr>, ch_received := ?vs, ch_lost := n\<rparr>)"
    using send_waits [of "?s2\<lparr>ch_shared := mpsc_channel\<lparr>ms_queue := []\<rparr>, ch_received := ?vs, ch_lost := n\<rparr>" "[]" g "[]" sz]
    by (simp add: mpsc_send_wait_def queue_push_def mpsc_channel_def new_chan_def)
  ultimately have "chan_reach sz (?s0\<lparr>ch_shared := mpsc_channel\<lparr>ms_senders := [g]\<rparr>, ch_received := ?vs, ch_lost := n\<rparr>)"
    by (rule chan_reach.step)
  then show ?thesis
    by (intro exI [of _ "?s0\<lparr>ch_shared := mpsc_channel\<lparr>ms_senders := [g]\<rparr>, ch_received := ?vs, ch_lost := n\<rparr>"])
      (simp add: mpsc_channel_def new_chan_def)
qed

section \<open>Runs of a channel for one value\<close>

text \<open>The shared state with the values that were accepted and received so far.\<close>

record 'v one_chan =
  oc_shared :: "'v oneshot"
  oc_core :: core
  oc_accepted :: "'v list"
  oc_received :: "'v list"

inductive one_step :: "'v one_chan \<Rightarrow> 'v one_chan \<Rightarrow> bool" where
  one_send: "oneshot_send v (oc_shared s) (oc_core s) = Inr (r, sh, c) \<Longrightarrow>
    one_step s (s\<lparr>oc_shared := sh, oc_core := c, oc_accepted := oc_accepted s @ (if r = Inr () then [v] else [])\<rparr>)"
| one_wait: "oneshot_receive_poll this (oc_shared s) = (None, sh) \<Longrightarrow> one_step s (s\<lparr>oc_shared := sh\<rparr>)"
| one_receive: "oneshot_receive_poll this (oc_shared s) = (Some r, sh) \<Longrightarrow>
    one_step s (s\<lparr>oc_shared := oneshot_receive_end sh, oc_received := oc_received s @ (case r of Some v \<Rightarrow> [v] | None \<Rightarrow> [])\<rparr>)"
| one_drop_sender: "one_step s (s\<lparr>oc_shared := oneshot_Sender_close (oc_shared s)\<rparr>)"
| one_drop_receiver: "one_step s (s\<lparr>oc_shared := oneshot_Receiver_close (oc_shared s)\<rparr>)"
| one_other: "one_step s (s\<lparr>oc_core := c\<rparr>)"

inductive one_reach :: "'v one_chan \<Rightarrow> bool" where
  one_start: "one_reach \<lparr>oc_shared = oneshot_channel, oc_core = c, oc_accepted = [], oc_received = []\<rparr>"
| one_next: "one_reach s \<Longrightarrow> one_step s s' \<Longrightarrow> one_reach s'"

definition one_ok :: "'v one_chan \<Rightarrow> bool" where
  "one_ok s \<longleftrightarrow> (let sh = oc_shared s in
     oc_accepted s = (case os_value sh of None \<Rightarrow> [] | Some v \<Rightarrow> [v])
     \<and> (os_sender_shared sh \<longrightarrow> os_value sh = None)
     \<and> (os_receiver_shared sh \<longrightarrow> oc_received s = [] \<and> os_state sh = (if os_sender_shared sh then 0 else sender_closed))
     \<and> (\<not> os_receiver_shared sh \<and> os_sender_shared sh \<longrightarrow> os_state sh = receiver_closed)
     \<and> (oc_received s = [] \<or> oc_received s = oc_accepted s))"

lemma one_step_ok: "one_step s s' \<Longrightarrow> one_ok s \<Longrightarrow> one_ok s'"
proof (induction rule: one_step.induct)
  case (one_send v s r sh c)
  then show ?case
    by (cases "os_receiver (oc_shared s)")
      (auto simp: one_ok_def oneshot_send_def oneshot_Sender_close_def Let_def and_then_Inr_iff split: if_splits option.splits)
next
  case (one_receive this s r sh)
  then show ?case
    by (auto simp: one_ok_def oneshot_receive_poll_def oneshot_receive_end_def oneshot_Receiver_close_def Let_def split: if_splits option.splits)
qed (auto simp: one_ok_def oneshot_receive_poll_def oneshot_Sender_close_def oneshot_Receiver_close_def Let_def split: if_splits option.splits)

lemma one_reach_ok: "one_reach s \<Longrightarrow> one_ok s"
proof (induction rule: one_reach.induct)
  case (one_start c)
  show ?case by (simp add: one_ok_def oneshot_channel_def)
next
  case (one_next s s')
  then show ?case using one_step_ok by blast
qed

end
