(* ===== verification/Sync_Properties.thy ===== *)
theory Sync_Properties
  imports Sync_Channel Runtime_Properties
begin

text \<open>Properties of the channels.\<close>

text \<open>
  C36. The bounded channel over every interleaving of the critical sections of sends and receives,
  of closings and copies. The values received are the first of the values accepted, in their
  order, and the rest is what the queue holds, never more than the size of the channel. As long as no wakeup
  was lost, no sender is forgotten: while the receiver lives and senders wait, the queue is full but for the
  places of senders that were woken or are about to be, so that once these are done
  the next receive finds a value and wakes the oldest sender. But a wakeup can be lost, because a send that found
  the queue full lets go of its mutex before it queues itself: for a channel of any size there is a run
  after which a sender waits while the queue is empty, nobody was woken and nothing
  is under way, and the next receive waits as well.
\<close>

theorem mpsc_runs:
  assumes "chan_reach sz (s :: 'v chan)" "0 < sz"
  shows "ch_accepted s = ch_received s @ ms_queue (ch_shared s) \<and> length (ms_queue (ch_shared s)) \<le> sz
    \<and> (\<not> ch_dropped s \<and> ch_lost s = 0 \<and> ch_woken s = 0 \<and> ch_waking s = 0 \<and> ch_sending s = [] \<and> ms_senders (ch_shared s) = f # fs \<longrightarrow>
        (\<exists>v q. ms_queue (ch_shared s) = v # q \<and> length q = sz - 1 \<and>
          mpsc_receive_poll this (ch_shared s) c = and_then (register_future f c) (\<lambda>c.
            Inr (Some (Some v), (ch_shared s)\<lparr>ms_queue := q, ms_senders := fs\<rparr>, c))))
    \<and> (\<exists>s' :: 'v chan. chan_reach sz s' \<and> \<not> ch_dropped s' \<and> ch_sending s' = [] \<and> ch_full s' = [] \<and> ch_waking s' = 0 \<and> ch_woken s' = 0
        \<and> ms_senders (ch_shared s') = [f] \<and> ms_queue (ch_shared s') = []
        \<and> mpsc_receive_poll this (ch_shared s') c = Inr (None, (ch_shared s')\<lparr>ms_receiver := Some this\<rparr>, c))"
proof -
  let ?sh = "ch_shared s"
  have ok: "ch_accepted s = ch_received s @ ms_queue ?sh" "length (ms_queue ?sh) \<le> sz"
    "\<not> ch_dropped s \<Longrightarrow> ms_senders ?sh \<noteq> [] \<Longrightarrow> sz \<le> length (ms_queue ?sh) + ch_woken s + resuming s + ch_waking s + ch_lost s"
    using chan_reach_ok [OF assms(1)] by (simp_all add: chan_ok_def)
  have next_receive: "\<exists>v q. ms_queue ?sh = v # q \<and> length q = sz - 1 \<and> mpsc_receive_poll this ?sh c = and_then (register_future f c) (\<lambda>c.
      Inr (Some (Some v), ?sh\<lparr>ms_queue := q, ms_senders := fs\<rparr>, c))"
    if "\<not> ch_dropped s" "ch_lost s = 0" "ch_woken s = 0" "ch_waking s = 0" "ch_sending s = []" "ms_senders ?sh = f # fs"
  proof -
    from ok that have "length (ms_queue ?sh) = sz" by (simp add: resuming_def)
    then obtain v q where "ms_queue ?sh = v # q" "length q = sz - 1" using assms(2) by (cases "ms_queue ?sh") auto
    with that(6) show ?thesis
      by (cases "register_future f c") (simp_all add: mpsc_receive_poll_def mpsc_receive_queue_def mpsc_receive_wake_def queue_pop_def)
  qed
  obtain s' :: "'v chan" where s': "chan_reach sz s'" "\<not> ch_dropped s'" "ch_sending s' = []" "ch_full s' = []" "ch_waking s' = 0"
    "ch_woken s' = 0" "ms_state (ch_shared s') = 0" "ms_senders (ch_shared s') = [f]" "ms_queue (ch_shared s') = []"
    using chan_loses_wakeup [of sz f] by (elim exE conjE)
  then have "mpsc_receive_poll this (ch_shared s') c = Inr (None, (ch_shared s')\<lparr>ms_receiver := Some this\<rparr>, c)"
    by (simp add: mpsc_receive_poll_def mpsc_receive_queue_def queue_pop_def)
  with s' have lost: "\<exists>s' :: 'v chan. chan_reach sz s' \<and> \<not> ch_dropped s' \<and> ch_sending s' = [] \<and> ch_full s' = [] \<and> ch_waking s' = 0 \<and> ch_woken s' = 0
        \<and> ms_senders (ch_shared s') = [f] \<and> ms_queue (ch_shared s') = []
        \<and> mpsc_receive_poll this (ch_shared s') c = Inr (None, (ch_shared s')\<lparr>ms_receiver := Some this\<rparr>, c)"
    by (intro exI [of _ s'] conjI)
  show ?thesis by (intro conjI impI ok(1,2) lost next_receive; (elim conjE)?; assumption?)
qed

text \<open>A channel of size 1 with the value 7, and the future 1 waiting to send 8.\<close>

definition full_channel :: "nat mpsc" where
  "full_channel = \<lparr>ms_state = 0, ms_receiver = None, ms_senders = [1], ms_queue = [7], ms_owners = 2\<rparr>"

definition full_chan :: "nat chan" where
  "full_chan = (new_chan spawn_core)\<lparr>ch_shared := full_channel, ch_accepted := [7]\<rparr>"

lemma full_chan_reach: "chan_reach 1 full_chan"
proof -
  let ?sh = "mpsc_channel\<lparr>ms_queue := [7]\<rparr> :: nat mpsc"
  let ?s0 = "(new_chan spawn_core)\<lparr>ch_shared := ?sh, ch_accepted := [7]\<rparr>"
  let ?s1 = "?s0\<lparr>ch_sending := [(1, 8, False)]\<rparr>" and ?s2 = "?s0\<lparr>ch_full := [1]\<rparr>"
  have "chan_reach 1 ?s0" using chan_fills [of "[7]" 1 spawn_core] by simp
  moreover have "chan_step 1 ?s0 ?s1" using send_test [of ?s0 1 1 8] by (simp add: mpsc_channel_def new_chan_def)
  moreover have "chan_step 1 ?s1 ?s2"
    using send_section [of ?s1 "[]" 1 8 False "[]" 1 False ?sh spawn_core] by (simp add: mpsc_send_queue_def new_chan_def)
  moreover have "chan_step 1 ?s2 full_chan"
    using send_waits [of ?s2 "[]" 1 "[]" 1]
    by (simp add: mpsc_send_wait_def queue_push_def mpsc_channel_def new_chan_def full_channel_def full_chan_def)
  ultimately show ?thesis by (blast intro: chan_reach.step)
qed

theorem mpsc_runs_witness:
  "\<exists>c. mpsc_receive_poll 2 full_channel spawn_core = Inr (Some (Some 7), full_channel\<lparr>ms_queue := [], ms_senders := []\<rparr>, c)
     \<and> co_handles c = [(Some 10, Some 1)]"
proof -
  have "register_future 1 spawn_core = Inr (spawn_core\<lparr>co_handles := [(Some 10, Some 1)]\<rparr>)"
    by (simp add: register_future_def get_handle_def fut_at_def spawn_core_def fresh_fut_def push_handle_def emplace_begin_def)
  with mpsc_runs [OF full_chan_reach, of 1 "[]" 2 spawn_core] show ?thesis
    by (auto simp: full_chan_def full_channel_def new_chan_def)
qed

text \<open>
  C37. The channel keeps a dangling pointer to a future that received. On a new channel, a receive
  that had to wait and was served by a send leaves its future in \<open>receiver_\<close>. Once this future is
  destroyed, as it is when its co_await is over, the next send that finds room dereferences it.
\<close>

theorem mpsc_dangling_receiver:
  fixes c :: "'a core_scheme" and v :: 'v
  assumes "0 < sz" "get_handle f (co_store c) = Inr (Some co)"
  shows "\<exists>sh1 sh2 sh3 c2. mpsc_receive_poll f mpsc_channel c = Inr (None, sh1, c)
    \<and> mpsc_send_poll sz g v sh1 c = Inr (Some (Inr ()), sh2, c2) \<and> c2 = push_handle (Some co, Some f) c
    \<and> mpsc_receive_poll f sh2 c2 = Inr (Some (Some v), sh3, c2)
    \<and> (\<forall>(c3 :: 'a core_scheme) h v'. st_futures (co_store c3) f = None \<longrightarrow> mpsc_send_poll sz h v' sh3 c3 = Inl Null_deref)"
proof -
  let ?sh1 = "(mpsc_channel :: 'v mpsc)\<lparr>ms_receiver := Some f\<rparr>" and ?c = "push_handle (Some co, Some f) c"
  have "mpsc_receive_poll f mpsc_channel c = Inr (None, ?sh1, c)"
    by (simp add: mpsc_receive_poll_def mpsc_receive_queue_def mpsc_channel_def queue_pop_def)
  moreover have "mpsc_send_poll sz g v ?sh1 c = Inr (Some (Inr ()), ?sh1\<lparr>ms_queue := [v]\<rparr>, ?c)"
    using assms by (simp add: mpsc_send_poll_def mpsc_send_queue_def mpsc_channel_def queue_push_def register_future_def)
  moreover have "mpsc_receive_poll f (?sh1\<lparr>ms_queue := [v]\<rparr>) ?c = Inr (Some (Some v), ?sh1, ?c)"
    by (simp add: mpsc_receive_poll_def mpsc_receive_queue_def mpsc_receive_wake_def mpsc_channel_def queue_pop_def)
  moreover have "mpsc_send_poll sz h v' ?sh1 c3 = Inl Null_deref" if "st_futures (co_store c3) f = None" for c3 :: "'a core_scheme" and h v'
    using that assms(1) by (simp add: mpsc_send_poll_def mpsc_send_queue_def mpsc_channel_def register_future_def get_handle_def fut_at_def)
  ultimately show ?thesis by blast
qed

theorem mpsc_dangling_receiver_witness:
  "\<exists>sh1 sh2 sh3 c2. mpsc_receive_poll 1 mpsc_channel spawn_core = Inr (None, sh1, spawn_core)
    \<and> mpsc_send_poll 4 2 (7 :: nat) sh1 spawn_core = Inr (Some (Inr ()), sh2, c2)
    \<and> mpsc_receive_poll 1 sh2 c2 = Inr (Some (Some 7), sh3, c2)
    \<and> mpsc_send_poll 4 3 8 sh3 (c2\<lparr>co_store := empty_store\<rparr>) = Inl Null_deref"
proof -
  have "get_handle 1 (co_store spawn_core) = Inr (Some 10)" by (simp add: get_handle_def fut_at_def spawn_core_def fresh_fut_def)
  from mpsc_dangling_receiver [OF _ this, of 4 2 "7 :: nat"] obtain sh1 sh2 sh3 c2 where
    "mpsc_receive_poll 1 mpsc_channel spawn_core = Inr (None, sh1, spawn_core)"
    "mpsc_send_poll 4 2 (7 :: nat) sh1 spawn_core = Inr (Some (Inr ()), sh2, c2)"
    "mpsc_receive_poll 1 sh2 c2 = Inr (Some (Some 7), sh3, c2)"
    "\<And>(c3 :: core) h v'. st_futures (co_store c3) 1 = None \<Longrightarrow> mpsc_send_poll 4 h v' sh3 c3 = Inl Null_deref"
    by auto
  moreover have "st_futures (co_store (c2\<lparr>co_store := empty_store\<rparr>)) 1 = None" by (simp add: empty_store_def)
  ultimately show ?thesis by (intro exI [of _ sh1] exI [of _ sh2] exI [of _ sh3] exI [of _ c2]) simp
qed

text \<open>
  The channel for one value: a value sent is what the receiver gets, whether it waits before or
  asks later; a second send and a send to a receiver that is gone give the value back, and a sender
  that is gone without sending gives nothing.
\<close>

lemma oneshot_delivers:
  "oneshot_send v oneshot_channel c = Inr (Inr (), sh, c') \<Longrightarrow>
     oneshot_receive_poll f sh = (Some (Some v), sh) \<and> oneshot_send w sh c' = Inr (Inl w, sh, c')"
  "oneshot_receive_poll f oneshot_channel = (None, sh) \<Longrightarrow> get_handle f (co_store c) = Inr co \<Longrightarrow>
     oneshot_send v sh c = Inr (Inr (), oneshot_Sender_close (sh\<lparr>os_value := Some v\<rparr>), push_handle (co, Some f) c)
     \<and> fst (oneshot_receive_poll f (oneshot_Sender_close (sh\<lparr>os_value := Some v\<rparr>))) = Some (Some v)"
  "oneshot_send v (oneshot_Receiver_close oneshot_channel) c = Inr (Inl v, oneshot_Receiver_close oneshot_channel, c)"
  "oneshot_receive_poll f (oneshot_Sender_close oneshot_channel) = (Some None, oneshot_Sender_close oneshot_channel)"
  by (auto simp: oneshot_send_def oneshot_receive_poll_def oneshot_channel_def oneshot_Sender_close_def
      oneshot_Receiver_close_def register_future_def Let_def)

text \<open>
  C38. The channel for one value over every run of sends, receives and destructors, each taken whole. At most one send is
  accepted, and what is received, at most once, is its value. A value that was accepted is not lost:
  as long as the receiver is there, its next poll gets it; and when the sender is gone without sending,
  the next poll says so. Once the receiver is gone, a send gives its value back.
\<close>

theorem oneshot_runs:
  assumes "one_reach s"
  shows "length (oc_accepted s) \<le> 1 \<and> (oc_received s = [] \<or> oc_received s = oc_accepted s)
    \<and> (os_receiver_shared (oc_shared s) \<longrightarrow> oc_received s = [] \<and> fst (oneshot_receive_poll this (oc_shared s)) =
        (case oc_accepted s of v # _ \<Rightarrow> Some (Some v) | [] \<Rightarrow> if os_sender_shared (oc_shared s) then None else Some None))
    \<and> (oc_accepted s \<noteq> [] \<or> \<not> os_receiver_shared (oc_shared s) \<longrightarrow> oneshot_send v (oc_shared s) c = Inr (Inl v, oc_shared s, c))"
proof -
  note ok = one_reach_ok [OF assms]
  show ?thesis
  proof (cases "os_value (oc_shared s)")
    case None
    with ok show ?thesis by (auto simp: one_ok_def oneshot_receive_poll_def oneshot_send_def Let_def)
  next
    case (Some v)
    with ok show ?thesis by (auto simp: one_ok_def oneshot_receive_poll_def oneshot_send_def Let_def)
  qed
qed

theorem oneshot_runs_witness:
  "\<exists>s :: nat one_chan. one_reach s \<and> oc_accepted s = [7] \<and> fst (oneshot_receive_poll 2 (oc_shared s)) = Some (Some 7)"
proof -
  let ?s0 = "\<lparr>oc_shared = oneshot_channel, oc_core = spawn_core, oc_accepted = [], oc_received = []\<rparr> :: nat one_chan"
  let ?sh = "oneshot_Sender_close (oneshot_channel\<lparr>os_value := Some 7\<rparr>) :: nat oneshot"
  let ?s1 = "?s0\<lparr>oc_shared := ?sh, oc_accepted := [7]\<rparr>"
  have "oneshot_send 7 oneshot_channel spawn_core = Inr (Inr (), ?sh, spawn_core)" by (simp add: oneshot_send_def oneshot_channel_def)
  then have "one_step ?s0 ?s1" using one_send [of 7 ?s0 "Inr ()" ?sh spawn_core] by simp
  then have reach: "one_reach ?s1" using one_next [OF one_start] by blast
  have "os_receiver_shared ?sh" by (simp add: oneshot_Sender_close_def oneshot_channel_def)
  with oneshot_runs [OF reach, of 2 0 spawn_core] have "fst (oneshot_receive_poll 2 ?sh) = Some (Some 7)" by simp
  with reach show ?thesis by (intro exI [of _ ?s1]) simp
qed

text \<open>
  The parts of the two operations are not atomic on two workers. When a whole send comes
  between the tests of a poll and the store of the waiting future, it finds nobody to wake: the value
  is there, the receiver is pending, and nothing is queued.
\<close>

lemma oneshot_lost_wakeup:
  fixes v :: 'v
  assumes "oneshot_send v (oneshot_channel :: 'v oneshot) c = Inr (r, sh, c')"
  shows "oneshot_receive_check (oneshot_channel :: 'v oneshot) = None \<and> r = Inr () \<and> c' = c
    \<and> os_value (oneshot_receive_wait this sh) = Some v \<and> oneshot_send w (oneshot_receive_wait this sh) c2 = Inr (Inl w, oneshot_receive_wait this sh, c2)"
  using assms by (auto simp: oneshot_send_def oneshot_channel_def oneshot_receive_check_def oneshot_receive_wait_def oneshot_Sender_close_def)

end
