(* ===== verification/Task_Combinators.thy ===== *)
theory Task_Combinators
  imports Runtime_Core
begin

text \<open>
  \<open>join\<close>, \<open>select\<close> and \<open>timeout\<close> (\<open>include/xyco/task/join.ccm\<close>,
  \<open>include/xyco/task/select.ccm\<close>, \<open>include/xyco/time/timeout.ccm\<close>). The branches of the tuple are
  a list with values of one type. \<open>run_single_branch\<close> is a coroutine: its definition here is
  what it does after its \<open>co_await\<close> gave a value or an exception. A poll gives pending, a
  value, or the exception it throws. The arguments of the constructor of the result are
  evaluated in an order the compiler chooses, which is a parameter.
\<close>

type_synonym 't branch = "future_ptr \<times> (exn + 't) option"

section \<open>join\<close>

record 't join_future =
  jn_this :: future_ptr
  jn_ready :: bool
  jn_registered :: bool
  jn_branches :: "'t branch list"

definition JoinFuture :: "future_ptr \<Rightarrow> future_ptr list \<Rightarrow> 't join_future" where
  "JoinFuture this future =
     \<lparr>jn_this = this, jn_ready = False, jn_registered = False, jn_branches = map (\<lambda>p. (p, None)) future\<rparr>"

text \<open>The results of the branches in the order of evaluation: the first exception leaves.\<close>

fun extract_results :: "(exn + 't) option list \<Rightarrow> (exn + 't list) outcome" where
  "extract_results [] = Inr (Inr [])"
| "extract_results (None # rs) = Inl Bad_optional"
| "extract_results (Some (Inl e) # rs) = Inr (Inl e)"
| "extract_results (Some (Inr v) # rs) = and_then (extract_results rs) (\<lambda>r. Inr (map_sum id ((#) v) r))"

text \<open>The values of the branches, in their order.\<close>

definition branch_values :: "'t branch list \<Rightarrow> 't list" where
  "branch_values bs = List.map_filter (\<lambda>(p, r). case r of Some (Inr v) \<Rightarrow> Some v | _ \<Rightarrow> None) bs"

text \<open>\<open>order\<close> is the list of the branches in the order of evaluation; \<open>wrappers\<close> are the futures of the spawned coroutines.\<close>

definition join_poll ::
  "nat list \<Rightarrow> future_ptr list \<Rightarrow> 't join_future \<Rightarrow> 'a core_scheme \<Rightarrow> ((exn + 't list) poll \<times> 't join_future \<times> 'a core_scheme) outcome" where
  "join_poll order wrappers j c =
     (if \<not> jn_ready j
      then and_then (for_each spawn_impl wrappers c) (\<lambda>c. Inr (None, j\<lparr>jn_ready := True\<rparr>, c))
      else and_then (extract_results (map (\<lambda>i. snd (jn_branches j ! i)) order)) (\<lambda>r.
        Inr (Some (case r of Inl e \<Rightarrow> Inl e | Inr _ \<Rightarrow> Inr (branch_values (jn_branches j))), j, c)))"

text \<open>The result is stored before the mutex is taken; storing and checking are one step here.\<close>

definition join_branch :: "nat \<Rightarrow> exn + 't \<Rightarrow> 't join_future \<Rightarrow> 'a core_scheme \<Rightarrow> ('t join_future \<times> 'a core_scheme) outcome" where
  "join_branch i result j c =
     (let j = j\<lparr>jn_branches := (jn_branches j)[i := (fst (jn_branches j ! i), Some result)]\<rparr>
      in if jn_registered j then Inr (j, c)
         else if list_all (\<lambda>(p, r). r \<noteq> None) (jn_branches j)
         then and_then (register_future (jn_this j) c) (\<lambda>c. Inr (j\<lparr>jn_registered := True\<rparr>, c))
         else Inr (j, c))"

text \<open>\<open>join\<close> of nothing is done at once, and otherwise awaits its future.\<close>

definition task_join :: "future_ptr \<Rightarrow> future_ptr list \<Rightarrow> 't list + 't join_future" where
  "task_join this future = (if future = [] then Inl [] else Inr (JoinFuture this future))"

section \<open>select\<close>

record 't select_future =
  sl_self :: "future_ptr option"
  sl_ready :: bool
  sl_registered :: bool
  sl_branches :: "'t branch list"

definition SelectFuture :: "future_ptr \<Rightarrow> future_ptr list \<Rightarrow> 't select_future" where
  "SelectFuture this future =
     \<lparr>sl_self = Some this, sl_ready = False, sl_registered = False, sl_branches = map (\<lambda>p. (p, None)) future\<rparr>"

definition SelectFuture_dtor :: "'t select_future \<Rightarrow> 't select_future" where
  "SelectFuture_dtor s = s\<lparr>sl_self := None\<rparr>"

text \<open>\<open>handle.promise().future()->cancel()\<close> on the handle of the branch's future.\<close>

definition cancel_branch :: "future_ptr \<Rightarrow> store \<Rightarrow> store outcome option" where
  "cancel_branch p st = (case get_handle p st of
     Inl e \<Rightarrow> Some (Inl e)
   | Inr None \<Rightarrow> Some (Inl Null_deref)
   | Inr (Some co) \<Rightarrow> (case frame_at co st of
       Inl e \<Rightarrow> Some (Inl e)
     | Inr fr \<Rightarrow> (case fr_future fr of None \<Rightarrow> Some (Inl Null_deref) | Some q \<Rightarrow> cancel q st)))"

text \<open>The branches in the order of evaluation: unfinished ones are cancelled, an exception leaves at once.\<close>

fun collect_branches :: "'t branch list \<Rightarrow> store \<Rightarrow> (exn option \<times> store) outcome option" where
  "collect_branches [] st = Some (Inr (None, st))"
| "collect_branches ((p, None) # bs) st = Option.bind (cancel_branch p st)
     (\<lambda>r. case r of Inl e \<Rightarrow> Some (Inl e) | Inr st \<Rightarrow> collect_branches bs st)"
| "collect_branches ((p, Some (Inl e)) # bs) st = Some (Inr (Some e, st))"
| "collect_branches ((p, Some (Inr v)) # bs) st = collect_branches bs st"

definition select_poll ::
  "nat list \<Rightarrow> future_ptr list \<Rightarrow> 't select_future \<Rightarrow> 'a core_scheme
    \<Rightarrow> ((exn + 't option list) poll \<times> 't select_future \<times> 'a core_scheme) outcome option" where
  "select_poll order wrappers s c =
     (if \<not> sl_ready s
      then Some (and_then (for_each spawn_impl wrappers c) (\<lambda>c. Inr (None, s\<lparr>sl_ready := True\<rparr>, c)))
      else Option.bind (collect_branches (map (\<lambda>i. sl_branches s ! i) order) (co_store c)) (\<lambda>r.
        Some (and_then r (\<lambda>(e, st). Inr (Some (case e of
            Some e \<Rightarrow> Inl e
          | None \<Rightarrow> Inr (map (\<lambda>(p, r). case r of Some (Inr v) \<Rightarrow> Some v | _ \<Rightarrow> None) (sl_branches s))),
          s, c\<lparr>co_store := st\<rparr>)))))"

text \<open>A cancelled branch ends without a trace.\<close>

definition select_branch :: "nat \<Rightarrow> exn + 't \<Rightarrow> 't select_future \<Rightarrow> 'a core_scheme \<Rightarrow> ('t select_future \<times> 'a core_scheme) outcome" where
  "select_branch i result s c =
     (if result = Inl CancelException then Inr (s, c)
      else
        (let s = s\<lparr>sl_branches := (sl_branches s)[i := (fst (sl_branches s ! i), Some result)]\<rparr>
         in if sl_registered s then Inr (s, c)
            else (case sl_self s of
                    None \<Rightarrow> Inr (s, c)
                  | Some this \<Rightarrow> and_then (register_future this c) (\<lambda>c. Inr (s\<lparr>sl_registered := True\<rparr>, c)))))"

definition task_select :: "future_ptr \<Rightarrow> future_ptr list \<Rightarrow> 't option list + 't select_future" where
  "task_select this future = (if future = [] then Inl [] else Inr (SelectFuture this future))"

section \<open>timeout\<close>

text \<open>
  \<open>timeout\<close> awaits a \<open>select\<close> of the future and of a coroutine that sleeps. The values of the
  branches are those of the future and the null pointer of the sleep. None is a timeout.
\<close>

definition timeout_select :: "future_ptr \<Rightarrow> future_ptr \<Rightarrow> future_ptr \<Rightarrow> ('t + unit) option list + ('t + unit) select_future" where
  "timeout_select this future sleep = task_select this [future, sleep]"

definition timeout_result :: "'t option \<times> unit option \<Rightarrow> 't option outcome" where
  "timeout_result = (\<lambda>(result, sleep_result).
     if sleep_result \<noteq> None then Inr None
     else (case result of None \<Rightarrow> Inl Bad_optional | Some v \<Rightarrow> Inr (Some v)))"

text \<open>The variant for a future without a value does not look at the result.\<close>

definition timeout_void_result :: "unit option \<times> unit option \<Rightarrow> unit option outcome" where
  "timeout_void_result = (\<lambda>(result, sleep_result). if sleep_result \<noteq> None then Inr None else Inr (Some ()))"

text \<open>What follows the \<open>co_await\<close>; an exception of \<open>select\<close> passes through.\<close>

fun timeout_end :: "exn + ('t + unit) option list \<Rightarrow> (exn + 't option) outcome" where
  "timeout_end (Inl e) = Inr (Inl e)"
| "timeout_end (Inr [result, sleep_result]) =
     and_then (timeout_result (map_option projl result, map_option projr sleep_result)) (\<lambda>r. Inr (Inr r))"
| "timeout_end (Inr _) = Inl Bad_optional"

section \<open>Runs of the branches\<close>

text \<open>The branches end one after the other, each with a result.\<close>

fun join_branches :: "(nat \<times> (exn + 't)) list \<Rightarrow> 't join_future \<Rightarrow> 'a core_scheme \<Rightarrow> ('t join_future \<times> 'a core_scheme) outcome" where
  "join_branches [] j c = Inr (j, c)"
| "join_branches ((i, r) # rs) j c = and_then (join_branch i r j c) (\<lambda>(j, c). join_branches rs j c)"

fun select_branches :: "(nat \<times> (exn + 't)) list \<Rightarrow> 't select_future \<Rightarrow> 'a core_scheme \<Rightarrow> ('t select_future \<times> 'a core_scheme) outcome" where
  "select_branches [] s c = Inr (s, c)"
| "select_branches ((i, r) # rs) s c = and_then (select_branch i r s c) (\<lambda>(s, c). select_branches rs s c)"

text \<open>The branches \<open>rs\<close> of a timeout have ended in this order when its \<open>select\<close> is polled again.\<close>

definition timeout_after ::
  "nat list \<Rightarrow> (nat \<times> (exn + ('t + unit))) list \<Rightarrow> future_ptr \<Rightarrow> future_ptr \<Rightarrow> future_ptr \<Rightarrow> 'a core_scheme
    \<Rightarrow> ((exn + 't option) poll \<times> 'a core_scheme) outcome option" where
  "timeout_after order rs this future sleep c =
     (case timeout_select this future sleep of
        Inl r \<Rightarrow> Some (and_then (timeout_end (Inr r)) (\<lambda>y. Inr (Some y, c)))
      | Inr s \<Rightarrow>
          (case select_branches rs (s\<lparr>sl_ready := True\<rparr>) c of
             Inl e \<Rightarrow> Some (Inl e)
           | Inr (s, c) \<Rightarrow> Option.bind (select_poll order [] s c) (\<lambda>r. Some (and_then r (\<lambda>(p, s, c). case p of
               None \<Rightarrow> Inr (None, c)
             | Some x \<Rightarrow> and_then (timeout_end x) (\<lambda>y. Inr (Some y, c)))))))"

text \<open>The results the branches are left with.\<close>

definition results_after :: "(nat \<times> (exn + 't)) list \<Rightarrow> 't branch list \<Rightarrow> 't branch list" where
  "results_after rs bs = fold (\<lambda>(i, r) bs. bs[i := (fst (bs ! i), Some r)]) rs bs"

lemma results_after_simps:
  "results_after [] bs = bs" "results_after ((i, r) # rs) bs = results_after rs (bs[i := (fst (bs ! i), Some r)])"
  "results_after (rs @ rs') bs = results_after rs' (results_after rs bs)"
  by (simp_all add: results_after_def)

lemma length_results_after [simp]: "length (results_after rs bs) = length bs"
  by (induction rs arbitrary: bs) (auto simp: results_after_simps)

lemma results_after_some:
  "i < length bs \<Longrightarrow> snd (results_after rs bs ! i) \<noteq> None \<longleftrightarrow> i \<in> fst ` set rs \<or> snd (bs ! i) \<noteq> None"
proof (induction rs arbitrary: bs)
  case (Cons p rs)
  then show ?case by (cases p; cases "fst p = i") (auto simp: results_after_simps)
qed (simp add: results_after_simps)

lemma results_after_fst: "i < length bs \<Longrightarrow> fst (results_after rs bs ! i) = fst (bs ! i)"
proof (induction rs arbitrary: bs)
  case (Cons p rs)
  then show ?case by (cases p; cases "fst p = i") (auto simp: results_after_simps)
qed (simp add: results_after_simps)

lemma results_after_value:
  "distinct (map fst rs) \<Longrightarrow> (i, r) \<in> set rs \<Longrightarrow> i < length bs \<Longrightarrow> snd (results_after rs bs ! i) = Some r"
proof (induction rs arbitrary: bs)
  case (Cons p rs)
  obtain k q where p: "p = (k, q)" by fastforce
  have keep: "snd (results_after rs bs' ! i) = snd (bs' ! i)" if "i \<notin> fst ` set rs" "i < length bs'" for bs' :: "'a branch list"
    using that
  proof (induction rs arbitrary: bs')
    case (Cons p rs)
    then show ?case by (cases p) (auto simp: results_after_simps nth_list_update)
  qed (simp add: results_after_simps)
  show ?case
  proof (cases "i = k")
    case True
    with Cons.prems p have "r = q" by (auto simp: image_iff)
    with True Cons.prems p keep [of "bs[k := (fst (bs ! k), Some q)]"] show ?thesis
      by (auto simp: results_after_simps)
  next
    case False
    with Cons p show ?thesis by (auto simp: results_after_simps)
  qed
qed simp

lemma join_branches_append:
  "join_branches (rs @ rs') j c = and_then (join_branches rs j c) (\<lambda>(j, c). join_branches rs' j c)"
proof (induction rs arbitrary: j c)
  case (Cons p rs)
  obtain i r where "p = (i, r)" by fastforce
  with Cons show ?case by (cases "join_branch i r j c") auto
qed simp

text \<open>As long as a branch is missing, nothing is registered.\<close>

lemma join_branches_some:
  assumes "fst ` set rs \<subset> {..<length (jn_branches j)}" "\<forall>b \<in> set (jn_branches j). snd b = None" "\<not> jn_registered j"
  shows "join_branches rs j c = Inr (j\<lparr>jn_branches := results_after rs (jn_branches j)\<rparr>, c)"
  using assms(1)
proof (induction rs rule: rev_induct)
  case Nil
  then show ?case by (simp add: results_after_simps)
next
  case (snoc p rs)
  obtain i r where p: "p = (i, r)" by fastforce
  have sub: "fst ` set rs \<subset> {..<length (jn_branches j)}" using snoc.prems by auto
  from snoc.prems obtain k where k: "k < length (jn_branches j)" "k \<notin> fst ` set (rs @ [p])" by auto
  let ?bs = "results_after (rs @ [p]) (jn_branches j)"
  have "snd (?bs ! k) = None" using results_after_some [of k "jn_branches j" "rs @ [p]"] k assms(2) by auto
  then have "\<not> list_all (\<lambda>(p, r). r \<noteq> None) ?bs" using k by (auto simp: list_all_length split: prod.splits intro!: exI [of _ k])
  moreover have "?bs = (results_after rs (jn_branches j))[i := (fst (results_after rs (jn_branches j) ! i), Some r)]"
    using p by (simp add: results_after_simps)
  ultimately show ?case
    using snoc.IH [OF sub] p assms(3) by (simp add: join_branches_append join_branch_def)
qed

lemma extract_all: "extract_results (map (\<lambda>v. Some (Inr v)) vs) = Inr (Inr vs)"
  by (induction vs) simp_all

lemma extract_throws:
  "None \<notin> set rs \<Longrightarrow> Some (Inl e) \<in> set rs \<Longrightarrow> \<exists>e. Some (Inl e) \<in> set rs \<and> extract_results rs = Inr (Inl e)"
proof (induction rs rule: extract_results.induct)
  case (4 v rs)
  then show ?case by fastforce
qed auto

lemma branch_values_all: "map snd bs = map (\<lambda>v. Some (Inr v)) vs \<Longrightarrow> branch_values bs = vs"
proof (induction bs arbitrary: vs)
  case (Cons b bs)
  then show ?case by (cases vs; cases b) (auto simp: branch_values_def map_filter_simps)
qed (simp add: branch_values_def map_filter_simps)

text \<open>A branch of \<open>select\<close> that ends while \<open>select\<close> is registered or gone registers nothing.\<close>

lemma select_branches_registered:
  "sl_registered s \<or> sl_self s = None \<Longrightarrow> \<exists>s'. select_branches rs s c = Inr (s', c)
     \<and> sl_registered s' = sl_registered s \<and> sl_self s' = sl_self s"
proof (induction rs arbitrary: s)
  case (Cons p rs)
  obtain i r where p: "p = (i, r)" by fastforce
  define s1 where "s1 = (if r = Inl CancelException then s else s\<lparr>sl_branches := (sl_branches s)[i := (fst (sl_branches s ! i), Some r)]\<rparr>)"
  have "select_branch i r s c = Inr (s1, c)" using Cons.prems by (auto simp: select_branch_def s1_def Let_def)
  moreover have "sl_registered s1 = sl_registered s" "sl_self s1 = sl_self s" by (simp_all add: s1_def)
  ultimately show ?case using Cons.IH [of s1] Cons.prems p by auto
qed simp

end
