(* ===== verification/Task_Properties.thy ===== *)
theory Task_Properties
  imports Task_Combinators Runtime_Properties
begin

text \<open>Properties of join, select and timeout.\<close>

lemma results_after_covers:
  assumes "distinct (map fst rs)" "fst ` set rs = {..<length bs}" "i < length bs"
  shows "\<exists>r. (i, r) \<in> set rs \<and> snd (results_after rs bs ! i) = Some r"
proof -
  from assms(2,3) have "i \<in> fst ` set rs" by simp
  then obtain r where "(i, r) \<in> set rs" by auto
  with results_after_value [OF assms(1) this, of bs] assms(3) show ?thesis by auto
qed

lemma extract_branch_throws:
  assumes "set order = {..<length bs}" "\<And>i. i < length bs \<Longrightarrow> snd (bs ! i) \<noteq> None" "i < length bs" "snd (bs ! i) = Some (Inl e)"
  shows "\<exists>k e'. k < length bs \<and> snd (bs ! k) = Some (Inl e') \<and> extract_results (map (\<lambda>i. snd (bs ! i)) order) = Inr (Inl e')"
proof -
  have "Some (Inl e) \<in> set (map (\<lambda>i. snd (bs ! i)) order)" "None \<notin> set (map (\<lambda>i. snd (bs ! i)) order)"
    using assms by force+
  then obtain e' where e': "Some (Inl e') \<in> set (map (\<lambda>i. snd (bs ! i)) order)"
    "extract_results (map (\<lambda>i. snd (bs ! i)) order) = Inr (Inl e')" using extract_throws by blast
  then show ?thesis using assms(1) by auto
qed

text \<open>
  C39. join waits for all. Whatever the order in which the branches end, and whether with a value or
  an exception, the awaiting future is registered exactly once, when the last of them
  has ended and not before. When all gave values, polling it then gives these values in the
  order of the branches; when one threw, polling it throws the exception of a branch.
\<close>

theorem join_waits_for_all:
  fixes rs :: "(nat \<times> (exn + 't)) list"
  assumes "distinct (map fst rs)" "fst ` set rs = {..<length fs}" "rs = before @ [last_one]" "set order = {..<length fs}"
    "register_future this c = Inr c'"
  defines "j \<equiv> (JoinFuture this fs)\<lparr>jn_ready := True\<rparr>"
  shows "\<exists>j1 j2. join_branches before j c = Inr (j1, c) \<and> \<not> jn_registered j1
    \<and> join_branches rs j c = Inr (j2, c') \<and> jn_registered j2
    \<and> (\<forall>vs. length vs = length fs \<and> (\<forall>i < length fs. (i, Inr (vs ! i)) \<in> set rs) \<longrightarrow> join_poll order ws j2 c'' = Inr (Some (Inr vs), j2, c''))
    \<and> ((\<exists>i e. (i, Inl e) \<in> set rs) \<longrightarrow> (\<exists>i e. (i, Inl e) \<in> set rs \<and> join_poll order ws j2 c'' = Inr (Some (Inl e), j2, c'')))"
proof -
  let ?n = "length fs" and ?b0 = "map (\<lambda>p. (p, None)) fs :: 't branch list"
  define bs where "bs = results_after rs ?b0"
  let ?j2 = "j\<lparr>jn_branches := bs, jn_registered := True\<rparr>"
  have j: "jn_branches j = ?b0" "\<not> jn_registered j" "jn_this j = this" "jn_ready j" by (simp_all add: j_def JoinFuture_def)
  have "fst last_one \<notin> fst ` set before" "fst last_one < ?n" using assms(1-3) by auto
  then have "fst ` set before \<subset> {..<?n}" using assms(2,3) by auto
  then have before: "join_branches before j c = Inr (j\<lparr>jn_branches := results_after before ?b0\<rparr>, c)"
    using join_branches_some [of before j c] j by simp
  have all: "\<exists>r. (i, r) \<in> set rs \<and> snd (bs ! i) = Some r" if "i < ?n" for i
    using results_after_covers [OF assms(1), of ?b0 i] assms(2) that by (simp add: bs_def)
  have len: "length bs = ?n" by (simp add: bs_def)
  then have "list_all (\<lambda>(p, r). r \<noteq> None) bs" using all by (auto simp: list_all_length split: prod.splits) (metis option.distinct(1) snd_conv)
  moreover have "bs = (results_after before ?b0)[fst last_one := (fst (results_after before ?b0 ! fst last_one), Some (snd last_one))]"
    unfolding bs_def assms(3) by (cases last_one) (simp add: results_after_simps)
  ultimately have rs: "join_branches rs j c = Inr (?j2, c')"
    unfolding assms(3) join_branches_append before using j assms(5) by (cases last_one) (simp add: join_branch_def)
  have poll: "join_poll order ws ?j2 c'' = and_then (extract_results (map (\<lambda>i. snd (bs ! i)) order)) (\<lambda>r.
      Inr (Some (case r of Inl e \<Rightarrow> Inl e | Inr _ \<Rightarrow> Inr (branch_values bs)), ?j2, c''))"
    using j by (simp add: join_poll_def cong: sum.case_cong)
  have "join_poll order ws ?j2 c'' = Inr (Some (Inr vs), ?j2, c'')"
    if "length vs = ?n" "\<forall>i < ?n. (i, Inr (vs ! i)) \<in> set rs" for vs
  proof -
    have val: "snd (bs ! i) = Some (Inr (vs ! i))" if "i < ?n" for i
      using results_after_value [OF assms(1), of i "Inr (vs ! i)" ?b0] \<open>\<forall>i < ?n. (i, Inr (vs ! i)) \<in> set rs\<close> that by (simp add: bs_def)
    then have "map (\<lambda>i. snd (bs ! i)) order = map (\<lambda>v. Some (Inr v)) (map ((!) vs) order)" using assms(4) by auto
    moreover have "branch_values bs = vs" by (rule branch_values_all) (use val len that(1) in \<open>auto intro: nth_equalityI\<close>)
    ultimately show ?thesis by (simp only: poll extract_all and_then.simps sum.case)
  qed
  moreover have "\<exists>i e. (i, Inl e) \<in> set rs \<and> join_poll order ws ?j2 c'' = Inr (Some (Inl e), ?j2, c'')" if "(i, Inl e) \<in> set rs" for i e
  proof -
    have "i < ?n" using that assms(2) by force
    then have "snd (bs ! i) = Some (Inl e)" using results_after_value [OF assms(1) that, of ?b0] by (simp add: bs_def)
    then obtain k e' where k: "k < ?n" "snd (bs ! k) = Some (Inl e')" "extract_results (map (\<lambda>i. snd (bs ! i)) order) = Inr (Inl e')"
      using extract_branch_throws [of order bs i e] all \<open>i < ?n\<close> assms(4) len by fastforce
    then show ?thesis using all [of k] poll by auto
  qed
  ultimately show ?thesis using before rs j(2)
    by (intro exI [of _ "j\<lparr>jn_branches := results_after before ?b0\<rparr>"] exI [of _ ?j2]) auto
qed

theorem join_waits_for_all_witness:
  "\<exists>j1 j2 c'. join_branches [(1, Inr (8 :: nat))] ((JoinFuture 1 [2, 3])\<lparr>jn_ready := True\<rparr>) spawn_core = Inr (j1, spawn_core)
    \<and> \<not> jn_registered j1
    \<and> join_branches [(1, Inr 8), (0, Inr (7 :: nat))] ((JoinFuture 1 [2, 3])\<lparr>jn_ready := True\<rparr>) spawn_core = Inr (j2, c')
    \<and> join_poll [1, 0] [] j2 spawn_core = Inr (Some (Inr [7, 8]), j2, spawn_core)"
proof -
  have reg: "register_future 1 spawn_core = Inr (push_handle (Some 10, Some 1) spawn_core)"
    by (simp add: register_future_def get_handle_def fut_at_def spawn_core_def fresh_fut_def)
  let ?rs = "[(1, Inr 8), (0, Inr 7)] :: (nat \<times> (exn + nat)) list" and ?j = "(JoinFuture 1 [2, 3])\<lparr>jn_ready := True\<rparr> :: nat join_future"
  have "{..<length [2, 3 :: nat]} = {0, 1}" by auto
  then have "fst ` set ?rs = {..<length [2, 3 :: nat]}" "set [1, 0] = {..<length [2, 3 :: nat]}" "distinct (map fst ?rs)"
    "?rs = [(1, Inr 8)] @ [(0, Inr 7)]" by auto
  from join_waits_for_all [OF this(3,1,4,2) reg, of "[]" spawn_core] obtain j1 j2 where
    "join_branches [(1, Inr 8)] ?j spawn_core = Inr (j1, spawn_core)" "\<not> jn_registered j1"
    "join_branches ?rs ?j spawn_core = Inr (j2, push_handle (Some 10, Some 1) spawn_core)"
    and vals: "\<And>vs. length vs = 2 \<Longrightarrow> (\<forall>i < 2. (i, Inr (vs ! i)) \<in> set ?rs) \<Longrightarrow> join_poll [1, 0] [] j2 spawn_core = Inr (Some (Inr vs), j2, spawn_core)"
    by (auto simp: numeral_2_eq_2)
  moreover have "\<forall>i < 2. (i, Inr ([7, 8] ! i)) \<in> set ?rs" by (auto simp: less_Suc_eq numeral_2_eq_2)
  then have "join_poll [1, 0] [] j2 spawn_core = Inr (Some (Inr [7, 8]), j2, spawn_core)" using vals [of "[7, 8]"] by simp
  ultimately show ?thesis by blast
qed

text \<open>
  \<open>select\<close> registers the awaiting future once, for the first branch that ends other than by being
  cancelled, and none of the later ones. \<open>timeout\<close> reports a timeout also when both branches ended.
\<close>

lemma select_registers_first:
  assumes "register_future this c = Inr c'" "r \<noteq> Inl CancelException" "\<not> sl_registered s" "sl_self s = Some this"
  shows "\<exists>s'. select_branches ((i, r) # rs) s c = Inr (s', c') \<and> sl_registered s'"
proof -
  define s1 where "s1 = s\<lparr>sl_branches := (sl_branches s)[i := (fst (sl_branches s ! i), Some r)], sl_registered := True\<rparr>"
  have "select_branch i r s c = Inr (s1, c')" using assms by (simp add: select_branch_def s1_def)
  then show ?thesis using select_branches_registered [of s1 rs c'] by (auto simp: s1_def)
qed

lemma timeout_cases:
  "timeout_result (r, Some u) = Inr None" "timeout_result (Some v, None) = Inr (Some v)"
  by (simp_all add: timeout_result_def)











text \<open>\<open>join\<close> and \<open>select\<close> of nothing return at once.\<close>

lemma combine_nothing: "task_join this [] = Inl []" "task_select this [] = Inl []"
  by (simp_all add: task_join_def task_select_def)

end
