(* ===== verification/Coroutine_Machine.thy ===== *)
theory Coroutine_Machine
  imports Runtime_Core
begin

text \<open>
  Coroutines run on the runtime. A coroutine body is a program of the language's own primitives:
  it returns, throws, awaits a coroutine it calls, awaits a future object, or has an effect that can
  be observed. What the compiler generates around it is written out over the members of
  \<open>include/xyco/runtime/future.ccm\<close>: the call of a coroutine makes a frame and its future;
  \<open>co_await\<close> goes through \<open>await_ready\<close>, \<open>await_suspend\<close> and \<open>await_resume\<close>, after
  which the awaited temporary is destroyed; the end goes through \<open>return_value\<close> or
  \<open>unhandled_exception\<close> and \<open>final_suspend\<close>. The frames and the futures are those of the
  store, and the tasks those of the ready queue that the worker loop of \<open>src/runtime/core.cc\<close> runs.
\<close>

section \<open>Bodies and what they mean\<close>

text \<open>
  \<open>Co_await void b k\<close> calls and awaits a coroutine with body \<open>b\<close>, and goes on with \<open>k\<close> of the
  value or the exception; \<open>Co_await_object void n r k\<close> awaits a future object whose \<open>poll\<close> is
  pending \<open>n\<close> times and then gives \<open>r\<close>. The flags select \<open>Future<void>\<close>.
\<close>

datatype body =
    Co_return nat
  | Co_throw exn
  | Co_await bool body "exn + nat \<Rightarrow> body"
  | Co_await_object bool nat "exn + nat" "exn + nat \<Rightarrow> body"
  | Co_emit nat nat body

text \<open>What an awaiter gets; a \<open>Future<void>\<close> has no value.\<close>

fun awaited :: "bool \<Rightarrow> exn + nat \<Rightarrow> exn + nat" where
  "awaited void (Inl e) = Inl e"
| "awaited void (Inr v) = Inr (if void then 0 else v)"

text \<open>The result of a body when an awaited call is an ordinary one, and what it emits, in order.\<close>

primrec eval :: "body \<Rightarrow> exn + nat" where
  "eval (Co_return v) = Inr v"
| "eval (Co_throw e) = Inl e"
| "eval (Co_await void b k) = (eval \<circ> k) (awaited void (eval b))"
| "eval (Co_await_object void n r k) = (eval \<circ> k) (awaited void r)"
| "eval (Co_emit ch v b) = eval b"

primrec emits :: "body \<Rightarrow> (nat \<times> nat) list" where
  "emits (Co_return v) = []"
| "emits (Co_throw e) = []"
| "emits (Co_await void b k) = emits b @ (emits \<circ> k) (awaited void (eval b))"
| "emits (Co_await_object void n r k) = (emits \<circ> k) (awaited void r)"
| "emits (Co_emit ch v b) = (ch, v) # emits b"

text \<open>How often it is pending.\<close>

primrec pendings :: "body \<Rightarrow> nat" where
  "pendings (Co_return v) = 0"
| "pendings (Co_throw e) = 0"
| "pendings (Co_await void b k) = pendings b + (pendings \<circ> k) (awaited void (eval b))"
| "pendings (Co_await_object void n r k) = n + (pendings \<circ> k) (awaited void r)"
| "pendings (Co_emit ch v b) = pendings b"

section \<open>The machine\<close>

text \<open>Where a suspended coroutine goes on: at its start (\<open>initial_suspend\<close>), or after an await.\<close>

datatype resume_point = At_start body | At_await future_ptr "exn + nat \<Rightarrow> body"

record machine = core +
  ma_points :: "handle \<Rightarrow> resume_point option"
  ma_objects :: "future_ptr \<Rightarrow> (nat \<times> (exn + nat)) option"
  ma_log :: "(nat \<times> nat) list"

text \<open>\<open>operator new\<close> for frames, and the place of a future in the frame of its owner.\<close>

record allocator =
  al_frame :: "store \<Rightarrow> handle"
  al_future :: "store \<Rightarrow> future_ptr"

text \<open>Control is in a coroutine, is being given to one by \<open>resume\<close>, or is back at the worker.\<close>

datatype control = Executing handle body | Resuming handle | Returned

fun poll_object :: "future_ptr \<Rightarrow> machine \<Rightarrow> poll_result \<times> machine" where
  "poll_object p m = (case ma_objects m p of
     None \<Rightarrow> (Future_poll, m)
   | Some (Suc n, r) \<Rightarrow> (Poll_Pending, m\<lparr>ma_objects := (ma_objects m)(p \<mapsto> (n, r))\<rparr>)
   | Some (0, Inr v) \<Rightarrow> (Poll_Ready v, m)
   | Some (0, Inl e) \<Rightarrow> (Poll_Thrown e, m))"

text \<open>The end of an await: the result is taken and the temporary destroyed.\<close>

definition destroy_future :: "future_ptr \<Rightarrow> machine \<Rightarrow> machine outcome" where
  "destroy_future p m = and_then (Future_dtor p (co_store m)) (\<lambda>st.
     Inr (m\<lparr>co_store := st, ma_objects := (ma_objects m)(p := None)\<rparr>))"

definition finish_await :: "handle \<Rightarrow> future_ptr \<Rightarrow> (exn + nat \<Rightarrow> body) \<Rightarrow> machine \<Rightarrow> (control \<times> machine) outcome" where
  "finish_await h p k m = and_then (await_resume p (co_store m)) (\<lambda>(r, st).
     and_then (destroy_future p (m\<lparr>co_store := st\<rparr>)) (\<lambda>m. Inr (Executing h (k r), m)))"

text \<open>
  \<open>co_await\<close> of the future \<open>p\<close> in the coroutine \<open>h\<close>. When \<open>await_suspend\<close> resumes the awaited
  coroutine, nothing is left to do for it afterwards but to return; an exception of \<open>poll\<close> is
  thrown in the coroutine.
\<close>

definition await_object :: "handle \<Rightarrow> future_ptr \<Rightarrow> (exn + nat \<Rightarrow> body) \<Rightarrow> machine \<Rightarrow> (control \<times> machine) outcome" where
  "await_object h p k m = (let (res, m) = poll_object p m
     in and_then (await_suspend_polled res p (co_store m)) (\<lambda>x. case x of
          Inl e \<Rightarrow> and_then (destroy_future p m) (\<lambda>m. Inr (Executing h (k (Inl e)), m))
        | Inr (suspends, st) \<Rightarrow>
            if suspends then Inr (Returned, m\<lparr>co_store := st\<rparr>)
            else finish_await h p k (m\<lparr>co_store := st\<rparr>)))"

definition await :: "handle \<Rightarrow> future_ptr \<Rightarrow> (exn + nat \<Rightarrow> body) \<Rightarrow> machine \<Rightarrow> (control \<times> machine) outcome" where
  "await h p k m = and_then (await_ready p (co_store m)) (\<lambda>ready.
     if ready then finish_await h p k m
     else and_then (await_suspend_bind p h (co_store m)) (\<lambda>(action, st).
       let m = m\<lparr>co_store := st, ma_points := (ma_points m)(h \<mapsto> At_await p k)\<rparr>
       in case action of
            Resume co \<Rightarrow> Inr (Resuming co, m)
          | Poll_object \<Rightarrow> await_object h p k m))"

text \<open>The end of a coroutine, after its result is with the promise.\<close>

definition finish :: "handle \<Rightarrow> machine \<Rightarrow> (control \<times> machine) outcome" where
  "finish h m = and_then (coroutine_end h (co_store m)) (\<lambda>(waiting, st).
     Inr (case waiting of None \<Rightarrow> Returned | Some co \<Rightarrow> Resuming co,
          m\<lparr>co_store := st, ma_points := (ma_points m)(h := None)\<rparr>))"

definition new_frame :: "bool \<Rightarrow> frame" where
  "new_frame void = \<lparr>fr_void = void, fr_future = None, fr_done = False\<rparr>"

fun execute :: "allocator \<Rightarrow> handle \<Rightarrow> body \<Rightarrow> machine \<Rightarrow> (control \<times> machine) outcome" where
  "execute al h (Co_return v) m =
     and_then (return_value h v (co_store m)) (\<lambda>st. finish h (m\<lparr>co_store := st\<rparr>))"
| "execute al h (Co_throw e) m =
     and_then (unhandled_exception h e (co_store m)) (\<lambda>x. case x of
       Inl e \<Rightarrow> Inl (Runtime_error ''uncaught exception'')
     | Inr st \<Rightarrow> finish h (m\<lparr>co_store := st\<rparr>))"
| "execute al h (Co_await void b k) m =
     (let co = al_frame al (co_store m);
          p = al_future al (co_store m)
      in and_then (get_return_object co p (set_frame co (new_frame void) (co_store m))) (\<lambda>st.
         await h p k (m\<lparr>co_store := st, ma_points := (ma_points m)(co \<mapsto> At_start b)\<rparr>)))"
| "execute al h (Co_await_object void n r k) m =
     (let p = al_future al (co_store m)
      in and_then (Future_ctor void p None (co_store m)) (\<lambda>st.
         await h p k (m\<lparr>co_store := st, ma_objects := (ma_objects m)(p \<mapsto> (n, r))\<rparr>)))"
| "execute al h (Co_emit ch v b) m = Inr (Executing h b, m\<lparr>ma_log := ma_log m @ [(ch, v)]\<rparr>)"

fun co_step :: "allocator \<Rightarrow> control \<Rightarrow> machine \<Rightarrow> (control \<times> machine) outcome" where
  "co_step al (Executing h b) m = execute al h b m"
| "co_step al (Resuming h) m = (case ma_points m h of
     None \<Rightarrow> Inl Null_deref
   | Some (At_start b) \<Rightarrow> Inr (Executing h b, m)
   | Some (At_await p k) \<Rightarrow> finish_await h p k m)"
| "co_step al Returned m = Inr (Returned, m)"

text \<open>From \<open>resume\<close> until control is back.\<close>

partial_function (option) co_run :: "allocator \<Rightarrow> control \<Rightarrow> machine \<Rightarrow> machine outcome option" where
  "co_run al ctl m = (if ctl = Returned then Some (Inr m)
     else (case co_step al ctl m of Inl e \<Rightarrow> Some (Inl e) | Inr (ctl, m) \<Rightarrow> co_run al ctl m))"

declare co_run.simps [code]

text \<open>A \<open>resume\<close> that does not return has no outcome; it is given an abnormal one.\<close>

definition co_resume :: "allocator \<Rightarrow> handle \<Rightarrow> machine \<Rightarrow> machine outcome" where
  "co_resume al h m = (case co_run al (Resuming h) m of None \<Rightarrow> Inl (Runtime_error ''no return'') | Some r \<Rightarrow> r)"

definition co_poll :: "future_ptr \<Rightarrow> machine \<Rightarrow> (bool \<times> machine) outcome" where
  "co_poll p m = (let (r, m) = poll_object p m
     in and_then (poll_wrapper r p (co_store m)) (\<lambda>(ends, st). Inr (ends, m\<lparr>co_store := st\<rparr>)))"

text \<open>A task of the ready queue, as the worker loop runs it.\<close>

definition run_coroutine :: "allocator \<Rightarrow> ready_task \<Rightarrow> machine \<Rightarrow> machine outcome" where
  "run_coroutine al = run_task co_poll (co_resume al)"

section \<open>Spawning and scheduling\<close>

text \<open>
  The coroutine around a spawned one. It lets a cancelled coroutine end silently. The spawned
  coroutine is called here when the one around it first runs, and its future is destroyed right after the
  await; in the source it is called before and its future goes with the frame around it. Since
  \<open>initial_suspend\<close> suspends always and nothing follows the await, no effect of a body moves.
\<close>

definition spawn_with_exception_handling :: "bool \<Rightarrow> body \<Rightarrow> body" where
  "spawn_with_exception_handling void b = Co_await void b (\<lambda>r. case r of
     Inl CancelException \<Rightarrow> Co_return 0
   | Inl e \<Rightarrow> Co_throw e
   | Inr _ \<Rightarrow> Co_return 0)"

definition spawn_body :: "allocator \<Rightarrow> bool \<times> body \<Rightarrow> machine \<Rightarrow> machine outcome" where
  "spawn_body al = (\<lambda>(void, b) m.
     let co = al_frame al (co_store m)
     in spawn_coroutine co (al_future al (co_store m))
          (m\<lparr>ma_points := (ma_points m)(co \<mapsto> At_start (spawn_with_exception_handling void b))\<rparr>))"

text \<open>
  The workers take tasks from the queue, and what a future object waits for happens: its future is
  registered, by a registry through \<open>wake\<close> or by another coroutine. Different coroutines share no frame, and
  \<open>await_suspend\<close> does not touch the future after a pending \<open>poll\<close>, so that running a coroutine
  until it suspends loses no interleaving. \<open>spawn_impl\<close> is one step here; what it does
  after the task is in the queue is the race that \<open>Runtime_Properties\<close> shows.
\<close>

inductive executor_step :: "allocator \<Rightarrow> machine \<Rightarrow> machine \<Rightarrow> bool" for al where
  ex_run: "pop_back (co_handles m) = Some (t, rest) \<Longrightarrow> run_coroutine al t (m\<lparr>co_handles := rest\<rparr>) = Inr m' \<Longrightarrow>
    executor_step al m m'"
| ex_wake: "ma_objects m p \<noteq> None \<Longrightarrow> Some p \<notin> snd ` set (co_handles m) \<Longrightarrow> register_future p m = Inr m' \<Longrightarrow>
    executor_step al m m'"

text \<open>Coroutines may be spawned at any time; \<open>bs\<close> are those spawned so far.\<close>

inductive executor_reach :: "allocator \<Rightarrow> (bool \<times> body) list \<Rightarrow> machine \<Rightarrow> bool" for al where
  ex_start: "co_handles m = [] \<Longrightarrow> co_store m = \<lparr>st_futures = \<lambda>_. None, st_frames = \<lambda>_. None\<rparr> \<Longrightarrow>
    ma_objects m = (\<lambda>_. None) \<Longrightarrow> ma_log m = [] \<Longrightarrow> executor_reach al [] m"
| ex_spawn: "executor_reach al bs m \<Longrightarrow> spawn_body al b m = Inr m' \<Longrightarrow> executor_reach al (bs @ [b]) m'"
| ex_step: "executor_reach al bs m \<Longrightarrow> executor_step al m m' \<Longrightarrow> executor_reach al bs m'"

text \<open>Memory is finite and \<open>operator new\<close> gives what is not in use.\<close>

definition allocates :: "allocator \<Rightarrow> bool" where
  "allocates al \<longleftrightarrow> (\<forall>st. finite (dom (st_frames st)) \<longrightarrow> finite (dom (st_futures st)) \<longrightarrow>
     st_frames st (al_frame al st) = None \<and> st_futures st (al_future al st) = None)"

end
