(* ===== verification/Coroutine_Proofs.thy ===== *)
theory Coroutine_Proofs
  imports Coroutine_Machine
begin

text \<open>
  The machine of \<open>Coroutine_Machine\<close> against the meaning of bodies. A coroutine that was started
  is a stack of frames: each is linked with the future its caller awaits, and the caller's resume point
  holds the rest of its body. Running a body pushes and pops frames above the ones
  that were there, changes nothing else, and ends with the result of the body or at a pending object.
\<close>

section \<open>Stacks of frames\<close>

text \<open>An entry: a frame, its future and class, and the rest of the body of the frame below.\<close>

type_synonym entry = "handle \<times> future_ptr \<times> bool \<times> (exn + nat \<Rightarrow> body)"

fun on_top :: "handle \<Rightarrow> entry list \<Rightarrow> handle" where
  "on_top h0 [] = h0"
| "on_top h0 ((h, p, void, k) # es) = h"

abbreviation stack_frames :: "handle \<Rightarrow> entry list \<Rightarrow> handle set" where
  "stack_frames h0 es \<equiv> insert h0 (fst ` set es)"

abbreviation stack_futures :: "entry list \<Rightarrow> future_ptr set" where
  "stack_futures es \<equiv> (fst \<circ> snd) ` set es"

definition awaited_by :: "bool \<Rightarrow> handle option \<Rightarrow> handle \<Rightarrow> fut \<Rightarrow> bool" where
  "awaited_by void self waiting f \<longleftrightarrow> fu_void f = void \<and> fu_self f = self \<and> fu_waiting f = Some waiting
     \<and> fu_exception f = None \<and> \<not> fu_cancelled f"

lemma awaited_by_waited [simp]: "awaited_by void self waiting (f\<lparr>fu_waited := w\<rparr>) = awaited_by void self waiting f"
  by (simp add: awaited_by_def)

fun stack_ok :: "store \<Rightarrow> (handle \<Rightarrow> resume_point option) \<Rightarrow> handle \<Rightarrow> entry list \<Rightarrow> bool" where
  "stack_ok st pts h0 [] \<longleftrightarrow> st_frames st h0 = Some \<lparr>fr_void = True, fr_future = None, fr_done = False\<rparr>"
| "stack_ok st pts h0 ((h, p, void, k) # es) \<longleftrightarrow>
     st_frames st h = Some \<lparr>fr_void = void, fr_future = Some p, fr_done = False\<rparr>
     \<and> (\<exists>f. st_futures st p = Some f \<and> awaited_by void (Some h) (on_top h0 es) f)
     \<and> pts (on_top h0 es) = Some (At_await p k) \<and> h \<notin> stack_frames h0 es \<and> p \<notin> stack_futures es \<and> stack_ok st pts h0 es"

text \<open>Memory is finite, and an address without a future has no object.\<close>

definition tidy :: "machine \<Rightarrow> bool" where
  "tidy m \<longleftrightarrow> finite (dom (st_frames (co_store m))) \<and> finite (dom (st_futures (co_store m)))
     \<and> dom (ma_objects m) \<subseteq> dom (st_futures (co_store m))"

definition live :: "machine \<Rightarrow> handle \<Rightarrow> entry list \<Rightarrow> bool" where
  "live m h0 es \<longleftrightarrow> tidy m \<and> stack_ok (co_store m) (ma_points m) h0 es \<and> (\<forall>p \<in> stack_futures es. ma_objects m p = None)"

lemma on_top_frame [simp]: "on_top h0 es \<in> stack_frames h0 es"
  by (cases es) auto

lemma stack_ok_frame: "stack_ok st pts h0 es \<Longrightarrow> h \<in> stack_frames h0 es \<Longrightarrow> st_frames st h \<noteq> None"
  by (induction st pts h0 es rule: stack_ok.induct) auto

lemma stack_ok_future: "stack_ok st pts h0 es \<Longrightarrow> p \<in> stack_futures es \<Longrightarrow> st_futures st p \<noteq> None"
  by (induction st pts h0 es rule: stack_ok.induct) auto

text \<open>A stack depends on its own frames and futures only, and not on what its futures are told to wait for.\<close>

lemma stack_ok_cong:
  assumes "stack_ok st pts h0 es"
    and "\<forall>h \<in> stack_frames h0 es. st_frames st' h = st_frames st h"
    and "\<forall>h \<in> stack_frames h0 es. h \<noteq> on_top h0 es \<longrightarrow> pts' h = pts h"
    and "\<forall>p \<in> stack_futures es. \<forall>f. st_futures st p = Some f \<longrightarrow> (\<exists>w. st_futures st' p = Some (f\<lparr>fu_waited := w\<rparr>))"
  shows "stack_ok st' pts' h0 es"
  using assms
proof (induction st pts h0 es rule: stack_ok.induct)
  case (2 st pts h0 h p void k es)
  from "2.prems"(1) obtain f where f: "st_futures st p = Some f" "awaited_by void (Some h) (on_top h0 es) f" by auto
  with "2.prems"(4) obtain w where w: "st_futures st' p = Some (f\<lparr>fu_waited := w\<rparr>)" by auto
  have new: "h \<notin> stack_frames h0 es" using "2.prems"(1) by simp
  then have pts: "pts' h' = pts h'" if "h' \<in> stack_frames h0 es" for h' using "2.prems"(3) that by auto
  then have "stack_ok st' pts' h0 es" using "2.prems" by (intro "2.IH") auto
  with "2.prems"(1,2) f w pts [OF on_top_frame] show ?case by auto
qed auto

text \<open>The part of a machine that belongs to a coroutine changes, with all the rest left alone.\<close>

definition confined :: "handle set \<Rightarrow> future_ptr set \<Rightarrow> machine \<Rightarrow> handle set \<Rightarrow> future_ptr set \<Rightarrow> machine \<Rightarrow> bool" where
  "confined A B m A' B' m' \<longleftrightarrow>
     dom (st_frames (co_store m)) - A = dom (st_frames (co_store m')) - A'
     \<and> (\<forall>co \<in> dom (st_frames (co_store m)) - A. st_frames (co_store m') co = st_frames (co_store m) co \<and> ma_points m' co = ma_points m co)
     \<and> dom (st_futures (co_store m)) - B = dom (st_futures (co_store m')) - B'
     \<and> (\<forall>p \<in> dom (st_futures (co_store m)) - B. st_futures (co_store m') p = st_futures (co_store m) p \<and> ma_objects m' p = ma_objects m p)
     \<and> co_handles m' = co_handles m"

lemma confined_refl [simp]: "confined A B m A B m"
  by (simp add: confined_def)

lemma confined_trans: "confined A B m A1 B1 m1 \<Longrightarrow> confined A1 B1 m1 A2 B2 m2 \<Longrightarrow> confined A B m A2 B2 m2"
  unfolding confined_def by (metis (no_types, lifting))

text \<open>\<open>set_waited\<close> on the coroutine that runs.\<close>

definition rewaited :: "future_ptr set \<Rightarrow> store \<Rightarrow> store \<Rightarrow> bool" where
  "rewaited B st st' \<longleftrightarrow> st_frames st' = st_frames st \<and> dom (st_futures st') = dom (st_futures st)
     \<and> (\<forall>p. p \<notin> B \<longrightarrow> st_futures st' p = st_futures st p)
     \<and> (\<forall>p f. st_futures st p = Some f \<longrightarrow> (\<exists>w. st_futures st' p = Some (f\<lparr>fu_waited := w\<rparr>)))"

lemma same_waited: "\<exists>w. f = f\<lparr>fu_waited := w\<rparr>" for f :: fut
  by (rule exI [of _ "fu_waited f"]) simp

lemma set_waited_top:
  assumes "stack_ok st pts h0 es"
  shows "\<exists>st'. set_waited (on_top h0 es) w st = Inr st' \<and> rewaited (stack_futures es) st st'"
proof (cases es)
  case Nil
  with assms same_waited show ?thesis by (simp add: set_waited_def frame_at_def rewaited_def)
next
  case (Cons e es')
  obtain h p void k where e: "e = (h, p, void, k)" by (cases e)
  from assms Cons e same_waited show ?thesis
    by (auto simp: set_waited_def frame_at_def fut_at_def rewaited_def)
qed

lemma live_cong:
  assumes "live m h0 es" "tidy m'"
    and "\<forall>h \<in> stack_frames h0 es. st_frames (co_store m') h = st_frames (co_store m) h"
    and "\<forall>h \<in> stack_frames h0 es. h \<noteq> on_top h0 es \<longrightarrow> ma_points m' h = ma_points m h"
    and "\<forall>p \<in> stack_futures es. \<forall>f. st_futures (co_store m) p = Some f \<longrightarrow> (\<exists>w. st_futures (co_store m') p = Some (f\<lparr>fu_waited := w\<rparr>))"
    and "\<forall>p \<in> stack_futures es. ma_objects m' p = ma_objects m p"
  shows "live m' h0 es"
  using assms stack_ok_cong [of "co_store m" "ma_points m" h0 es "co_store m'" "ma_points m'"] unfolding live_def by simp

section \<open>The end of an await\<close>

text \<open>The future holds the result that its awaiter is to get.\<close>

fun holds_result :: "exn + nat \<Rightarrow> fut \<Rightarrow> bool" where
  "holds_result (Inl e) f \<longleftrightarrow> fu_exception f = Some e"
| "holds_result (Inr v) f \<longleftrightarrow> fu_exception f = None \<and> \<not> fu_cancelled f \<and> (fu_void f \<or> fu_return f = Some v)"

lemma await_resume_result:
  assumes "st_futures st p = Some f" "fu_waiting f = Some h" "holds_result r f" "set_waited h None st = Inr st'"
  shows "await_resume p st = Inr (awaited (fu_void f) r, st')"
  using assms by (cases r) (auto simp: await_resume_def fut_at_def)

text \<open>The frame that the future owns.\<close>

abbreviation own_frame :: "fut \<Rightarrow> handle set" where
  "own_frame f \<equiv> set_option (fu_self f)"

lemma finish_await_live:
  assumes live: "live m h0 es" and p: "p \<notin> stack_futures es" "st_futures (co_store m) p = Some f"
    and f: "fu_waiting f = Some (on_top h0 es)" "holds_result r f"
    and own: "\<forall>co \<in> own_frame f. st_frames (co_store m) co \<noteq> None \<and> co \<notin> stack_frames h0 es"
  shows "\<exists>m'. finish_await (on_top h0 es) p k m = Inr (Executing (on_top h0 es) (k (awaited (fu_void f) r)), m')
    \<and> live m' h0 es \<and> ma_log m' = ma_log m
    \<and> confined (stack_frames h0 es \<union> own_frame f) (insert p (stack_futures es)) m (stack_frames h0 es) (stack_futures es) m'"
proof -
  from live have ok: "stack_ok (co_store m) (ma_points m) h0 es" and tidy: "tidy m" by (auto simp: live_def)
  from set_waited_top [OF ok, of None] obtain st where st: "set_waited (on_top h0 es) None (co_store m) = Inr st"
    "rewaited (stack_futures es) (co_store m) st" by blast
  then have pf: "st_futures st p = Some f" using p by (simp add: rewaited_def)
  define st' where "st' = drop_fut p (case fu_self f of None \<Rightarrow> st | Some co \<Rightarrow> destroy co st)"
  have dtor: "Future_dtor p st = Inr st'"
    using pf own f(1) st(2) by (auto simp: Future_dtor_def fut_at_def frame_at_def st'_def drop_fut_def rewaited_def split: option.splits)
  define m' where "m' = m\<lparr>co_store := st', ma_objects := (ma_objects m)(p := None)\<rparr>"
  have frames: "st_frames st' = (\<lambda>co. if co \<in> own_frame f then None else st_frames (co_store m) co)"
    using st(2) by (auto simp: st'_def drop_fut_def rewaited_def fun_eq_iff split: option.splits)
  have futs: "st_futures st' = (st_futures st)(p := None)"
    by (auto simp: st'_def drop_fut_def split: option.splits)
  have doms: "dom (st_frames st') = dom (st_frames (co_store m)) - own_frame f" "dom (st_futures st') = dom (st_futures (co_store m)) - {p}"
    using st(2) by (auto simp: frames futs rewaited_def split: if_splits)
  have "tidy m'"
    using tidy doms by (auto simp: tidy_def m'_def)
  moreover have "confined (stack_frames h0 es \<union> own_frame f) (insert p (stack_futures es)) m (stack_frames h0 es) (stack_futures es) m'"
    unfolding confined_def using doms st(2) own p(1)
    by (auto simp: m'_def frames futs rewaited_def)
  moreover have "live m' h0 es"
    by (rule live_cong [OF live \<open>tidy m'\<close>]) (use own p(1) st(2) in \<open>auto simp: m'_def frames futs rewaited_def\<close>)
  moreover have "finish_await (on_top h0 es) p k m = Inr (Executing (on_top h0 es) (k (awaited (fu_void f) r)), m')"
    using await_resume_result [OF p(2) f st(1)] dtor by (simp add: finish_await_def destroy_future_def m'_def)
  ultimately show ?thesis by (intro exI [of _ m']) (simp add: m'_def)
qed

section \<open>Steps of a body\<close>

lemma co_run_step: "ctl \<noteq> Returned \<Longrightarrow> co_step al ctl m = Inr (ctl', m') \<Longrightarrow> co_run al ctl m = co_run al ctl' m'"
  by (subst co_run.simps) simp

lemma co_run_returned [simp]: "co_run al Returned m = Some (Inr m)"
  by (subst co_run.simps) simp

lemma co_run_fails: "ctl \<noteq> Returned \<Longrightarrow> co_step al ctl m = Inl e \<Longrightarrow> co_run al ctl m = Some (Inl e)"
  by (subst co_run.simps) simp

lemma allocates_fresh:
  assumes "allocates al" "tidy m"
  shows "st_frames (co_store m) (al_frame al (co_store m)) = None" "st_futures (co_store m) (al_future al (co_store m)) = None"
  using assms by (auto simp: allocates_def tidy_def)

text \<open>The store after \<open>await_suspend\<close> has bound a new future to the coroutine that runs.\<close>

lemma bind_live:
  assumes ok: "stack_ok st pts h0 es" and p: "p \<notin> stack_futures es" "st_futures st p = Some f"
  shows "\<exists>st'. await_suspend_bind p (on_top h0 es) st
      = Inr (case fu_self f of Some co \<Rightarrow> Resume co | None \<Rightarrow> Poll_object, st')
    \<and> rewaited (stack_futures es) (set_fut p (f\<lparr>fu_waiting := Some (on_top h0 es)\<rparr>) st) st'"
proof -
  let ?st = "set_fut p (f\<lparr>fu_waiting := Some (on_top h0 es)\<rparr>) st"
  have "stack_ok ?st pts h0 es" by (rule stack_ok_cong [OF ok]) (use p same_waited in auto)
  from set_waited_top [OF this, of "fu_self f"] show ?thesis
    using p by (auto simp: await_suspend_bind_def fut_at_def)
qed

lemma call_live:
  assumes al: "allocates al" and live: "live m h0 es"
  shows "\<exists>co p m'. co_run al (Executing (on_top h0 es) (Co_await void b k)) m = co_run al (Executing co b) m'
    \<and> live m' h0 ((co, p, void, k) # es) \<and> ma_log m' = ma_log m
    \<and> confined (stack_frames h0 es) (stack_futures es) m (insert co (stack_frames h0 es)) (insert p (stack_futures es)) m'"
proof -
  from live have ok: "stack_ok (co_store m) (ma_points m) h0 es" and tidy: "tidy m" by (auto simp: live_def)
  define co p where "co = al_frame al (co_store m)" and "p = al_future al (co_store m)"
  from allocates_fresh [OF al tidy] have new: "st_frames (co_store m) co = None" "st_futures (co_store m) p = None" by (simp_all add: co_def p_def)
  have out: "co \<notin> stack_frames h0 es" "p \<notin> stack_futures es"
    using stack_ok_frame [OF ok, of co] stack_ok_future [OF ok, of p] new by auto
  define f where "f = \<lparr>fu_void = void, fu_return = None, fu_exception = None, fu_self = Some co,
    fu_waiting = None, fu_waited = None, fu_cancelled = False\<rparr>"
  define st1 where "st1 = set_frame co \<lparr>fr_void = void, fr_future = Some p, fr_done = False\<rparr> (set_fut p f (set_frame co (new_frame void) (co_store m)))"
  have ret: "get_return_object co p (set_frame co (new_frame void) (co_store m)) = Inr st1"
    by (simp add: get_return_object_def frame_at_def Future_ctor_def st1_def f_def new_frame_def Let_def)
  have "stack_ok st1 (ma_points m) h0 es" by (rule stack_ok_cong [OF ok]) (use out same_waited in \<open>auto simp: st1_def\<close>)
  from bind_live [OF this out(2), of f] obtain st2 where st2:
    "await_suspend_bind p (on_top h0 es) st1 = Inr (Resume co, st2)"
    "rewaited (stack_futures es) (set_fut p (f\<lparr>fu_waiting := Some (on_top h0 es)\<rparr>) st1) st2" by (auto simp: st1_def f_def)
  define m' where "m' = m\<lparr>co_store := st2, ma_points := (ma_points m)(co \<mapsto> At_start b, on_top h0 es \<mapsto> At_await p k)\<rparr>"
  have frames: "st_frames st2 = (st_frames (co_store m))(co \<mapsto> \<lparr>fr_void = void, fr_future = Some p, fr_done = False\<rparr>)"
    using st2(2) by (simp add: rewaited_def st1_def)
  have pf: "st_futures st2 p = Some (f\<lparr>fu_waiting := Some (on_top h0 es)\<rparr>)" using st2(2) out by (simp add: rewaited_def)
  have futs: "st_futures st2 q = st_futures (co_store m) q" if "st_futures (co_store m) q \<noteq> None" "q \<notin> stack_futures es" for q
    using st2(2) that new(2) by (cases "q = p") (simp_all add: rewaited_def st1_def)
  have keep: "\<exists>w. st_futures st2 q = Some (g\<lparr>fu_waited := w\<rparr>)" if "st_futures (co_store m) q = Some g" for q g
    using st2(2) that new(2) by (cases "q = p") (simp_all add: rewaited_def st1_def)
  have doms: "dom (st_futures st2) = insert p (dom (st_futures (co_store m)))" using st2(2) by (auto simp: rewaited_def st1_def)
  have "tidy m'" using tidy doms by (auto simp: tidy_def m'_def frames)
  then have "live m' h0 es"
    by (rule live_cong [OF live]) (use out new keep in \<open>auto simp: m'_def frames\<close>)
  moreover have "ma_objects m p = None" using tidy new by (auto simp: tidy_def)
  ultimately have "live m' h0 ((co, p, void, k) # es)"
    using pf out frames by (auto simp: live_def m'_def awaited_by_def f_def)
  moreover have "confined (stack_frames h0 es) (stack_futures es) m (insert co (stack_frames h0 es)) (insert p (stack_futures es)) m'"
    unfolding confined_def using out new doms futs on_top_frame [of h0 es] by (auto simp: m'_def frames)
  moreover have "co_run al (Executing (on_top h0 es) (Co_await void b k)) m = co_run al (Resuming co) m'"
    using ret st2(1) new by (intro co_run_step)
      (auto simp: co_def [symmetric] p_def [symmetric] await_def await_ready_def fut_at_def frame_at_def st1_def f_def m'_def Let_def)
  moreover have "co_run al (Resuming co) m' = co_run al (Executing co b) m'"
    by (rule co_run_step) (use out on_top_frame [of h0 es] in \<open>auto simp: m'_def\<close>)
  ultimately show ?thesis by (intro exI [of _ co] exI [of _ p] exI [of _ m']) (simp add: m'_def)
qed

text \<open>An awaited coroutine ends with a result: its frame and its future go, and the awaiter goes on.\<close>

lemma end_live:
  assumes live: "live m h0 ((h, p, void, k) # es)"
    and b: "b = Co_return v \<and> r = Inr v \<or> b = Co_throw e \<and> r = Inl e"
  shows "\<exists>m'. co_run al (Executing h b) m = co_run al (Executing (on_top h0 es) (k (awaited void r))) m'
    \<and> live m' h0 es \<and> ma_log m' = ma_log m
    \<and> confined (insert h (stack_frames h0 es)) (insert p (stack_futures es)) m (stack_frames h0 es) (stack_futures es) m'"
proof -
  from live obtain f where f: "st_frames (co_store m) h = Some \<lparr>fr_void = void, fr_future = Some p, fr_done = False\<rparr>"
    "st_futures (co_store m) p = Some f" "awaited_by void (Some h) (on_top h0 es) f" "ma_points m (on_top h0 es) = Some (At_await p k)"
    "h \<notin> stack_frames h0 es" "p \<notin> stack_futures es" "stack_ok (co_store m) (ma_points m) h0 es" and tidy: "tidy m" by (auto simp: live_def)
  define g where "g = (case r of Inr v \<Rightarrow> f\<lparr>fu_return := Some v\<rparr> | Inl e \<Rightarrow> f\<lparr>fu_exception := Some e\<rparr>)"
  have g: "fu_void g = void" "fu_self g = Some h" "fu_waiting g = Some (on_top h0 es)" "holds_result r g"
    using f(3) by (auto simp: g_def awaited_by_def split: sum.splits)
  define st where "st = set_frame h \<lparr>fr_void = void, fr_future = Some p, fr_done = True\<rparr> (set_fut p g (co_store m))"
  define m1 where "m1 = m\<lparr>co_store := st, ma_points := (ma_points m)(h := None)\<rparr>"
  have wait: "fu_waiting f = Some (on_top h0 es)" using f(3) by (simp add: awaited_by_def)
  have run: "co_run al (Executing h b) m = co_run al (Resuming (on_top h0 es)) m1"
    by (rule co_run_step) (use b f(1,2) wait in \<open>auto simp: return_value_def unhandled_exception_def finish_def coroutine_end_def
      final_suspend_def frame_at_def fut_at_def g_def st_def m1_def\<close>)
  have "dom (st_frames st) = dom (st_frames (co_store m))" "dom (st_futures st) = dom (st_futures (co_store m))"
    using f(1,2) by (auto simp: st_def)
  note doms = this
  have "tidy m1" using tidy doms by (auto simp: tidy_def m1_def)
  then have "live m1 h0 es"
  proof (rule live_cong [of m h0 es, rotated])
    show "live m h0 es" using live by (simp add: live_def)
  qed (use f(5,6) same_waited in \<open>auto simp: m1_def st_def\<close>)
  moreover have "st_futures (co_store m1) p = Some g" by (simp add: m1_def st_def)
  moreover have "\<forall>co \<in> own_frame g. st_frames (co_store m1) co \<noteq> None \<and> co \<notin> stack_frames h0 es"
    unfolding g(2) using f(5) by (simp add: m1_def st_def)
  ultimately obtain m' where m': "finish_await (on_top h0 es) p k m1 = Inr (Executing (on_top h0 es) (k (awaited void r)), m')"
    "live m' h0 es" "ma_log m' = ma_log m1"
    "confined (stack_frames h0 es \<union> {h}) (insert p (stack_futures es)) m1 (stack_frames h0 es) (stack_futures es) m'"
    using finish_await_live [OF _ f(6) _ g(3,4), of m1 k] unfolding g(1,2) option.set by blast
  have "confined (insert h (stack_frames h0 es)) (insert p (stack_futures es)) m (stack_frames h0 es \<union> {h}) (insert p (stack_futures es)) m1"
    unfolding confined_def by (auto simp: m1_def st_def)
  note confined_trans [OF this m'(4)]
  moreover have "ma_points m1 (on_top h0 es) = Some (At_await p k)" using f(4,5) on_top_frame [of h0 es] by (auto simp: m1_def)
  then have "co_run al (Resuming (on_top h0 es)) m1 = co_run al (Executing (on_top h0 es) (k (awaited void r))) m'"
    using m'(1) by (intro co_run_step) auto
  ultimately show ?thesis using run m'(2,3) by (intro exI [of _ m']) (simp add: m1_def)
qed

text \<open>The outermost coroutine returns: its frame goes, and control is back at the worker.\<close>

lemma end_detached:
  assumes "live m h0 []"
  shows "\<exists>m'. co_run al (Executing h0 (Co_return v)) m = Some (Inr m') \<and> tidy m' \<and> ma_log m' = ma_log m \<and> confined {h0} {} m {} {} m'"
proof -
  from assms have f: "st_frames (co_store m) h0 = Some \<lparr>fr_void = True, fr_future = None, fr_done = False\<rparr>" and tidy: "tidy m"
    by (auto simp: live_def)
  define m' where "m' = m\<lparr>co_store := destroy h0 (co_store m), ma_points := (ma_points m)(h0 := None)\<rparr>"
  have "co_run al (Executing h0 (Co_return v)) m = co_run al Returned m'"
    by (rule co_run_step) (use f in \<open>auto simp: return_value_def finish_def coroutine_end_def final_suspend_def frame_at_def m'_def\<close>)
  moreover have "tidy m'" using tidy by (auto simp: tidy_def m'_def)
  moreover have "confined {h0} {} m {} {} m'" unfolding confined_def by (auto simp: m'_def)
  ultimately show ?thesis by (intro exI [of _ m']) (simp add: m'_def)
qed

section \<open>Waiting for an object\<close>

definition waiting_at :: "machine \<Rightarrow> handle \<Rightarrow> entry list \<Rightarrow> future_ptr \<Rightarrow> bool \<Rightarrow> nat \<Rightarrow> exn + nat \<Rightarrow> (exn + nat \<Rightarrow> body) \<Rightarrow> bool" where
  "waiting_at m h0 es p void n r k \<longleftrightarrow> live m h0 es \<and> p \<notin> stack_futures es
     \<and> (\<exists>f. st_futures (co_store m) p = Some f \<and> awaited_by void None (on_top h0 es) f)
     \<and> ma_points m (on_top h0 es) = Some (At_await p k) \<and> ma_objects m p = Some (n, r)"

text \<open>The object's result is with its future, and the awaiter goes on.\<close>

lemma deliver:
  assumes "waiting_at m h0 es p void n r k" "st_futures (co_store m) p = Some f"
    and g: "fu_void g = fu_void f" "fu_self g = fu_self f" "fu_waiting g = fu_waiting f" "holds_result r g"
  shows "\<exists>m'. finish_await (on_top h0 es) p k (m\<lparr>co_store := set_fut p g (co_store m)\<rparr>) = Inr (Executing (on_top h0 es) (k (awaited void r)), m')
    \<and> live m' h0 es \<and> ma_log m' = ma_log m
    \<and> confined (stack_frames h0 es) (insert p (stack_futures es)) m (stack_frames h0 es) (stack_futures es) m'"
proof -
  let ?m = "m\<lparr>co_store := set_fut p g (co_store m)\<rparr>"
  from assms(1,2) have w: "live m h0 es" "p \<notin> stack_futures es" "awaited_by void None (on_top h0 es) f" by (auto simp: waiting_at_def)
  have "tidy ?m" using w(1) assms(2) by (auto simp: live_def tidy_def)
  then have "live ?m h0 es" by (rule live_cong [OF w(1)]) (use w(2) same_waited in auto)
  moreover have "st_futures (co_store ?m) p = Some g" "fu_waiting g = Some (on_top h0 es)" "fu_self g = None" "fu_void g = void"
    using w(3) g by (simp_all add: awaited_by_def)
  ultimately obtain m' where m': "finish_await (on_top h0 es) p k ?m = Inr (Executing (on_top h0 es) (k (awaited void r)), m')"
    "live m' h0 es" "ma_log m' = ma_log ?m" "confined (stack_frames h0 es) (insert p (stack_futures es)) ?m (stack_frames h0 es) (stack_futures es) m'"
    using finish_await_live [of ?m h0 es p g r k] w(2) g(4) by auto
  have "confined (stack_frames h0 es) (insert p (stack_futures es)) m (stack_frames h0 es) (insert p (stack_futures es)) ?m"
    using assms(2) by (auto simp: confined_def)
  from confined_trans [OF this m'(4)] m' show ?thesis by auto
qed

text \<open>Awaiting an object makes its future and polls it.\<close>

lemma object_bound:
  assumes al: "allocates al" and live: "live m h0 es"
  shows "\<exists>p m1. waiting_at m1 h0 es p void n r k \<and> ma_log m1 = ma_log m
    \<and> confined (stack_frames h0 es) (stack_futures es) m (stack_frames h0 es) (insert p (stack_futures es)) m1
    \<and> execute al (on_top h0 es) (Co_await_object void n r k) m = await_object (on_top h0 es) p k m1"
proof -
  from live have ok: "stack_ok (co_store m) (ma_points m) h0 es" and tidy: "tidy m" by (auto simp: live_def)
  define p where "p = al_future al (co_store m)"
  from allocates_fresh [OF al tidy] have new: "st_futures (co_store m) p = None" by (simp add: p_def)
  have out: "p \<notin> stack_futures es" using stack_ok_future [OF ok, of p] new by auto
  define f where "f = \<lparr>fu_void = void, fu_return = None, fu_exception = None, fu_self = None,
    fu_waiting = None, fu_waited = None, fu_cancelled = False\<rparr>"
  have "stack_ok (set_fut p f (co_store m)) (ma_points m) h0 es" by (rule stack_ok_cong [OF ok]) (use out same_waited in auto)
  from bind_live [OF this out, of f] obtain st where st: "await_suspend_bind p (on_top h0 es) (set_fut p f (co_store m)) = Inr (Poll_object, st)"
    "rewaited (stack_futures es) (set_fut p (f\<lparr>fu_waiting := Some (on_top h0 es)\<rparr>) (set_fut p f (co_store m))) st" by (auto simp: f_def)
  define m1 where "m1 = m\<lparr>ma_objects := (ma_objects m)(p \<mapsto> (n, r)), co_store := st, ma_points := (ma_points m)(on_top h0 es \<mapsto> At_await p k)\<rparr>"
  have pf: "st_futures st p = Some (f\<lparr>fu_waiting := Some (on_top h0 es)\<rparr>)" "st_frames st = st_frames (co_store m)"
    "dom (st_futures st) = insert p (dom (st_futures (co_store m)))" using st(2) out by (auto simp: rewaited_def)
  have keep: "\<exists>w. st_futures st q = Some (g\<lparr>fu_waited := w\<rparr>)" if "st_futures (co_store m) q = Some g" for q g
    using st(2) that new by (cases "q = p") (simp_all add: rewaited_def)
  have futs: "st_futures st q = st_futures (co_store m) q" if "st_futures (co_store m) q \<noteq> None" "q \<notin> stack_futures es" for q
    using st(2) that new by (cases "q = p") (simp_all add: rewaited_def)
  have "tidy m1" using tidy pf(2,3) by (auto simp: tidy_def m1_def)
  then have "live m1 h0 es" by (rule live_cong [OF live]) (use out keep pf(2) in \<open>auto simp: m1_def\<close>)
  then have "waiting_at m1 h0 es p void n r k" using out pf(1) by (simp add: waiting_at_def m1_def awaited_by_def f_def)
  moreover have "confined (stack_frames h0 es) (stack_futures es) m (stack_frames h0 es) (insert p (stack_futures es)) m1"
    unfolding confined_def using pf(2,3) new out futs on_top_frame [of h0 es] by (auto simp: m1_def)
  moreover have "await_ready p (set_fut p f (co_store m)) = Inr False" by (simp add: await_ready_def fut_at_def f_def)
  with st(1) have "await (on_top h0 es) p k (m\<lparr>co_store := set_fut p f (co_store m), ma_objects := (ma_objects m)(p \<mapsto> (n, r))\<rparr>) = await_object (on_top h0 es) p k m1"
    unfolding await_def by (simp add: m1_def Let_def)
  then have "execute al (on_top h0 es) (Co_await_object void n r k) m = \<dots>"
    by (simp add: p_def [symmetric] Future_ctor_def f_def Let_def)
  ultimately show ?thesis by (intro exI [of _ p] exI [of _ m1]) (simp add: m1_def)
qed

lemma object_ready:
  assumes "allocates al" "live m h0 es"
  shows "\<exists>m'. co_run al (Executing (on_top h0 es) (Co_await_object void 0 r k)) m = co_run al (Executing (on_top h0 es) (k (awaited void r))) m'
    \<and> live m' h0 es \<and> ma_log m' = ma_log m
    \<and> confined (stack_frames h0 es) (stack_futures es) m (stack_frames h0 es) (stack_futures es) m'"
proof -
  from object_bound [OF assms, of void 0 r k] obtain p m1 where m1: "waiting_at m1 h0 es p void 0 r k" "ma_log m1 = ma_log m"
    "confined (stack_frames h0 es) (stack_futures es) m (stack_frames h0 es) (insert p (stack_futures es)) m1"
    "execute al (on_top h0 es) (Co_await_object void 0 r k) m = await_object (on_top h0 es) p k m1" by blast
  from m1(1) obtain f where f: "st_futures (co_store m1) p = Some f" "awaited_by void None (on_top h0 es) f" "ma_objects m1 p = Some (0, r)"
    "live m1 h0 es" "p \<notin> stack_futures es"
    by (auto simp: waiting_at_def)
  have "\<exists>m'. execute al (on_top h0 es) (Co_await_object void 0 r k) m = Inr (Executing (on_top h0 es) (k (awaited void r)), m')
    \<and> live m' h0 es \<and> ma_log m' = ma_log m1
    \<and> confined (stack_frames h0 es) (insert p (stack_futures es)) m1 (stack_frames h0 es) (stack_futures es) m'"
  proof (cases r)
    case (Inl e)
    define m' where "m' = m1\<lparr>co_store := drop_fut p (co_store m1), ma_objects := (ma_objects m1)(p := None)\<rparr>"
    have "destroy_future p m1 = Inr m'"
      using f(1,2) by (simp add: destroy_future_def Future_dtor_def fut_at_def awaited_by_def m'_def drop_fut_def)
    then have "execute al (on_top h0 es) (Co_await_object void 0 r k) m = Inr (Executing (on_top h0 es) (k (awaited void r)), m')"
      unfolding m1(4) using f Inl by (simp add: await_object_def await_suspend_polled_def fut_at_def)
    moreover have "tidy m'" using f(4) by (auto simp: live_def tidy_def m'_def drop_fut_def)
    then have "live m' h0 es"
    proof (rule live_cong [OF f(4)])
      show "\<forall>q \<in> stack_futures es. \<forall>f. st_futures (co_store m1) q = Some f \<longrightarrow> (\<exists>w. st_futures (co_store m') q = Some (f\<lparr>fu_waited := w\<rparr>))"
        using f(5) same_waited by (auto simp: m'_def drop_fut_def)
    qed (use f(5) in \<open>auto simp: m'_def drop_fut_def\<close>)
    moreover have "confined (stack_frames h0 es) (insert p (stack_futures es)) m1 (stack_frames h0 es) (stack_futures es) m'"
      using f(5) by (auto simp: confined_def m'_def drop_fut_def)
    ultimately show ?thesis by (intro exI [of _ m']) (simp add: m'_def)
  next
    case (Inr v)
    define g where "g = (if fu_void f then f else f\<lparr>fu_return := Some v\<rparr>)"
    have g: "fu_void g = fu_void f" "fu_self g = fu_self f" "fu_waiting g = fu_waiting f" "holds_result r g"
      using f(2) Inr by (auto simp: g_def awaited_by_def)
    have "execute al (on_top h0 es) (Co_await_object void 0 r k) m = finish_await (on_top h0 es) p k (m1\<lparr>co_store := set_fut p g (co_store m1)\<rparr>)"
      unfolding m1(4) using f Inr by (auto simp: await_object_def await_suspend_polled_def fut_at_def g_def set_fut_def fun_upd_idem)
    with deliver [OF m1(1) f(1) g] show ?thesis by simp
  qed
  then obtain m' where "execute al (on_top h0 es) (Co_await_object void 0 r k) m = Inr (Executing (on_top h0 es) (k (awaited void r)), m')"
    "live m' h0 es" "ma_log m' = ma_log m1"
    "confined (stack_frames h0 es) (insert p (stack_futures es)) m1 (stack_frames h0 es) (stack_futures es) m'" by blast
  with co_run_step [of "Executing (on_top h0 es) (Co_await_object void 0 r k)" al m] confined_trans [OF m1(3)] m1(2) show ?thesis
    by (intro exI [of _ m']) simp
qed

text \<open>A poll that is pending counts one down.\<close>

lemma poll_pending:
  assumes "waiting_at m h0 es p void (Suc n) r k"
  defines "m' \<equiv> m\<lparr>ma_objects := (ma_objects m)(p \<mapsto> (n, r))\<rparr>"
  shows "poll_object p m = (Poll_Pending, m')" "waiting_at m' h0 es p void n r k"
    "confined (stack_frames h0 es) (insert p (stack_futures es)) m (stack_frames h0 es) (insert p (stack_futures es)) m'"
proof -
  from assms(1) have w: "live m h0 es" "p \<notin> stack_futures es" "ma_objects m p = Some (Suc n, r)" by (auto simp: waiting_at_def)
  show "poll_object p m = (Poll_Pending, m')" using w(3) by (simp add: m'_def)
  have "live m' h0 es" using w by (auto simp: live_def tidy_def m'_def)
  then show "waiting_at m' h0 es p void n r k" using assms(1) by (simp add: waiting_at_def m'_def)
  show "confined (stack_frames h0 es) (insert p (stack_futures es)) m (stack_frames h0 es) (insert p (stack_futures es)) m'"
    by (auto simp: confined_def m'_def)
qed

lemma object_pending:
  assumes "allocates al" "live m h0 es"
  shows "\<exists>p m'. co_run al (Executing (on_top h0 es) (Co_await_object void (Suc n) r k)) m = Some (Inr m')
    \<and> waiting_at m' h0 es p void n r k \<and> ma_log m' = ma_log m
    \<and> confined (stack_frames h0 es) (stack_futures es) m (stack_frames h0 es) (insert p (stack_futures es)) m'"
proof -
  from object_bound [OF assms, of void "Suc n" r k] obtain p m1 where m1: "waiting_at m1 h0 es p void (Suc n) r k" "ma_log m1 = ma_log m"
    "confined (stack_frames h0 es) (stack_futures es) m (stack_frames h0 es) (insert p (stack_futures es)) m1"
    "execute al (on_top h0 es) (Co_await_object void (Suc n) r k) m = await_object (on_top h0 es) p k m1" by blast
  let ?m = "m1\<lparr>ma_objects := (ma_objects m1)(p \<mapsto> (n, r))\<rparr>"
  note poll = poll_pending [OF m1(1)]
  from m1(1) obtain f where "st_futures (co_store m1) p = Some f" by (auto simp: waiting_at_def)
  then have "execute al (on_top h0 es) (Co_await_object void (Suc n) r k) m = Inr (Returned, ?m)"
    unfolding m1(4) await_object_def poll(1) by (simp add: await_suspend_polled_def fut_at_def)
  then have "co_run al (Executing (on_top h0 es) (Co_await_object void (Suc n) r k)) m = co_run al Returned ?m"
    by (intro co_run_step) simp_all
  with poll(2) confined_trans [OF m1(3) poll(3)] m1(2) show ?thesis by (intro exI [of _ p] exI [of _ ?m]) simp
qed

section \<open>Runs of a coroutine\<close>

text \<open>What the frames of a stack do when the top one has ended with a result.\<close>

fun stack_eval :: "entry list \<Rightarrow> exn + nat \<Rightarrow> exn + nat" where
  "stack_eval [] r = r"
| "stack_eval ((h, p, void, k) # es) r = stack_eval es (eval (k (awaited void r)))"

fun stack_emits :: "entry list \<Rightarrow> exn + nat \<Rightarrow> (nat \<times> nat) list" where
  "stack_emits [] r = []"
| "stack_emits ((h, p, void, k) # es) r = emits (k (awaited void r)) @ stack_emits es (eval (k (awaited void r)))"

fun stack_pendings :: "entry list \<Rightarrow> exn + nat \<Rightarrow> nat" where
  "stack_pendings [] r = 0"
| "stack_pendings ((h, p, void, k) # es) r = pendings (k (awaited void r)) + stack_pendings es (eval (k (awaited void r)))"

text \<open>The number of steps of the machine.\<close>

primrec cost :: "body \<Rightarrow> nat" where
  "cost (Co_return v) = 1"
| "cost (Co_throw e) = 1"
| "cost (Co_await void b k) = Suc (cost b + (cost \<circ> k) (awaited void (eval b)))"
| "cost (Co_await_object void n r k) = Suc ((cost \<circ> k) (awaited void r))"
| "cost (Co_emit ch v b) = Suc (cost b)"

fun stack_cost :: "entry list \<Rightarrow> exn + nat \<Rightarrow> nat" where
  "stack_cost [] r = 0"
| "stack_cost ((h, p, void, k) # es) r = cost (k (awaited void r)) + stack_cost es (eval (k (awaited void r)))"

text \<open>
  The run of a body on a stack until control is back at the worker: everything was emitted and nothing of the coroutine
  is left, or it waits for an object, having emitted a first part.
\<close>

definition run_ends :: "machine \<Rightarrow> handle \<Rightarrow> entry list \<Rightarrow> body \<Rightarrow> machine \<Rightarrow> bool" where
  "run_ends m h0 es b m' \<longleftrightarrow> pendings b + stack_pendings es (eval b) = 0
     \<and> ma_log m' = ma_log m @ emits b @ stack_emits es (eval b) \<and> tidy m'
     \<and> confined (stack_frames h0 es) (stack_futures es) m {} {} m'"

definition run_parks :: "machine \<Rightarrow> handle \<Rightarrow> entry list \<Rightarrow> body \<Rightarrow> machine \<Rightarrow> bool" where
  "run_parks m h0 es b m' \<longleftrightarrow> (\<exists>es' p void n r k l. waiting_at m' h0 es' p void n r k
     \<and> ma_log m' = ma_log m @ l
     \<and> emits b @ stack_emits es (eval b) = l @ emits (k (awaited void r)) @ stack_emits es' (eval (k (awaited void r)))
     \<and> pendings b + stack_pendings es (eval b) = Suc (n + pendings (k (awaited void r)) + stack_pendings es' (eval (k (awaited void r))))
     \<and> stack_eval es (eval b) = stack_eval es' (eval (k (awaited void r)))
     \<and> confined (stack_frames h0 es) (stack_futures es) m (stack_frames h0 es') (insert p (stack_futures es')) m')"

lemma run_extend:
  assumes "confined (stack_frames h0 es) (stack_futures es) m (stack_frames h0 es1) (stack_futures es1) m1" "ma_log m1 = ma_log m @ l"
    and "emits b @ stack_emits es (eval b) = l @ emits b1 @ stack_emits es1 (eval b1)"
    and "pendings b + stack_pendings es (eval b) = pendings b1 + stack_pendings es1 (eval b1)"
    and "stack_eval es (eval b) = stack_eval es1 (eval b1)"
  shows "run_ends m1 h0 es1 b1 m' \<Longrightarrow> run_ends m h0 es b m'" "run_parks m1 h0 es1 b1 m' \<Longrightarrow> run_parks m h0 es b m'"
proof -
  show "run_ends m1 h0 es1 b1 m' \<Longrightarrow> run_ends m h0 es b m'"
    using assms confined_trans [OF assms(1)] unfolding run_ends_def by simp
  show "run_parks m h0 es b m'" if "run_parks m1 h0 es1 b1 m'"
  proof -
    from that obtain es' p void n r k l' where w: "waiting_at m' h0 es' p void n r k" "ma_log m' = ma_log m1 @ l'"
      "emits b1 @ stack_emits es1 (eval b1) = l' @ emits (k (awaited void r)) @ stack_emits es' (eval (k (awaited void r)))"
      "pendings b1 + stack_pendings es1 (eval b1) = Suc (n + pendings (k (awaited void r)) + stack_pendings es' (eval (k (awaited void r))))"
      "stack_eval es1 (eval b1) = stack_eval es' (eval (k (awaited void r)))"
      "confined (stack_frames h0 es1) (stack_futures es1) m1 (stack_frames h0 es') (insert p (stack_futures es')) m'"
      unfolding run_parks_def by blast
    with assms confined_trans [OF assms(1) w(6)] show ?thesis unfolding run_parks_def
      by (intro exI [of _ es'] exI [of _ p] exI [of _ void] exI [of _ n] exI [of _ r] exI [of _ k] exI [of _ "l @ l'"]) simp
  qed
qed

text \<open>A step of a running coroutine, after which the same or another one of its stack runs.\<close>

definition advances :: "allocator \<Rightarrow> handle \<Rightarrow> machine \<Rightarrow> entry list \<Rightarrow> body \<Rightarrow> machine \<Rightarrow> entry list \<Rightarrow> body \<Rightarrow> bool" where
  "advances al h0 m es b m1 es1 b1 \<longleftrightarrow> (\<exists>l.
     co_run al (Executing (on_top h0 es) b) m = co_run al (Executing (on_top h0 es1) b1) m1 \<and> live m1 h0 es1
     \<and> confined (stack_frames h0 es) (stack_futures es) m (stack_frames h0 es1) (stack_futures es1) m1
     \<and> ma_log m1 = ma_log m @ l
     \<and> emits b @ stack_emits es (eval b) = l @ emits b1 @ stack_emits es1 (eval b1)
     \<and> pendings b + stack_pendings es (eval b) = pendings b1 + stack_pendings es1 (eval b1)
     \<and> stack_eval es (eval b) = stack_eval es1 (eval b1)
     \<and> cost b1 + stack_cost es1 (eval b1) < cost b + stack_cost es (eval b))"

lemma advance_call:
  assumes al: "allocates al" and live: "live m h0 es"
  shows "\<exists>es1 b1 m1. advances al h0 m es (Co_await void b k) m1 es1 b1"
proof -
  from call_live [OF al live, of void b k] obtain co p m1 where
    "co_run al (Executing (on_top h0 es) (Co_await void b k)) m = co_run al (Executing co b) m1" "live m1 h0 ((co, p, void, k) # es)"
    "ma_log m1 = ma_log m"
    "confined (stack_frames h0 es) (stack_futures es) m (insert co (stack_frames h0 es)) (insert p (stack_futures es)) m1" by blast
  then have "advances al h0 m es (Co_await void b k) m1 ((co, p, void, k) # es) b"
    unfolding advances_def by (intro exI [of _ "[]"]) (simp add: insert_commute)
  then show ?thesis by blast
qed

lemma advance_object:
  assumes al: "allocates al" and live: "live m h0 es"
  shows "\<exists>es1 b1 m1. advances al h0 m es (Co_await_object void 0 r k) m1 es1 b1"
proof -
  from object_ready [OF al live, of void r k] obtain m1 where
    "co_run al (Executing (on_top h0 es) (Co_await_object void 0 r k)) m = co_run al (Executing (on_top h0 es) (k (awaited void r))) m1"
    "live m1 h0 es" "ma_log m1 = ma_log m"
    "confined (stack_frames h0 es) (stack_futures es) m (stack_frames h0 es) (stack_futures es) m1" by blast
  then have "advances al h0 m es (Co_await_object void 0 r k) m1 es (k (awaited void r))"
    unfolding advances_def by (intro exI [of _ "[]"]) simp
  then show ?thesis by blast
qed

lemma parks_object:
  assumes al: "allocates al" and live: "live m h0 es"
  shows "\<exists>m'. co_run al (Executing (on_top h0 es) (Co_await_object void (Suc n) r k)) m = Some (Inr m')
    \<and> run_parks m h0 es (Co_await_object void (Suc n) r k) m'"
proof -
  from object_pending [OF al live, of void n r k] obtain p m1 where
    "co_run al (Executing (on_top h0 es) (Co_await_object void (Suc n) r k)) m = Some (Inr m1)" "waiting_at m1 h0 es p void n r k"
    "ma_log m1 = ma_log m"
    "confined (stack_frames h0 es) (stack_futures es) m (stack_frames h0 es) (insert p (stack_futures es)) m1" by blast
  then show ?thesis unfolding run_parks_def
    by (intro exI [of _ m1] conjI exI [of _ es] exI [of _ p] exI [of _ void] exI [of _ n] exI [of _ r] exI [of _ k] exI [of _ "[]"])
      simp_all
qed

lemma advance_emit:
  assumes live: "live m h0 es"
  shows "\<exists>es1 b1 m1. advances al h0 m es (Co_emit ch v b) m1 es1 b1"
proof -
  let ?m = "m\<lparr>ma_log := ma_log m @ [(ch, v)]\<rparr>"
  have "co_run al (Executing (on_top h0 es) (Co_emit ch v b)) m = co_run al (Executing (on_top h0 es) b) ?m"
    by (rule co_run_step) simp_all
  moreover have "live ?m h0 es" using live by (simp add: live_def tidy_def)
  ultimately have "advances al h0 m es (Co_emit ch v b) ?m es b"
    unfolding advances_def by (intro exI [of _ "[(ch, v)]"]) (simp add: confined_def)
  then show ?thesis by blast
qed

lemma advance_end:
  assumes live: "live m h0 (e # es)" and b: "b = Co_return v \<and> r = Inr v \<or> b = Co_throw x \<and> r = Inl x"
  shows "\<exists>es1 b1 m1. advances al h0 m (e # es) b m1 es1 b1"
proof -
  obtain h p void k where e: "e = (h, p, void, k)" by (cases e)
  from end_live [of m h0 h p void k es b v r x al] live b obtain m1 where
    "co_run al (Executing h b) m = co_run al (Executing (on_top h0 es) (k (awaited void r))) m1" "live m1 h0 es" "ma_log m1 = ma_log m"
    "confined (insert h (stack_frames h0 es)) (insert p (stack_futures es)) m (stack_frames h0 es) (stack_futures es) m1"
    unfolding e by blast
  then have "advances al h0 m (e # es) b m1 es (k (awaited void r))"
    unfolding advances_def using b by (intro exI [of _ "[]"]) (auto simp: e insert_commute simp del: awaited.simps)
  then show ?thesis by blast
qed

lemma body_moves:
  assumes al: "allocates al" and live: "live m h0 es" and ends: "\<not> isl (stack_eval es (eval b))"
  shows "(\<exists>es1 b1 m1. advances al h0 m es b m1 es1 b1)
    \<or> (\<exists>m'. co_run al (Executing (on_top h0 es) b) m = Some (Inr m') \<and> (run_ends m h0 es b m' \<or> run_parks m h0 es b m'))"
proof (cases b)
  case (Co_await_object void n r k)
  then show ?thesis using advance_object [OF al live, of void r k] parks_object [OF al live, of void _ r k] by (cases n) blast+
next
  case (Co_return v)
  then show ?thesis using end_detached [of m h0 al v] advance_end [of m h0 _ _ b v "Inr v" undefined al] live
    by (cases es) (auto simp: run_ends_def)
next
  case (Co_throw x)
  then show ?thesis using ends advance_end [of m h0 _ _ b undefined "Inl x" x al] live by (cases es) simp_all
qed (use advance_call [OF al live] advance_emit [OF live] in blast)+

text \<open>A coroutine that runs comes to its end or to an object that is pending.\<close>

lemma run_body:
  assumes al: "allocates al"
  shows "live m h0 es \<Longrightarrow> \<not> isl (stack_eval es (eval b)) \<Longrightarrow>
    \<exists>m'. co_run al (Executing (on_top h0 es) b) m = Some (Inr m') \<and> (run_ends m h0 es b m' \<or> run_parks m h0 es b m')"
proof (induction "cost b + stack_cost es (eval b)" arbitrary: m es b rule: less_induct)
  case less
  show ?case
  proof (cases "\<exists>es1 b1 m1. advances al h0 m es b m1 es1 b1")
    case True
    then obtain es1 b1 m1 l where step: "co_run al (Executing (on_top h0 es) b) m = co_run al (Executing (on_top h0 es1) b1) m1" "live m1 h0 es1"
      "confined (stack_frames h0 es) (stack_futures es) m (stack_frames h0 es1) (stack_futures es1) m1" "ma_log m1 = ma_log m @ l"
      "emits b @ stack_emits es (eval b) = l @ emits b1 @ stack_emits es1 (eval b1)"
      "pendings b + stack_pendings es (eval b) = pendings b1 + stack_pendings es1 (eval b1)"
      "stack_eval es (eval b) = stack_eval es1 (eval b1)"
      "cost b1 + stack_cost es1 (eval b1) < cost b + stack_cost es (eval b)"
      unfolding advances_def by blast
    show ?thesis using less.hyps [OF step(8) step(2)] less.prems(2) run_extend [OF step(3-7)] step(1,7) by metis
  next
    case False
    with body_moves [OF al less.prems] show ?thesis by blast
  qed
qed

end
