(* ===== verification/Coroutine_Executor.thy ===== *)
theory Coroutine_Executor
  imports Coroutine_Proofs
begin

text \<open>
  Many coroutines on the ready queue. Each one that was spawned has not started, waits for an object,
  or is gone; the frames and futures of different ones are disjoint, together they are all there
  are, and the queue holds tasks of theirs only. Every step of the executor keeps this.
\<close>

section \<open>The coroutines of an executor\<close>

datatype thread =
    Fresh handle body
  | Parked handle "entry list" future_ptr bool nat "exn + nat" "exn + nat \<Rightarrow> body"
  | Gone

fun thread_frames :: "thread \<Rightarrow> handle set" where
  "thread_frames (Fresh h b) = {h}"
| "thread_frames (Parked h0 es p void n r k) = stack_frames h0 es"
| "thread_frames Gone = {}"

fun thread_futures :: "thread \<Rightarrow> future_ptr set" where
  "thread_futures (Fresh h b) = {}"
| "thread_futures (Parked h0 es p void n r k) = insert p (stack_futures es)"
| "thread_futures Gone = {}"

fun thread_task :: "thread \<Rightarrow> ready_task option" where
  "thread_task (Fresh h b) = Some (Some h, None)"
| "thread_task (Parked h0 es p void n r k) = Some (Some (on_top h0 es), Some p)"
| "thread_task Gone = None"

fun thread_ok :: "machine \<Rightarrow> thread \<Rightarrow> bool" where
  "thread_ok m (Fresh h b) \<longleftrightarrow> live m h [] \<and> ma_points m h = Some (At_start b) \<and> \<not> isl (eval b)"
| "thread_ok m (Parked h0 es p void n r k) \<longleftrightarrow> waiting_at m h0 es p void n r k \<and> \<not> isl (stack_eval es (eval (k (awaited void r))))"
| "thread_ok m Gone \<longleftrightarrow> True"

text \<open>What is still to be emitted, and how often the coroutine is still to be run.\<close>

fun rest_emits :: "thread \<Rightarrow> (nat \<times> nat) list" where
  "rest_emits (Fresh h b) = emits b"
| "rest_emits (Parked h0 es p void n r k) = emits (k (awaited void r)) @ stack_emits es (eval (k (awaited void r)))"
| "rest_emits Gone = []"

fun rest_runs :: "thread \<Rightarrow> nat" where
  "rest_runs (Fresh h b) = Suc (pendings b)"
| "rest_runs (Parked h0 es p void n r k) = Suc (n + pendings (k (awaited void r)) + stack_pendings es (eval (k (awaited void r))))"
| "rest_runs Gone = 0"

definition threads_ok :: "machine \<Rightarrow> thread list \<Rightarrow> bool" where
  "threads_ok m ts \<longleftrightarrow> tidy m \<and> (\<forall>i < length ts. thread_ok m (ts ! i))
     \<and> dom (st_frames (co_store m)) = (\<Union>i < length ts. thread_frames (ts ! i))
     \<and> dom (st_futures (co_store m)) = (\<Union>i < length ts. thread_futures (ts ! i))
     \<and> (\<forall>i < length ts. \<forall>j < length ts. i \<noteq> j \<longrightarrow> thread_frames (ts ! i) \<inter> thread_frames (ts ! j) = {}
          \<and> thread_futures (ts ! i) \<inter> thread_futures (ts ! j) = {})
     \<and> distinct (co_handles m) \<and> (\<forall>x \<in> set (co_handles m). \<exists>i < length ts. thread_task (ts ! i) = Some x)
     \<and> (\<forall>i < length ts. \<forall>h b. ts ! i = Fresh h b \<longrightarrow> (Some h, None) \<in> set (co_handles m))"

lemma threads_okD:
  assumes "threads_ok m ts"
  shows "tidy m" "\<forall>i < length ts. thread_ok m (ts ! i)"
    "dom (st_frames (co_store m)) = (\<Union>i < length ts. thread_frames (ts ! i))"
    "dom (st_futures (co_store m)) = (\<Union>i < length ts. thread_futures (ts ! i))"
    "\<forall>i < length ts. \<forall>j < length ts. i \<noteq> j \<longrightarrow> thread_frames (ts ! i) \<inter> thread_frames (ts ! j) = {}
       \<and> thread_futures (ts ! i) \<inter> thread_futures (ts ! j) = {}"
    "distinct (co_handles m)" "\<forall>x \<in> set (co_handles m). \<exists>i < length ts. thread_task (ts ! i) = Some x"
    "\<forall>i < length ts. \<forall>h b. ts ! i = Fresh h b \<longrightarrow> (Some h, None) \<in> set (co_handles m)"
  using assms unfolding threads_ok_def by - (elim conjE, assumption)+

text \<open>A coroutine does not notice what happens outside its own frames and futures.\<close>

lemma thread_ok_owns:
  assumes "thread_ok m t"
  shows "thread_frames t \<subseteq> dom (st_frames (co_store m))" "thread_futures t \<subseteq> dom (st_futures (co_store m))"
proof -
  have "thread_frames t \<subseteq> dom (st_frames (co_store m)) \<and> thread_futures t \<subseteq> dom (st_futures (co_store m))"
  proof (cases t)
    case (Parked h0 es p void n r k)
    then have "stack_ok (co_store m) (ma_points m) h0 es" "st_futures (co_store m) p \<noteq> None"
      using assms by (auto simp: live_def waiting_at_def)
    with stack_ok_frame [of "co_store m" "ma_points m" h0 es] stack_ok_future [of "co_store m" "ma_points m" h0 es] Parked
    show ?thesis by (auto simp: domIff)
  qed (use assms in \<open>auto simp: live_def\<close>)
  then show "thread_frames t \<subseteq> dom (st_frames (co_store m))" "thread_futures t \<subseteq> dom (st_futures (co_store m))" by blast+
qed

lemma thread_ok_local:
  assumes t: "thread_ok m t" and "tidy m'"
    and F: "\<forall>h \<in> thread_frames t. st_frames (co_store m') h = st_frames (co_store m) h \<and> ma_points m' h = ma_points m h"
    and P: "\<forall>p \<in> thread_futures t. st_futures (co_store m') p = st_futures (co_store m) p \<and> ma_objects m' p = ma_objects m p"
  shows "thread_ok m' t"
proof (cases t)
  case (Fresh h b)
  with assms show ?thesis by (simp add: live_def)
next
  case (Parked h0 es p void n r k)
  have "live m' h0 es"
    by (rule live_cong [of m]) (use assms Parked same_waited in \<open>auto simp: waiting_at_def\<close>)
  moreover have "ma_points m' (on_top h0 es) = ma_points m (on_top h0 es)" using F Parked on_top_frame [of h0 es] by (simp only: thread_frames.simps)
  ultimately show ?thesis using t P Parked by (simp add: waiting_at_def)
qed simp

lemma UN_list_update:
  assumes "i < length ts" "D = (\<Union>j < length ts. f (ts ! j))" "\<And>j. j < length ts \<Longrightarrow> j \<noteq> i \<Longrightarrow> f (ts ! i) \<inter> f (ts ! j) = {}"
    and "D - f (ts ! i) = D' - f t'" "f t' \<subseteq> D'"
  shows "D' = (\<Union>j < length ts. f (ts[i := t'] ! j))"
proof (rule set_eqI)
  fix x
  have away: "x \<notin> f (ts ! i)" if "j < length ts" "j \<noteq> i" "x \<in> f (ts ! j)" for j using assms(3) [OF that(1,2)] that(3) by blast
  have new: "x \<in> D' \<longleftrightarrow> x \<in> f t' \<or> x \<in> D \<and> x \<notin> f (ts ! i)" using assms(4,5) by blast
  show "x \<in> D' \<longleftrightarrow> x \<in> (\<Union>j < length ts. f (ts[i := t'] ! j))"
  proof
    assume "x \<in> D'"
    with new consider "x \<in> f t'" | "x \<in> D" "x \<notin> f (ts ! i)" by blast
    then show "x \<in> (\<Union>j < length ts. f (ts[i := t'] ! j))"
    proof cases
      case 1
      with assms(1) show ?thesis by (intro UN_I [of i]) simp_all
    next
      case 2
      then obtain j where "j < length ts" "x \<in> f (ts ! j)" unfolding assms(2) by blast
      moreover from this 2(2) have "j \<noteq> i" by blast
      ultimately show ?thesis by (intro UN_I [of j]) simp_all
    qed
  next
    assume "x \<in> (\<Union>j < length ts. f (ts[i := t'] ! j))"
    then obtain j where j: "j < length ts" "x \<in> f (ts[i := t'] ! j)" by blast
    show "x \<in> D'"
    proof (cases "j = i")
      case True
      with j assms(1) new show ?thesis by simp
    next
      case False
      with j have "x \<in> f (ts ! j)" by simp
      with away [OF j(1) False] new j(1) assms(2) show ?thesis by blast
    qed
  qed
qed

text \<open>The queue, once the task of a coroutine has been taken from it and that coroutine is not fresh any more.\<close>

lemma advance_queue:
  assumes ok: "threads_ok m ts" and i: "i < length ts" and t: "thread_task (ts ! i) = Some t" "co_handles m = rest @ [t]"
    and t': "\<And>h b. t' \<noteq> Fresh h b"
  shows "distinct rest" and "\<forall>x \<in> set rest. \<exists>j < length ts. thread_task (ts[i := t'] ! j) = Some x"
    and "\<forall>j < length ts. \<forall>h b. ts[i := t'] ! j = Fresh h b \<longrightarrow> (Some h, None) \<in> set rest"
proof -
  note tasks = threads_okD(6,7) [OF ok]
  show "distinct rest" using tasks(1) t(2) by simp
  show "\<forall>x \<in> set rest. \<exists>j < length ts. thread_task (ts[i := t'] ! j) = Some x"
  proof
    fix x assume x: "x \<in> set rest"
    with tasks t(2) have "x \<noteq> t" by auto
    moreover obtain j where j: "j < length ts" "thread_task (ts ! j) = Some x" using tasks(2) t(2) x by auto
    ultimately have "j \<noteq> i" using t(1) by auto
    with j show "\<exists>j < length ts. thread_task (ts[i := t'] ! j) = Some x" by (intro exI [of _ j]) simp
  qed
  show "\<forall>j < length ts. \<forall>h b. ts[i := t'] ! j = Fresh h b \<longrightarrow> (Some h, None) \<in> set rest"
  proof (intro allI impI)
    fix j h b assume j: "j < length ts" "ts[i := t'] ! j = Fresh h b"
    then have j': "j \<noteq> i" "ts ! j = Fresh h b" using t' i by (auto simp: nth_list_update split: if_splits)
    have "thread_frames (ts ! i) \<inter> thread_frames (ts ! j) = {}" using threads_okD(5) [OF ok] i j(1) j'(1) by auto
    then have "t \<noteq> (Some h, None)" using t(1) j'(2) by (cases "ts ! i") auto
    moreover have "(Some h, None) \<in> set (co_handles m)" using threads_okD(8) [OF ok] j(1) j'(2) by blast
    ultimately show "(Some h, None) \<in> set rest" using t(2) by auto
  qed
qed

lemma apart_list_update:
  assumes "\<forall>a < length ts. \<forall>b < length ts. a \<noteq> b \<longrightarrow> A (ts ! a) \<inter> A (ts ! b) = {} \<and> B (ts ! a) \<inter> B (ts ! b) = {}"
    and "i < length ts" and "\<And>j. j < length ts \<Longrightarrow> j \<noteq> i \<Longrightarrow> A t \<inter> A (ts ! j) = {}"
    and "\<And>j. j < length ts \<Longrightarrow> j \<noteq> i \<Longrightarrow> B t \<inter> B (ts ! j) = {}"
  shows "\<forall>a < length ts. \<forall>b < length ts. a \<noteq> b \<longrightarrow>
    A (ts[i := t] ! a) \<inter> A (ts[i := t] ! b) = {} \<and> B (ts[i := t] ! a) \<inter> B (ts[i := t] ! b) = {}"
proof (intro allI impI)
  fix a b assume ab: "a < length ts" "b < length ts" "a \<noteq> b"
  then show "A (ts[i := t] ! a) \<inter> A (ts[i := t] ! b) = {} \<and> B (ts[i := t] ! a) \<inter> B (ts[i := t] ! b) = {}"
    using assms(1) [rule_format, OF ab] assms(2) assms(3,4) [of a] assms(3,4) [of b]
    by (cases "a = i"; cases "b = i") (simp_all add: Int_commute)
qed

lemma threads_ok_advance:
  assumes ok: "threads_ok m ts" and i: "i < length ts" and t: "thread_task (ts ! i) = Some t" "co_handles m = rest @ [t]"
    and conf: "confined (thread_frames (ts ! i)) (thread_futures (ts ! i)) (m\<lparr>co_handles := rest\<rparr>) (thread_frames t') (thread_futures t') m'"
    and t': "tidy m'" "thread_ok m' t'" "\<And>h b. t' \<noteq> Fresh h b"
  shows "threads_ok m' (ts[i := t'])"
proof -
  let ?F = "dom (st_frames (co_store m))" and ?F' = "dom (st_frames (co_store m'))"
  let ?P = "dom (st_futures (co_store m))" and ?P' = "dom (st_futures (co_store m'))"
  note F = threads_okD(3,4) [OF ok]
  have apart: "thread_frames (ts ! i) \<inter> thread_frames (ts ! j) = {}" "thread_futures (ts ! i) \<inter> thread_futures (ts ! j) = {}"
    if "j < length ts" "j \<noteq> i" for j using threads_okD(5) [OF ok] i that by auto
  have own: "thread_frames (ts ! j) \<subseteq> ?F - thread_frames (ts ! i)" "thread_futures (ts ! j) \<subseteq> ?P - thread_futures (ts ! i)"
    if "j < length ts" "j \<noteq> i" for j using F apart [OF that] that(1) by blast+
  have doms: "?F - thread_frames (ts ! i) = ?F' - thread_frames t'" "?P - thread_futures (ts ! i) = ?P' - thread_futures t'"
    and q: "co_handles m' = rest" using conf by (simp_all add: confined_def)
  have keep: "\<forall>h \<in> ?F - thread_frames (ts ! i). st_frames (co_store m') h = st_frames (co_store m) h \<and> ma_points m' h = ma_points m h"
    "\<forall>p \<in> ?P - thread_futures (ts ! i). st_futures (co_store m') p = st_futures (co_store m) p \<and> ma_objects m' p = ma_objects m p"
    using conf by (simp_all add: confined_def)
  have okj: "thread_ok m' (ts ! j)" if "j < length ts" "j \<noteq> i" for j
  proof (rule thread_ok_local [OF _ t'(1)])
    show "thread_ok m (ts ! j)" using threads_okD(2) [OF ok] that(1) by simp
  qed (use own [OF that] keep in blast)+
  note owns' = thread_ok_owns [OF t'(2)]
  show ?thesis
    unfolding threads_ok_def length_list_update q
  proof (intro conjI)
    show "tidy m'" by (rule t'(1))
    show "\<forall>j < length ts. thread_ok m' (ts[i := t'] ! j)" using okj t'(2) i by (auto simp: nth_list_update)
    show "?F' = (\<Union>j < length ts. thread_frames (ts[i := t'] ! j))"
      by (rule UN_list_update [OF i F(1) _ doms(1) owns'(1)]) (rule apart(1))
    show "?P' = (\<Union>j < length ts. thread_futures (ts[i := t'] ! j))"
      by (rule UN_list_update [OF i F(2) _ doms(2) owns'(2)]) (rule apart(2))
    show "\<forall>a < length ts. \<forall>b < length ts. a \<noteq> b \<longrightarrow> thread_frames (ts[i := t'] ! a) \<inter> thread_frames (ts[i := t'] ! b) = {}
        \<and> thread_futures (ts[i := t'] ! a) \<inter> thread_futures (ts[i := t'] ! b) = {}"
      by (rule apart_list_update [OF threads_okD(5) [OF ok] i]) (use own doms in blast)+
  qed (use advance_queue [OF ok i t t'(3)] in blast)+
qed

section \<open>Steps of the executor\<close>

definition thread_moves :: "thread \<Rightarrow> machine \<Rightarrow> thread \<Rightarrow> machine \<Rightarrow> bool" where
  "thread_moves t m t' m' \<longleftrightarrow> confined (thread_frames t) (thread_futures t) m (thread_frames t') (thread_futures t') m'
     \<and> tidy m' \<and> thread_ok m' t' \<and> (\<forall>h b. t' \<noteq> Fresh h b) \<and> rest_runs t = Suc (rest_runs t')
     \<and> (\<exists>l. ma_log m' = ma_log m @ l \<and> rest_emits t = l @ rest_emits t')"

lemma run_body_moves:
  assumes "allocates al" "live m h0 es" "\<not> isl (stack_eval es (eval b))"
    and "confined (thread_frames t) (thread_futures t) m0 (stack_frames h0 es) (stack_futures es) m" "ma_log m = ma_log m0"
    and "rest_runs t = Suc (pendings b + stack_pendings es (eval b))" "rest_emits t = emits b @ stack_emits es (eval b)"
  shows "\<exists>m' t'. co_run al (Executing (on_top h0 es) b) m = Some (Inr m') \<and> thread_moves t m0 t' m'"
proof -
  from run_body [OF assms(1-3)] obtain m' where run: "co_run al (Executing (on_top h0 es) b) m = Some (Inr m')"
    and cases: "run_ends m h0 es b m' \<or> run_parks m h0 es b m'" by blast
  from cases have "\<exists>t'. thread_moves t m0 t' m'"
  proof
    assume "run_ends m h0 es b m'"
    with assms confined_trans [OF assms(4)] have "thread_moves t m0 Gone m'" by (simp add: run_ends_def thread_moves_def)
    then show ?thesis ..
  next
    assume "run_parks m h0 es b m'"
    then obtain es' p void n r k l where w: "waiting_at m' h0 es' p void n r k" "ma_log m' = ma_log m @ l"
      "emits b @ stack_emits es (eval b) = l @ emits (k (awaited void r)) @ stack_emits es' (eval (k (awaited void r)))"
      "pendings b + stack_pendings es (eval b) = Suc (n + pendings (k (awaited void r)) + stack_pendings es' (eval (k (awaited void r))))"
      "stack_eval es (eval b) = stack_eval es' (eval (k (awaited void r)))"
      "confined (stack_frames h0 es) (stack_futures es) m (stack_frames h0 es') (insert p (stack_futures es')) m'"
      unfolding run_parks_def by blast
    have "tidy m'" using w(1) by (simp add: waiting_at_def live_def)
    with assms w confined_trans [OF assms(4) w(6)] have "thread_moves t m0 (Parked h0 es' p void n r k) m'"
      unfolding thread_moves_def by (intro conjI exI [of _ l]) simp_all
    then show ?thesis ..
  qed
  with run show ?thesis by blast
qed

lemma run_thread:
  assumes al: "allocates al" and ok: "thread_ok m t" and task: "thread_task t = Some x"
  shows "\<exists>m' t'. run_coroutine al x m = Inr m' \<and> thread_moves t m t' m'"
proof (cases t)
  case (Fresh h b)
  have "co_run al (Resuming h) m = co_run al (Executing (on_top h []) b) m" by (rule co_run_step) (use Fresh ok in simp_all)
  with run_body_moves [OF al, of m h "[]" b t m] Fresh ok task show ?thesis
    by (auto simp: run_coroutine_def run_task_def co_resume_def)
next
  case (Parked h0 es p void n r k)
  with ok have w: "waiting_at m h0 es p void n r k" "\<not> isl (stack_eval es (eval (k (awaited void r))))" by simp_all
  then obtain f where f: "st_futures (co_store m) p = Some f" "awaited_by void None (on_top h0 es) f" "ma_objects m p = Some (n, r)"
    "ma_points m (on_top h0 es) = Some (At_await p k)" by (auto simp: waiting_at_def)
  have x: "x = (Some (on_top h0 es), Some p)" using task Parked by simp
  show ?thesis
  proof (cases n)
    case (Suc n')
    let ?m = "m\<lparr>ma_objects := (ma_objects m)(p \<mapsto> (n', r))\<rparr>"
    note poll = poll_pending [OF w(1) [unfolded Suc]]
    have "run_coroutine al x m = Inr ?m"
      using f(1,3) Suc by (simp add: x run_coroutine_def run_task_def co_poll_def poll_wrapper_def fut_at_def)
    moreover have "tidy ?m" using poll(2) by (simp add: waiting_at_def live_def)
    with poll(2,3) w(2) have "thread_moves t m (Parked h0 es p void n' r k) ?m"
      unfolding thread_moves_def by (simp add: Parked Suc)
    ultimately show ?thesis by blast
  next
    case 0
    define g where "g = (case r of Inr v \<Rightarrow> if fu_void f then f else f\<lparr>fu_return := Some v\<rparr> | Inl e \<Rightarrow> f\<lparr>fu_exception := Some e\<rparr>)"
    have g: "fu_void g = fu_void f" "fu_self g = fu_self f" "fu_waiting g = fu_waiting f" "holds_result r g"
      using f(2) by (auto simp: g_def awaited_by_def split: sum.splits)
    let ?m = "m\<lparr>co_store := set_fut p g (co_store m)\<rparr>"
    have "co_poll p m = Inr (True, ?m)"
      using f(1,3) 0 by (cases r) (auto simp: co_poll_def poll_wrapper_def fut_at_def g_def set_fut_def fun_upd_idem)
    then have run: "run_coroutine al x m = co_resume al (on_top h0 es) ?m" by (simp add: x run_coroutine_def run_task_def)
    from deliver [OF w(1) f(1) g] obtain m1 where m1: "finish_await (on_top h0 es) p k ?m = Inr (Executing (on_top h0 es) (k (awaited void r)), m1)"
      "live m1 h0 es" "ma_log m1 = ma_log m"
      "confined (stack_frames h0 es) (insert p (stack_futures es)) m (stack_frames h0 es) (stack_futures es) m1" by blast
    have "co_run al (Resuming (on_top h0 es)) ?m = co_run al (Executing (on_top h0 es) (k (awaited void r))) m1"
      by (rule co_run_step) (use f(4) m1(1) in simp_all)
    with run_body_moves [OF al m1(2) w(2), of t m] m1(3,4) show ?thesis
      unfolding run by (auto simp: Parked 0 co_resume_def)
  qed
qed (use task in simp)

text \<open>The oldest task of the queue can be run, and is one of a coroutine that then has one run less to go.\<close>

lemma executor_run:
  assumes al: "allocates al" and ok: "threads_ok m ts" and pop: "pop_back (co_handles m) = Some (x, rest)"
  shows "\<exists>m' i t'. i < length ts \<and> run_coroutine al x (m\<lparr>co_handles := rest\<rparr>) = Inr m' \<and> threads_ok m' (ts[i := t'])
    \<and> thread_moves (ts ! i) (m\<lparr>co_handles := rest\<rparr>) t' m'"
proof -
  have q: "co_handles m = rest @ [x]" using pop by (auto simp: pop_back_def split: if_splits)
  then obtain i where i: "i < length ts" "thread_task (ts ! i) = Some x" using threads_okD(7) [OF ok] by auto
  have "thread_ok (m\<lparr>co_handles := rest\<rparr>) (ts ! i)"
    by (rule thread_ok_local [of m]) (use threads_okD(1,2) [OF ok] i(1) in \<open>auto simp: tidy_def\<close>)
  from run_thread [OF al this i(2)] obtain m' t' where m': "run_coroutine al x (m\<lparr>co_handles := rest\<rparr>) = Inr m'"
    "thread_moves (ts ! i) (m\<lparr>co_handles := rest\<rparr>) t' m'" by blast
  have "threads_ok m' (ts[i := t'])"
    by (rule threads_ok_advance [OF ok i q]) (use m'(2) in \<open>simp_all add: thread_moves_def\<close>)
  with m' i(1) show ?thesis by blast
qed

text \<open>An object is always one that a coroutine waits for.\<close>

lemma object_thread:
  assumes ok: "threads_ok m ts" and p: "ma_objects m p \<noteq> None"
  shows "\<exists>i h0 es void n r k. i < length ts \<and> ts ! i = Parked h0 es p void n r k"
proof -
  have "p \<in> dom (st_futures (co_store m))" using threads_okD(1) [OF ok] p by (auto simp: tidy_def)
  then obtain i where i: "i < length ts" "p \<in> thread_futures (ts ! i)" using threads_okD(4) [OF ok] by auto
  then obtain h0 es q void n r k where t: "ts ! i = Parked h0 es q void n r k" by (cases "ts ! i") auto
  have "waiting_at m h0 es q void n r k" using threads_okD(2) [OF ok] i(1) t by auto
  then have "p \<notin> stack_futures es" using p by (auto simp: waiting_at_def live_def)
  with i t show ?thesis by auto
qed

lemma executor_wake:
  assumes ok: "threads_ok m ts" and p: "ma_objects m p \<noteq> None" "Some p \<notin> snd ` set (co_handles m)"
  shows "\<exists>m'. register_future p m = Inr m' \<and> threads_ok m' ts \<and> ma_log m' = ma_log m \<and> length (co_handles m') = Suc (length (co_handles m))"
proof -
  from object_thread [OF ok p(1)] obtain i h0 es void n r k where t: "i < length ts" "ts ! i = Parked h0 es p void n r k" by blast
  then have "waiting_at m h0 es p void n r k" using threads_okD(2) [OF ok] by auto
  then obtain f where f: "st_futures (co_store m) p = Some f" "fu_self f = None" "fu_waiting f = Some (on_top h0 es)"
    by (auto simp: waiting_at_def awaited_by_def)
  let ?m = "m\<lparr>co_handles := (Some (on_top h0 es), Some p) # co_handles m\<rparr>"
  have "register_future p m = Inr ?m"
    using f by (simp add: register_future_def get_handle_def fut_at_def push_handle_def emplace_begin_def)
  moreover have "threads_ok ?m ts"
    unfolding threads_ok_def
  proof (intro conjI)
    show tidy: "tidy ?m" using threads_okD(1) [OF ok] by (simp add: tidy_def)
    show "\<forall>i < length ts. thread_ok ?m (ts ! i)"
    proof (intro allI impI)
      fix j assume "j < length ts"
      with threads_okD(2) [OF ok] have "thread_ok m (ts ! j)" by simp
      from thread_ok_local [OF this tidy] show "thread_ok ?m (ts ! j)" by simp
    qed
    have "(Some (on_top h0 es), Some p) \<notin> set (co_handles m)" using p(2) by (metis imageI snd_conv)
    then show "distinct (co_handles ?m)" using threads_okD(6) [OF ok] by simp
    have "thread_task (ts ! i) = Some (Some (on_top h0 es), Some p)" using t(2) by simp
    then show "\<forall>x \<in> set (co_handles ?m). \<exists>i < length ts. thread_task (ts ! i) = Some x" using threads_okD(7) [OF ok] t(1) by fastforce
    show "\<forall>i < length ts. \<forall>h b. ts ! i = Fresh h b \<longrightarrow> (Some h, None) \<in> set (co_handles ?m)" using threads_okD(8) [OF ok] by simp
    show "dom (st_frames (co_store ?m)) = (\<Union>i < length ts. thread_frames (ts ! i))" using threads_okD(3) [OF ok] by simp
    show "dom (st_futures (co_store ?m)) = (\<Union>i < length ts. thread_futures (ts ! i))" using threads_okD(4) [OF ok] by simp
  qed (rule threads_okD(5) [OF ok])
  ultimately show ?thesis by (intro exI [of _ ?m]) simp
qed

section \<open>Spawning\<close>

lemma spawn_handling_simps:
  "emits (spawn_with_exception_handling void b) = emits b" "pendings (spawn_with_exception_handling void b) = pendings b"
  "isl (eval (spawn_with_exception_handling void b)) \<longleftrightarrow> (\<exists>x. eval b = Inl (Other_exception x))"
proof -
  have "emits b' = [] \<and> pendings b' = 0 \<and> (isl (eval b') \<longleftrightarrow> (\<exists>x. eval b = Inl (Other_exception x)))"
    if "b' = (case awaited void (eval b) of Inl CancelException \<Rightarrow> Co_return 0 | Inl e \<Rightarrow> Co_throw e | Inr _ \<Rightarrow> Co_return 0)" for b'
    using that by (cases "eval b") (auto split: exn.splits)
  then show "emits (spawn_with_exception_handling void b) = emits b" "pendings (spawn_with_exception_handling void b) = pendings b"
    "isl (eval (spawn_with_exception_handling void b)) \<longleftrightarrow> (\<exists>x. eval b = Inl (Other_exception x))"
    by (simp_all add: spawn_with_exception_handling_def)
qed

lemma threads_ok_append:
  assumes ok: "threads_ok m ts" and "tidy m'" and old: "\<And>i. i < length ts \<Longrightarrow> thread_ok m' (ts ! i)" and first: "thread_ok m' (Fresh h b)"
    and off: "\<And>i. i < length ts \<Longrightarrow> h \<notin> thread_frames (ts ! i)"
    and "dom (st_frames (co_store m')) = insert h (dom (st_frames (co_store m)))" "dom (st_futures (co_store m')) = dom (st_futures (co_store m))"
    and q: "co_handles m' = (Some h, None) # co_handles m" "(Some h, None) \<notin> set (co_handles m)"
  shows "threads_ok m' (ts @ [Fresh h b])"
  unfolding threads_ok_def
proof (intro conjI)
  let ?ts = "ts @ [Fresh h b]"
  have nth: "?ts ! i = (if i < length ts then ts ! i else Fresh h b)" if "i < Suc (length ts)" for i
    using that by (auto simp: nth_append less_Suc_eq)
  have UN: "(\<Union>i < length ?ts. f (?ts ! i)) = (\<Union>i < length ts. f (ts ! i)) \<union> f (Fresh h b)" for f :: "thread \<Rightarrow> 'a set"
    by (simp add: lessThan_Suc nth_append Un_commute)
  show "dom (st_frames (co_store m')) = (\<Union>i < length ?ts. thread_frames (?ts ! i))"
    unfolding UN assms(6) threads_okD(3) [OF ok] by simp
  show "dom (st_futures (co_store m')) = (\<Union>i < length ?ts. thread_futures (?ts ! i))"
    unfolding UN assms(7) threads_okD(4) [OF ok] by simp
  show "\<forall>i < length ?ts. thread_ok m' (?ts ! i)" using nth old first by simp
  show "\<forall>i < length ?ts. \<forall>j < length ?ts. i \<noteq> j \<longrightarrow> thread_frames (?ts ! i) \<inter> thread_frames (?ts ! j) = {}
      \<and> thread_futures (?ts ! i) \<inter> thread_futures (?ts ! j) = {}"
    using threads_okD(5) [OF ok] off nth by simp
  show "distinct (co_handles m')" using threads_okD(6) [OF ok] q by simp
  show "\<forall>x \<in> set (co_handles m'). \<exists>i < length ?ts. thread_task (?ts ! i) = Some x"
  proof
    fix x assume "x \<in> set (co_handles m')"
    then consider "x = (Some h, None)" | "x \<in> set (co_handles m)" by (auto simp: q)
    then show "\<exists>i < length ?ts. thread_task (?ts ! i) = Some x"
    proof cases
      case 1
      then show ?thesis by (intro exI [of _ "length ts"]) simp
    next
      case 2
      then obtain i where "i < length ts" "thread_task (ts ! i) = Some x" using threads_okD(7) [OF ok] by blast
      then show ?thesis by (intro exI [of _ i]) (simp add: nth_append)
    qed
  qed
  show "\<forall>i < length ?ts. \<forall>h' b'. ?ts ! i = Fresh h' b' \<longrightarrow> (Some h', None) \<in> set (co_handles m')"
    using threads_okD(8) [OF ok] nth by (simp add: q)
qed (rule \<open>tidy m'\<close>)

lemma executor_spawn:
  assumes al: "allocates al" and ok: "threads_ok m ts" and b: "\<And>x. eval b \<noteq> Inl (Other_exception x)"
  shows "\<exists>m' h. spawn_body al (void, b) m = Inr m' \<and> threads_ok m' (ts @ [Fresh h (spawn_with_exception_handling void b)])
    \<and> ma_log m' = ma_log m \<and> length (co_handles m') = Suc (length (co_handles m))"
proof -
  note tidy = threads_okD(1) [OF ok]
  define h where "h = al_frame al (co_store m)"
  define p where "p = al_future al (co_store m)"
  from allocates_fresh [OF al tidy] have new: "st_frames (co_store m) h = None" "st_futures (co_store m) p = None" by (simp_all add: h_def p_def)
  let ?b = "spawn_with_exception_handling void b" and ?fr = "\<lparr>fr_void = True, fr_future = None, fr_done = False\<rparr>"
  define st where "st = drop_fut p (set_frame h ?fr (co_store m))"
  have st: "st_frames st = (st_frames (co_store m))(h \<mapsto> ?fr)" "st_futures st = st_futures (co_store m)"
    using new(2) by (auto simp: st_def drop_fut_def fun_upd_idem)
  define m' where "m' = m\<lparr>ma_points := (ma_points m)(h \<mapsto> At_start ?b), co_store := st, co_handles := (Some h, None) # co_handles m\<rparr>"
  have "tidy m'" using tidy by (simp add: tidy_def m'_def st)
  have off: "h \<notin> thread_frames (ts ! i)" if "i < length ts" for i
    using new(1) threads_okD(3) [OF ok] that by auto
  have first: "thread_ok m' (Fresh h ?b)" using \<open>tidy m'\<close> b spawn_handling_simps(3) [of void b] by (auto simp: live_def m'_def st)
  have old: "thread_ok m' (ts ! i)" if "i < length ts" for i
  proof (rule thread_ok_local [OF _ \<open>tidy m'\<close>])
    show "thread_ok m (ts ! i)" using threads_okD(2) [OF ok] that by simp
  qed (use off [OF that] in \<open>auto simp: m'_def st\<close>)
  have "(Some h, None) \<notin> set (co_handles m)"
  proof
    assume "(Some h, None) \<in> set (co_handles m)"
    then obtain i where "i < length ts" "thread_task (ts ! i) = Some (Some h, None)" using threads_okD(7) [OF ok] by blast
    with off [of i] show False by (cases "ts ! i") auto
  qed
  then have "threads_ok m' (ts @ [Fresh h ?b])"
    using threads_ok_append [OF ok \<open>tidy m'\<close> old first off] by (simp add: m'_def st)
  moreover have "spawn_body al (void, b) m = Inr m'"
    unfolding spawn_body_def prod.case h_def [symmetric] p_def [symmetric]
    by (simp add: Let_def spawn_coroutine_def get_return_object_def frame_at_def Future_ctor_def Runtime_spawn_def spawn_impl_def
        spawn_push_def spawn_drop_def get_handle_def fut_at_def Future_dtor_def push_handle_def emplace_begin_def set_frame_def set_fut_def
        drop_fut_def st_def m'_def)
  ultimately show ?thesis by (intro exI [of _ m'] exI [of _ h]) (simp add: m'_def)
qed

end
