(* ===== verification/Coroutine_Properties.thy ===== *)
theory Coroutine_Properties
  imports Coroutine_Executor
begin

text \<open>What coroutines on the executor do, compared with the meaning of their bodies.\<close>

section \<open>The invariant\<close>

text \<open>Each coroutine emits on a channel of its own, and only a cancellation leaves it as an exception.\<close>

definition own_channels :: "(bool \<times> body) list \<Rightarrow> bool" where
  "own_channels bs \<longleftrightarrow> (\<forall>i < length bs. list_all (\<lambda>x. fst x = i) (emits (snd (bs ! i))))"

definition none_uncaught :: "(bool \<times> body) list \<Rightarrow> bool" where
  "none_uncaught bs \<longleftrightarrow> list_all (\<lambda>b. case eval (snd b) of Inl (Other_exception x) \<Rightarrow> False | _ \<Rightarrow> True) bs"

definition emitted :: "machine \<Rightarrow> nat \<Rightarrow> (nat \<times> nat) list" where
  "emitted m i = filter (\<lambda>x. fst x = i) (ma_log m)"

definition step_bound :: "(bool \<times> body) list \<Rightarrow> nat" where
  "step_bound bs = (\<Sum>b \<leftarrow> bs. 2 * pendings (snd b) + 1)"

definition runs_left :: "thread list \<Rightarrow> nat" where
  "runs_left ts = sum_list (map rest_runs ts)"

definition executor_inv :: "(bool \<times> body) list \<Rightarrow> machine \<Rightarrow> thread list \<Rightarrow> bool" where
  "executor_inv bs m ts \<longleftrightarrow> threads_ok m ts \<and> length ts = length bs
     \<and> (\<forall>i < length bs. emits (snd (bs ! i)) = emitted m i @ rest_emits (ts ! i))
     \<and> (\<forall>x \<in> set (ma_log m). fst x < length bs)
     \<and> 2 * runs_left ts \<le> length (co_handles m) + step_bound bs"

lemma runs_left_update: "i < length ts \<Longrightarrow> runs_left (ts[i := t]) + rest_runs (ts ! i) = runs_left ts + rest_runs t"
  unfolding runs_left_def
proof (induction ts arbitrary: i)
  case (Cons a ts)
  then show ?case by (cases i) (auto simp: algebra_simps)
qed simp

text \<open>A coroutine with a task in the queue has a run to go.\<close>

lemma queue_length:
  assumes ok: "threads_ok m ts"
  shows "length (co_handles m) \<le> runs_left ts"
proof -
  have "length (co_handles m) = card (Some ` set (co_handles m))"
    using threads_okD(6) [OF ok] by (simp add: card_image distinct_card)
  also have "\<dots> \<le> card ((\<lambda>i. thread_task (ts ! i)) ` {i. i < length ts \<and> thread_task (ts ! i) \<noteq> None})"
  proof (rule card_mono)
    show "Some ` set (co_handles m) \<subseteq> (\<lambda>i. thread_task (ts ! i)) ` {i. i < length ts \<and> thread_task (ts ! i) \<noteq> None}"
    proof
      fix y assume "y \<in> Some ` set (co_handles m)"
      then obtain i where "i < length ts" "thread_task (ts ! i) = y" "y \<noteq> None" using threads_okD(7) [OF ok] by blast
      then show "y \<in> (\<lambda>i. thread_task (ts ! i)) ` {i. i < length ts \<and> thread_task (ts ! i) \<noteq> None}" by blast
    qed
  qed simp
  also have "\<dots> \<le> card {i. i < length ts \<and> thread_task (ts ! i) \<noteq> None}" by (rule card_image_le) simp
  also have "\<dots> = (\<Sum>i \<in> {i. i < length ts \<and> thread_task (ts ! i) \<noteq> None}. 1)" by simp
  also have "\<dots> \<le> (\<Sum>i \<in> {i. i < length ts \<and> thread_task (ts ! i) \<noteq> None}. rest_runs (ts ! i))"
  proof (rule sum_mono)
    fix i assume "i \<in> {i. i < length ts \<and> thread_task (ts ! i) \<noteq> None}"
    then show "1 \<le> rest_runs (ts ! i)" by (cases "ts ! i") auto
  qed
  also have "\<dots> \<le> (\<Sum>i < length ts. rest_runs (ts ! i))" by (rule sum_mono2) auto
  also have "\<dots> = runs_left ts" by (simp add: runs_left_def sum_list_sum_nth atLeast0LessThan)
  finally show ?thesis .
qed

lemma executor_inv_step:
  assumes al: "allocates al" and own: "own_channels bs" and inv: "executor_inv bs m ts" and step: "executor_step al m m'"
  shows "\<exists>ts'. executor_inv bs m' ts' \<and> 2 * runs_left ts + length (co_handles m') = Suc (2 * runs_left ts' + length (co_handles m))"
proof -
  from inv have ok: "threads_ok m ts" and len: "length ts = length bs"
    and em: "\<And>i. i < length bs \<Longrightarrow> emits (snd (bs ! i)) = emitted m i @ rest_emits (ts ! i)"
    and ch: "\<forall>x \<in> set (ma_log m). fst x < length bs" and left: "2 * runs_left ts \<le> length (co_handles m) + step_bound bs"
    by (auto simp: executor_inv_def)
  show ?thesis
  proof (cases rule: executor_step.cases [OF step])
    case (1 m0 x rest m1)
    with executor_run [OF al ok, of x rest] obtain i t' where i: "i < length ts" "threads_ok m' (ts[i := t'])"
      "thread_moves (ts ! i) (m\<lparr>co_handles := rest\<rparr>) t' m'" by auto
    then obtain l where l: "ma_log m' = ma_log m @ l" "rest_emits (ts ! i) = l @ rest_emits t'" "rest_runs (ts ! i) = Suc (rest_runs t')"
      "co_handles m' = rest" by (auto simp: thread_moves_def confined_def)
    have "list_all (\<lambda>x. fst x = i) (emits (snd (bs ! i)))" using own i(1) len by (simp add: own_channels_def)
    then have chl: "list_all (\<lambda>x. fst x = i) l" using em [of i] l(2) i(1) len by simp
    then have "filter (\<lambda>x. fst x = j) l = (if j = i then l else [])" for j by (induction l) auto
    then have "emits (snd (bs ! j)) = emitted m' j @ rest_emits (ts[i := t'] ! j)" if "j < length bs" for j
      using em [OF that] l(1,2) i(1) by (cases "j = i") (auto simp: emitted_def)
    moreover have "\<forall>x \<in> set (ma_log m'). fst x < length bs" using ch chl l(1) i(1) len by (auto simp: list_all_iff)
    moreover have "Suc (runs_left (ts[i := t'])) = runs_left ts" using runs_left_update [OF i(1), of t'] l(3) by simp
    moreover have "length (co_handles m) = Suc (length rest)" using 1 by (auto simp: pop_back_def split: if_splits)
    ultimately show ?thesis using i(2) len left l(4) by (intro exI [of _ "ts[i := t']"]) (auto simp: executor_inv_def)
  next
    case (2 m0 p m1)
    with executor_wake [OF ok, of p] have "threads_ok m' ts" "ma_log m' = ma_log m" "length (co_handles m') = Suc (length (co_handles m))" by auto
    then show ?thesis using len em ch left by (intro exI [of _ ts]) (auto simp: executor_inv_def emitted_def)
  qed
qed

lemma executor_inv_spawn:
  assumes al: "allocates al" and own: "own_channels (bs @ [(void, b)])" and caught: "none_uncaught (bs @ [(void, b)])"
    and inv: "executor_inv bs m ts" and spawn: "spawn_body al (void, b) m = Inr m'"
  shows "\<exists>ts'. executor_inv (bs @ [(void, b)]) m' ts'"
proof -
  from inv have ok: "threads_ok m ts" and len: "length ts = length bs"
    and em: "\<And>i. i < length bs \<Longrightarrow> emits (snd (bs ! i)) = emitted m i @ rest_emits (ts ! i)"
    and ch: "\<forall>x \<in> set (ma_log m). fst x < length bs" and left: "2 * runs_left ts \<le> length (co_handles m) + step_bound bs"
    by (auto simp: executor_inv_def)
  have "eval b \<noteq> Inl (Other_exception x)" for x using caught by (auto simp: none_uncaught_def)
  from executor_spawn [OF al ok this, of void] spawn obtain h where h: "threads_ok m' (ts @ [Fresh h (spawn_with_exception_handling void b)])"
    "ma_log m' = ma_log m" "length (co_handles m') = Suc (length (co_handles m))" by auto
  have "emitted m (length bs) = []" using ch by (auto simp: emitted_def filter_empty_conv)
  then have "emits (snd ((bs @ [(void, b)]) ! i)) = emitted m' i @ rest_emits ((ts @ [Fresh h (spawn_with_exception_handling void b)]) ! i)"
    if "i < Suc (length bs)" for i
    using em that len h(2) by (cases "i = length bs") (auto simp: nth_append emitted_def spawn_handling_simps less_Suc_eq)
  with h len ch left show ?thesis
    by (intro exI [of _ "ts @ [Fresh h (spawn_with_exception_handling void b)]"])
      (auto simp: executor_inv_def runs_left_def step_bound_def spawn_handling_simps less_Suc_eq)
qed

lemma spawned_before:
  assumes "own_channels (bs @ [b])" and "none_uncaught (bs @ [b])"
  shows "own_channels bs" and "none_uncaught bs"
proof -
  have "list_all (\<lambda>x. fst x = i) (emits (snd (bs ! i)))" if "i < length bs" for i
    using assms(1) that unfolding own_channels_def by (metis length_append_singleton less_Suc_eq nth_append)
  then show "own_channels bs" by (simp add: own_channels_def)
  show "none_uncaught bs" using assms(2) by (simp add: none_uncaught_def)
qed

lemma executor_reach_inv:
  assumes al: "allocates al"
  shows "executor_reach al bs m \<Longrightarrow> own_channels bs \<Longrightarrow> none_uncaught bs \<Longrightarrow> \<exists>ts. executor_inv bs m ts"
proof (induction rule: executor_reach.induct)
  case (ex_start m)
  then show ?case by (intro exI [of _ "[]"]) (auto simp: executor_inv_def threads_ok_def tidy_def runs_left_def)
next
  case (ex_spawn bs m b m')
  obtain void c where b: "b = (void, c)" by (cases b)
  obtain ts where "executor_inv bs m ts" using ex_spawn.IH spawned_before [OF ex_spawn.prems] by blast
  with executor_inv_spawn [OF al _ _ this] ex_spawn.prems ex_spawn.hyps b show ?case by blast
next
  case (ex_step bs m m')
  then obtain ts where "executor_inv bs m ts" by blast
  with executor_inv_step [OF al ex_step.prems(1) this ex_step.hyps(2)] show ?case by blast
qed

text \<open>A run that the queue asks for never fails, and when nothing can happen every coroutine is gone.\<close>

lemma executor_inv_runs:
  assumes al: "allocates al" and inv: "executor_inv bs m ts" and t: "pop_back (co_handles m) = Some (t, rest)"
  shows "\<exists>m'. run_coroutine al t (m\<lparr>co_handles := rest\<rparr>) = Inr m'"
  using executor_run [OF al _ t] inv unfolding executor_inv_def by blast

lemma executor_inv_bound:
  assumes al: "allocates al" and own: "own_channels bs"
  shows "executor_inv bs m ts \<Longrightarrow> (executor_step al ^^ n) m m' \<Longrightarrow>
    \<exists>ts'. executor_inv bs m' ts' \<and> n + 2 * runs_left ts' + length (co_handles m) = 2 * runs_left ts + length (co_handles m')"
proof (induction n arbitrary: m')
  case (Suc n)
  then obtain m1 where m1: "(executor_step al ^^ n) m m1" "executor_step al m1 m'" by auto
  from Suc.IH [OF Suc.prems(1) m1(1)] obtain ts1 where ts1: "executor_inv bs m1 ts1"
    "n + 2 * runs_left ts1 + length (co_handles m) = 2 * runs_left ts + length (co_handles m1)" by blast
  from executor_inv_step [OF al own ts1(1) m1(2)] ts1(2) show ?case by fastforce
qed auto

lemma executor_steps_bound:
  assumes al: "allocates al" and own: "own_channels bs" and inv: "executor_inv bs m ts" and n: "(executor_step al ^^ n) m m'"
  shows "n \<le> step_bound bs"
proof -
  from executor_inv_bound [OF al own inv n] obtain ts' where ts': "executor_inv bs m' ts'"
    "n + 2 * runs_left ts' + length (co_handles m) = 2 * runs_left ts + length (co_handles m')" by blast
  have "length (co_handles m') \<le> runs_left ts'" using ts'(1) queue_length by (simp add: executor_inv_def)
  with ts'(2) inv show ?thesis by (simp add: executor_inv_def)
qed

lemma thread_moves_on:
  assumes al: "allocates al" and inv: "executor_inv bs m ts" and i: "i < length ts" "ts ! i \<noteq> Gone"
  shows "\<exists>m'. executor_step al m m'"
proof (cases "co_handles m = []")
  case False
  then obtain t rest where "pop_back (co_handles m) = Some (t, rest)" by (auto simp: pop_back_def)
  with executor_inv_runs [OF al inv this] show ?thesis by (blast intro: ex_run)
next
  case True
  have ok: "threads_ok m ts" using inv by (simp add: executor_inv_def)
  have "ts ! i \<noteq> Fresh h b" for h b using threads_okD(8) [OF ok] i(1) True by auto
  then obtain h0 es p void n r k where "ts ! i = Parked h0 es p void n r k" using i(2) by (cases "ts ! i") auto
  then have "waiting_at m h0 es p void n r k" using threads_okD(2) [OF ok] i(1) by auto
  then have "ma_objects m p \<noteq> None" by (auto simp: waiting_at_def)
  moreover have "Some p \<notin> snd ` set (co_handles m)" using True by simp
  ultimately show ?thesis using executor_wake [OF ok, of p] by (blast intro: ex_wake)
qed

lemma executor_inv_stuck:
  assumes al: "allocates al" and inv: "executor_inv bs m ts" and stuck: "\<nexists>m'. executor_step al m m'"
  shows "\<forall>i < length bs. emitted m i = emits (snd (bs ! i))" and "co_handles m = []"
    and "st_frames (co_store m) = (\<lambda>_. None)" and "st_futures (co_store m) = (\<lambda>_. None)"
proof -
  have ok: "threads_ok m ts" and len: "length ts = length bs" using inv by (simp_all add: executor_inv_def)
  have gone: "ts ! i = Gone" if "i < length ts" for i using thread_moves_on [OF al inv that] stuck by blast
  then show "\<forall>i < length bs. emitted m i = emits (snd (bs ! i))" using inv len by (simp add: executor_inv_def)
  have "runs_left ts = 0" using gone by (simp add: runs_left_def sum_list_sum_nth)
  then show "co_handles m = []" using queue_length [OF ok] by simp
  have "dom (st_frames (co_store m)) = {}" "dom (st_futures (co_store m)) = {}"
    using threads_okD(3,4) [OF ok] gone by simp_all
  then show "st_frames (co_store m) = (\<lambda>_. None)" "st_futures (co_store m) = (\<lambda>_. None)" by simp_all
qed

lemma executor_reach_steps: "(executor_step al)\<^sup>*\<^sup>* m m' \<Longrightarrow> executor_reach al bs m \<Longrightarrow> executor_reach al bs m'"
  by (induction rule: rtranclp_induct) (auto intro: executor_reach.ex_step)

section \<open>The property\<close>

text \<open>
  C1. Coroutines behave like the ordinary functions they look like, and all of them finish. For any
  spawned coroutines, nested to any depth and awaiting any future objects, whatever the order in
  which the objects become ready: what each coroutine has emitted is always a prefix of what its
  body emits when \<open>co_await\<close> is read as a call; no task of the queue ever
  fails, so no dangling frame or future is ever touched; at most twice as many steps as there
  are pending polls, and one for each coroutine, can be taken; and once none can, every coroutine has
  emitted everything, and no frame and no future is left. It is assumed that
  only a cancellation leaves a spawned coroutine as an exception, and that each coroutine emits under its own number.
\<close>

theorem coroutines_run_as_calls:
  assumes "allocates al" and "executor_reach al bs m" and "own_channels bs" and "none_uncaught bs"
  shows "(\<forall>i < length bs. \<exists>rest. emits (snd (bs ! i)) = emitted m i @ rest)
    \<and> (\<forall>t rest. pop_back (co_handles m) = Some (t, rest) \<longrightarrow> (\<exists>m'. run_coroutine al t (m\<lparr>co_handles := rest\<rparr>) = Inr m'))
    \<and> (\<forall>n m'. (executor_step al ^^ n) m m' \<longrightarrow> n \<le> step_bound bs)
    \<and> ((\<nexists>m'. executor_step al m m') \<longrightarrow> (\<forall>i < length bs. emitted m i = emits (snd (bs ! i))) \<and> co_handles m = []
         \<and> st_frames (co_store m) = (\<lambda>_. None) \<and> st_futures (co_store m) = (\<lambda>_. None))"
proof -
  from executor_reach_inv [OF assms] obtain ts where inv: "executor_inv bs m ts" by blast
  have "\<forall>i < length bs. \<exists>rest. emits (snd (bs ! i)) = emitted m i @ rest" using inv by (auto simp: executor_inv_def)
  then show ?thesis
    using executor_inv_runs [OF assms(1) inv] executor_steps_bound [OF assms(1,3) inv] executor_inv_stuck [OF assms(1) inv] by blast
qed

text \<open>
  Two coroutines: one emits, awaits a nested coroutine that is pending twice, and emits what it
  gets; the other emits and is cancelled. An allocator that gives the least free address.
\<close>

definition demo_bodies :: "(bool \<times> body) list" where
  "demo_bodies =
     [(False, Co_emit 0 1 (Co_await False (Co_await_object False 2 (Inr 5) (\<lambda>r. case r of Inr v \<Rightarrow> Co_return (v + 1) | Inl e \<Rightarrow> Co_throw e))
         (\<lambda>r. case r of Inr v \<Rightarrow> Co_emit 0 v (Co_return v) | Inl e \<Rightarrow> Co_throw e))),
      (True, Co_emit 1 7 (Co_throw CancelException))]"

definition least_free :: allocator where
  "least_free = \<lparr>al_frame = \<lambda>st. LEAST h. st_frames st h = None, al_future = \<lambda>st. LEAST p. st_futures st p = None\<rparr>"

lemma least_unused: "finite (dom f) \<Longrightarrow> f (LEAST a. f a = None) = None" for f :: "nat \<Rightarrow> 'a option"
  using ex_new_if_finite [OF infinite_UNIV_nat, of "dom f"] by (auto intro: LeastI simp: dom_def)

lemma least_free_allocates: "allocates least_free"
  by (simp add: allocates_def least_free_def least_unused)

lemma demo_ok: "own_channels demo_bodies" "none_uncaught demo_bodies"
  by (auto simp: own_channels_def none_uncaught_def demo_bodies_def less_Suc_eq)

lemma executor_spawns:
  assumes "allocates al" and "own_channels bs" and "none_uncaught bs"
  shows "\<exists>m. executor_reach al bs m"
  using assms(2,3)
proof (induction bs rule: rev_induct)
  case Nil
  have "executor_reach al [] (undefined\<lparr>co_handles := [], co_store := \<lparr>st_futures = \<lambda>_. None, st_frames = \<lambda>_. None\<rparr>,
    ma_objects := \<lambda>_. None, ma_log := []\<rparr>)" by (rule executor_reach.ex_start) simp_all
  then show ?case by blast
next
  case (snoc b bs)
  note bs = spawned_before [OF snoc.prems]
  from snoc.IH [OF bs] obtain m where m: "executor_reach al bs m" by blast
  from executor_reach_inv [OF assms(1) m bs] obtain ts where ok: "threads_ok m ts" by (auto simp: executor_inv_def)
  obtain void c where b: "b = (void, c)" by (cases b)
  have "eval c \<noteq> Inl (Other_exception x)" for x using snoc.prems(2) b by (auto simp: none_uncaught_def)
  from executor_spawn [OF assms(1) ok this] m b show ?case by (blast intro: executor_reach.ex_spawn)
qed

theorem coroutines_run_as_calls_witness:
  "\<exists>m. executor_reach least_free demo_bodies m \<and> emitted m 0 = [(0, 1), (0, 6)] \<and> emitted m 1 = [(1, 7)]
     \<and> st_frames (co_store m) = (\<lambda>_. None) \<and> (\<nexists>m'. executor_step least_free m m')"
proof -
  note run = coroutines_run_as_calls [OF least_free_allocates _ demo_ok]
  from executor_spawns [OF least_free_allocates demo_ok] obtain m0 where m0: "executor_reach least_free demo_bodies m0" by blast
  from bounded_runs_stop [OF run [OF m0, THEN conjunct2, THEN conjunct2, THEN conjunct1]]
  obtain m where m: "(executor_step least_free)\<^sup>*\<^sup>* m0 m" "\<nexists>m'. executor_step least_free m m'" by (elim exE conjE)
  have reach: "executor_reach least_free demo_bodies m" by (rule executor_reach_steps [OF m(1) m0])
  from run [OF reach, THEN conjunct2, THEN conjunct2, THEN conjunct2, rule_format, OF m(2)]
  have e: "\<forall>i < length demo_bodies. emitted m i = emits (snd (demo_bodies ! i))" and f: "st_frames (co_store m) = (\<lambda>_. None)"
    by - (elim conjE, assumption)+
  have "emitted m 0 = [(0, 1), (0, 6)]" "emitted m 1 = [(1, 7)]"
    using e [rule_format, of 0] e [rule_format, of 1] by (simp_all add: demo_bodies_def)
  with reach f m(2) show ?thesis by (intro exI conjI)
qed

end
