(* ===== verification/Spec2Isabelle.thy ===== *)
theory Spec2Isabelle
  imports Time_Refinement Time_Sleep Registry_Properties Blocking_Shutdown Runtime_Properties Runtime_Shutdown Net_Properties
    Fs_Properties Io_Properties Http_Properties Server_Properties Sync_Properties Task_Properties
    Coroutine_Properties Xyco_Format
begin

text \<open>
  Verification of xyco, a C++20 coroutine library: an executor that runs coroutines on worker
  threads, and timers, blocking tasks, TCP streams, files and channels that coroutines can await.
  Paths are relative to the root of the sources.

  \<^bold>\<open>The parts and how they work together.\<close> A coroutine is called and gives a \<open>Future\<close>. Awaiting
  it links the two coroutines. At the end of a chain of awaits is a future object with a
  \<open>poll\<close> function. When it is not ready, it registers an \<open>Event\<close> with a \<open>Registry\<close>: the timing
  wheel, epoll, io_uring or the pool for blocking calls. A worker of the runtime runs the
  coroutines of its ready queues, and then lets the \<open>Driver\<close> ask every registry of its thread for
  the events that happened (\<open>select\<close>). Each of them puts the coroutine of its future back in a
  ready queue (\<open>wake\<close>), which polls again. Streams, files, channels, \<open>join\<close>, \<open>select\<close> and
  \<open>timeout\<close> are built from these, and the programs, an HTTP server, an echo server and a
  demonstration, from all of them.

  \<^bold>\<open>Conventions.\<close> A call that may throw or run into undefined behaviour has an \<open>outcome\<close>
  (\<open>Xyco_Prelude\<close>), whose left side says which; \<open>utils::Result\<close> is a sum with the error on the
  left (\<open>Xyco_Error\<close>). Objects that are shared have addresses: events in a heap (\<open>Xyco_Event\<close>),
  futures and frames in a store (\<open>Future_Store\<close>). What the kernel, the C library, liburing,
  \<open>std::filesystem\<close> and the clock do is an argument of the definitions, and so are, outside \<open>Coroutine_Machine\<close>, the
  bodies of coroutines.
  A critical section is one atomic operation; threads interleave between them. Loops that may not
  end are partial functions, and the theorems about them say that they end.

  \<^bold>\<open>Theories.\<close>
  \<^item> \<open>Xyco_Prelude\<close>, \<open>Xyco_Error\<close>, \<open>Xyco_Event\<close>: outcomes and their sequencing, queues (the locale
    \<open>fifo_queue\<close>, for \<open>std::queue\<close> and for the vector of the ready queue), errors
    (\<open>src/utils/error.cc\<close>, \<open>src/utils/panic.cc\<close>), events, and the locale \<open>event_registry\<close>: what the
    driver relies on in a registry (\<open>include/xyco/runtime/registry.ccm\<close>). Registering adds the event to
    the tracked ones; \<open>select\<close> moves tracked events to the batch, each once, and only such whose
    future may be woken.
  \<^item> \<open>Time_Wheel\<close>, \<open>Time_Wheel_Proofs\<close>, \<open>Time_Registry\<close>, \<open>Time_Properties\<close>, \<open>Time_Refinement\<close>, \<open>Time_Sleep\<close>: the hierarchical wheel
    (\<open>src/time/wheel.cc\<close>), the clock, the registry (\<open>src/time/registry.cc\<close>) and \<open>sleep\<close>. The cursors
    are the base-60 digits of one number; the loops are additions with carry. No event is lost or
    doubled; with whole milliseconds between the calls exactly the due events are put out, and over every
    sequence of calls the wheel refines an abstract timer queue, exceptions included; otherwise
    an event is early by less than a millisecond and late by less than one per call. After nine
    days the wheel throws, and with calls less than a millisecond apart it stands still. A sleep is followed
    from its future through the driver and the wheel to the ready queue and back, for any reading of the clock, with
    the bounds on how early and how late it is woken.
  \<^item> \<open>Io_State\<close>, \<open>Epoll_Registry\<close>, \<open>Uring_Registry\<close>, \<open>Blocking_Registry\<close>, \<open>Blocking_Proofs\<close>,
    \<open>Blocking_Shutdown\<close>, \<open>Registry_Object\<close>, \<open>Registry_Properties\<close>: the other registries (\<open>src/io/epoll/registry.cc\<close>,
    \<open>src/io/io_uring/registry.cc\<close>, \<open>src/task/registry.cc\<close>), each an interpretation of \<open>event_registry\<close>,
    and their sum, over which the virtual calls dispatch. Registering and selecting round trip; the pool
    is a state machine per worker, loses no task and comes to rest with every result there; with its condition
    variable taken apart, its destructor can hang, in exactly one way.
  \<^item> \<open>Future_Store\<close>, \<open>Runtime_Core\<close>, \<open>Runtime_Proofs\<close>, \<open>Runtime_Properties\<close>, \<open>Runtime_Shutdown\<close>: futures, promises and
    awaiting (\<open>src/runtime/future.cc\<close>), ready queues, workers, driver, builder and launch
    (\<open>src/runtime/core.cc\<close>, \<open>src/runtime/driver.cc\<close>, \<open>src/runtime/runtime.cc\<close>). Pointers between frames and
    futures do not dangle, unless a future with a coroutine is assigned another one; results and exceptions reach the awaiter; cancelling reaches the end of
    every chain; a round of the driver moves events to the ready queue without loss; the
    client lemmas are proved once in \<open>event_registry\<close>. The worker threads are followed from their start
    through the launch barrier to their join: destroying a runtime ends, and no step of it waits for a spurious wakeup.
  \<^item> \<open>Coroutine_Machine\<close>, \<open>Coroutine_Proofs\<close>, \<open>Coroutine_Executor\<close>, \<open>Coroutine_Properties\<close>: coroutine bodies as programs,
    what the compiler makes of them over the members of \<open>include/xyco/runtime/future.ccm\<close>, and the executor
    that runs any number of them (\<open>spawn_impl\<close>, \<open>spawn_with_exception_handling\<close>, \<open>Worker::resume\<close>). The frames of a
    coroutine and of those it awaits are a stack linked through the store; running it keeps to its own frames and futures. Read as ordinary
    calls, the bodies say what is observed, in every interleaving; every run ends, and leaves no frame behind.
  \<^item> \<open>Xyco_Format\<close>: the formatters of log lines. The line of an epoll event gives its flags, interest and
    descriptor back; only the line of an io_uring event with an address can fail.
  \<^item> \<open>Net_Socket\<close>, \<open>Net_Epoll\<close>, \<open>Net_Uring\<close>, \<open>Net_Properties\<close>: addresses, sockets and TCP over both
    backends (\<open>src/net/\<close>), as poll functions over the runtime core. A pending operation has its
    event armed; descriptors have one owner.
  \<^item> \<open>Fs_File\<close>, \<open>Fs_Properties\<close>: files over both backends (\<open>src/fs/\<close>): the flags of \<open>open\<close> for
    all options, the equality of the two copies, and the offset of io_uring reads.
  \<^item> \<open>Io_Buffer\<close>, \<open>Io_Properties\<close>: the buffered reader and the reading and writing of whole buffers
    (\<open>include/xyco/io/\<close>), for every reader and writer that keeps the contract of \<open>read\<close> and
    \<open>write\<close> (\<open>byte_source\<close>, \<open>byte_sink\<close>).
  \<^item> \<open>Http_Server\<close>, \<open>Http_Properties\<close>: the requests and responses of \<open>examples/http_server.cc\<close> over these.
  \<^item> \<open>Server_Programs\<close>, \<open>Server_Properties\<close>: the programs: how the servers start, accept and spawn
    (\<open>examples/http_server.cc\<close>, \<open>benchmark/echo_server.cc\<close>), and the server and the client of
    \<open>src/main.cc\<close>, whose time is part of its state. Every connection is given one coroutine, and every request, in every interleaving of
    the coroutines, its response.
  \<^item> \<open>Sync_Channel\<close>, \<open>Sync_Properties\<close>: the channels (\<open>include/xyco/sync/\<close>), with the interleavings of
    their critical sections; for the channel for one value also between the tests and the store of its receive. The bounded
    channel is first-in first-out in all of them, and a wakeup can be lost in some.
  \<^item> \<open>Task_Combinators\<close>, \<open>Task_Properties\<close>: \<open>join\<close>, \<open>select\<close> and \<open>timeout\<close>
    (\<open>include/xyco/task/\<close>, \<open>include/xyco/time/timeout.ccm\<close>), with the race between the future and the sleep.
  \<^item> This theory: properties of a stream, its registry and the driver together.

  Every property that has hypotheses is followed by an instance at a concrete input.

  \<^bold>\<open>Bounds.\<close> Integers that the sources keep in 8, 16, 32 or 64 bits are words where they are masked,
  swapped or may wrap around (flags, ports, the counts of \<open>std::string\<close>, the argument of
  \<open>consume\<close>); the narrowing of the steps of the wheel is written out. Times and sizes are integers and naturals where
  the sources' 64 bits cannot be exceeded. No definition has fuel.

  A loop that never ends, such as that of a server, is given the results of as many awaits
  as it has come to, and the theorems hold for every number of them.

  \<^bold>\<open>Not modelled.\<close> Logging (\<open>src/utils/logging.cc\<close>), which sets up another library and is output only: its
  calls are left out of the operations that log; the re-exports of libc and of the backends, and compile-time concepts, which have no behaviour;
  \<open>benchmark/asio_echo_server.cc\<close>, which is a program of another library; the
  closing of the epoll descriptor and of the ring in the destructors of the registries. Coroutines are spawned from outside the coroutines
  in the theorem on the executor, and are not cancelled there but by their own exception. The C++ memory model is not
  modelled: accesses without a lock are noted where they race (\<open>BlockingPool::spawn\<close>, \<open>spawn_impl\<close>,
  \<open>oneshot\<close>, the condition variables), and are otherwise taken as atomic. Bytes that cross a system call are
  modelled for the buffered reader, the utilities and the programs, and elsewhere as counts. In the theorem on
  the interleavings of the HTTP server a coroutine runs without a pause, since no two of them share a connection. The pause of
  \<open>main\<close> between the start of its server and its first client is left out.
\<close>

section \<open>A stream, its registry and the driver\<close>

text \<open>
  C25. Dropping a waiting future is fatal. The destructor of the future of read, write and
  accept unbinds the event but leaves it with the registry: when the kernel then reports it, the
  driver's round wakes an event without a future and dereferences null.
\<close>

theorem dropped_future_fatal:
  assumes "armed i (tcp_event self) this interest c" "i < length (dr_objects (co_driver c))"
    and "wo_epoll_wait (w i) 1 = \<lparr>wr_return = 1, wr_errno = err, wr_buffer = (tcp_event self, m) # rest\<rparr>"
  shows "poll_registry w (Epoll_class, i) ([], epoll_future_dtor self c) = Inl Null_deref"
proof -
  let ?e = "tcp_event self"
  obtain s x where a: "dr_objects (co_driver c) ! i = Epoll_obj s" "?e \<in> set (er_registered s)"
    "ev_extra (co_heap c ?e) = Some (EpollExtra x)" using assms(1) by (auto simp: armed_def)
  let ?h = "set_future ?e None (co_heap c)"
  have sel: "epoll_select (2, wo_epoll_wait (w i)) [] (?h, s) = Inr (Inr (), [?e],
      set_extra ?e (EpollExtra (x\<lparr>ep_state := to_state m\<rparr>)) ?h, s\<lparr>er_registered := remove1 ?e (er_registered s)\<rparr>)"
    using a(2,3) assms(3) by (simp add: epoll_select_def into_sys_result_def epoll_take_def)
  show ?thesis
    using sel a(1) by (simp add: poll_registry_def epoll_future_dtor_def put_future_def lift_sel_def wake_def wake_one_def)
qed

theorem dropped_future_fatal_witness:
  "\<exists>c'. epoll_read_poll quiet_world 0 (\<lambda>_. (-1, 11)) 1 (fst net_stream) (snd net_stream) = Inr (None, c')
    \<and> poll_registry (\<lambda>_. quiet_world\<lparr>wo_epoll_wait := \<lambda>_. \<lparr>wr_return = 1, wr_errno = 0, wr_buffer = [(5, 1)]\<rparr>\<rparr>)
        (Epoll_class, 0) ([], epoll_future_dtor (fst net_stream) c') = Inl Null_deref"
proof -
  define x where "x = epoll_IoExtra Interest_Read 9"
  define c' where "c' = (put_extra 5 (EpollExtra (x\<lparr>ep_state := 1\<rparr>)) (put_future 5 (Some 1) (snd net_stream)))
    \<lparr>co_driver := (co_driver net_core)\<lparr>dr_objects := (dr_objects (co_driver net_core))[0 := Epoll_obj \<lparr>er_epfd = 3, er_registered = [5]\<rparr>]\<rparr>\<rparr>"
  have f: "finds 0 Epoll_class 0 (snd net_stream)" using net_core_finds(1) by (simp add: finds_def)
  have o: "dr_objects (co_driver net_core) ! 0 = Epoll_obj \<lparr>er_epfd = 3, er_registered = []\<rparr>"
    by (simp add: net_core_def)
  have p: "epoll_read_poll quiet_world 0 (\<lambda>_. (-1, 11)) 1 (fst net_stream) (snd net_stream) = Inr (None, c')"
    using f o by (simp add: epoll_read_poll_def epoll_extra_at_def epoll_IoExtra_def get_field_def Driver_Register_def
        Driver_call_found [where i = 0] put_extra_def put_future_def finds_def lift_reg_def epoll_Register_def quiet_world_def
        into_sys_result_def c'_def x_def set_field_def set_extra_def)
  have "armed 0 (tcp_event (fst net_stream)) 1 Interest_Read c'"
    by (simp add: armed_def c'_def put_extra_def put_future_def x_def epoll_IoExtra_def get_field_def net_core_def)
  moreover have "0 < length (dr_objects (co_driver c'))" by (simp add: c'_def net_core_def)
  ultimately show ?thesis
    using p dropped_future_fatal [of 0 "fst net_stream" 1 Interest_Read c'
        "\<lambda>_. quiet_world\<lparr>wo_epoll_wait := \<lambda>_. \<lparr>wr_return = 1, wr_errno = 0, wr_buffer = [(5, 1)]\<rparr>\<rparr>" 0 1 "[]"]
    by auto
qed

text \<open>
  C24. Reading through io_uring. A read on an idle stream submits exactly one read of the given buffer
  on the descriptor of the stream; when the kernel completes it, the driver's round queues the
  coroutine that waits for the future; polled again, the future is ready with the number of
  bytes, or with the error whose negation the kernel returned, and the stream is idle again. Over the
  three calls the ring sees one submission entry taken, prepared and submitted, and one completion consumed.
\<close>

theorem uring_read_end_to_end:
  assumes f: "finds tid Uring_class i c" and o: "dr_objects (co_driver c) ! i = Uring_obj s"
    and x: "ev_extra (co_heap c (tcp_event self)) = Some (UringExtra x)" "\<not> get_field Completed (ur_state x)"
      "\<not> get_field Registered (ur_state x)"
    and q: "fst (wo_sqe w)" and fut: "st_futures (co_store c) this = Some fu"
    and cq: "wo_wait_cqe (w' i) (to_timespec MAX_TIMEOUT) = \<lparr>cq_return = 0, cq_ptr = True, cq_entries = [(Some (tcp_event self), res)]\<rparr>"
  shows "\<exists>c1 c2 c3. uring_read_poll w tid buf len this self c = Inr (None, c1)
    \<and> (\<exists>s1. dr_objects (co_driver c1) ! i = Uring_obj s1 \<and> ui_calls s1 = ui_calls s
         @ [Get_sqe True, Prep (Prep_read (ur_fd x) buf (of_nat len) 0), Set_data (tcp_event self), Submit])
    \<and> poll_registry w' (Uring_class, i) ([], c1) = Inr ([], c2)
    \<and> co_handles c2 = (if fu_self fu = None then fu_waiting fu else fu_self fu, Some this) # co_handles c
    \<and> uring_read_poll w tid buf len this self c2 = Inr (Some (if 0 \<le> res then Inr res else Inl \<lparr>err_no = - res, err_info = []\<rparr>), c3)
    \<and> (\<exists>y. ev_extra (co_heap c3 (tcp_event self)) = Some (UringExtra y) \<and> \<not> get_field Completed (ur_state y))
    \<and> (\<exists>s3. dr_objects (co_driver c3) ! i = Uring_obj s3 \<and> ui_calls s3 = ui_calls s
         @ [Get_sqe True, Prep (Prep_read (ur_fd x) buf (of_nat len) 0), Set_data (tcp_event self), Submit, Cq_advance 1])"
proof -
  let ?e = "tcp_event self" and ?args = "\<lambda>x. x\<lparr>ur_args := Args_Read buf (of_nat len) 0\<rparr>"
  obtain c1 where c1: "uring_read_poll w tid buf len this self c = Inr (None, c1)"
    "c1 = c\<lparr>co_heap := set_extra ?e (UringExtra ((?args x)\<lparr>ur_state := set_field 1 True (ur_state x)\<rparr>)) (set_future ?e (Some this) (co_heap c)),
      co_driver := (co_driver c)\<lparr>dr_objects := (dr_objects (co_driver c))[i :=
        Uring_obj (log_calls [Get_sqe True, Prep (prep_op (ur_fd (?args x)) (ur_args (?args x))), Set_data ?e, Submit]
          (s\<lparr>ui_registered := ui_registered s @ [?e]\<rparr>))]\<rparr>\<rparr>"
    using uring_poll_submits [OF f o x(1,2,3), of ?args w "\<lambda>ret c. (uring_bytes ret, c)" this] q
    by (auto simp: uring_read_poll_def)
  define s1 where "s1 = log_calls [Get_sqe True, Prep (Prep_read (ur_fd x) buf (of_nat len) 0), Set_data ?e, Submit]
    (s\<lparr>ui_registered := ui_registered s @ [?e]\<rparr>)"
  have o1: "dr_objects (co_driver c1) ! i = Uring_obj s1" using f by (simp add: c1(2) s1_def finds_def)
  have i1: "i < length (dr_objects (co_driver c1))" using f by (simp add: c1(2) finds_def)
  obtain c2 s2 where c2: "poll_registry w' (Uring_class, i) ([], c1) = Inr ([], c2)"
    "co_handles c2 = (if fu_self fu = None then fu_waiting fu else fu_self fu, Some this) # co_handles c"
    "ev_extra (co_heap c2 ?e) = Some (UringExtra (((?args x)\<lparr>ur_state := set_field 1 True (ur_state x)\<rparr>)
      \<lparr>ur_return := res, ur_state := set_field 1 False (set_field 2 True (set_field 1 True (ur_state x)))\<rparr>))"
    "dr_objects (co_driver c2) ! i = Uring_obj s2" "ui_calls s2 = ui_calls s1 @ [Cq_advance 1]"
    using i1 uring_round_completes [OF o1, of ?e "(?args x)\<lparr>ur_state := set_field 1 True (ur_state x)\<rparr>" this fu w' res] fut cq
    by (auto simp: s1_def c1(2))
  obtain c3 where "uring_read_poll w tid buf len this self c2 = Inr (Some (uring_bytes res), c3)"
    "\<exists>y. ev_extra (co_heap c3 ?e) = Some (UringExtra y) \<and> \<not> get_field 2 (ur_state y)" "co_driver c3 = co_driver c2"
    using uring_poll_takes [OF c2(3), of w tid ?args uring_bytes this]
    by (auto simp: uring_read_poll_def get_set_other)
  then show ?thesis
    using c1(1) c2(1,2,4,5) o1
    by (intro exI [of _ c1] exI [of _ c2] exI [of _ c3]) (auto simp: s1_def uring_bytes_def)
qed

theorem uring_read_end_to_end_witness:
  "\<exists>c1 c2 c3. uring_read_poll quiet_world 0 64 10 1 (fst (uring_TcpStream 5 9 net_core)) (snd (uring_TcpStream 5 9 net_core)) = Inr (None, c1)
    \<and> poll_registry (\<lambda>_. quiet_world\<lparr>wo_wait_cqe := \<lambda>_. \<lparr>cq_return = 0, cq_ptr = True, cq_entries = [(Some 5, 7)]\<rparr>\<rparr>)
        (Uring_class, 1) ([], c1) = Inr ([], c2)
    \<and> uring_read_poll quiet_world 0 64 10 1 (fst (uring_TcpStream 5 9 net_core)) c2 = Inr (Some (Inr 7), c3)"
proof -
  let ?s = "uring_TcpStream 5 9 net_core"
  have "finds 0 Uring_class 1 (snd ?s)" "dr_objects (co_driver (snd ?s)) ! 1 = Uring_obj \<lparr>ui_registered = [], ui_calls = []\<rparr>"
    "ev_extra (co_heap (snd ?s) 5) = Some (UringExtra (uring_IoExtra\<lparr>ur_fd := 9\<rparr>))" "tcp_event (fst ?s) = 5"
    "st_futures (co_store (snd ?s)) 1 = Some (fresh_fut True (Some 10))"
    by (simp_all add: uring_TcpStream_def net_core_def finds_def spawn_core_def)
  then show ?thesis
    using uring_read_end_to_end [of 0 1 "snd ?s" "\<lparr>ui_registered = [], ui_calls = []\<rparr>" "fst ?s" "uring_IoExtra\<lparr>ur_fd := 9\<rparr>"
        quiet_world 1 "fresh_fut True (Some 10)"
        "\<lambda>_. quiet_world\<lparr>wo_wait_cqe := \<lambda>_. \<lparr>cq_return = 0, cq_ptr = True, cq_entries = [(Some 5, 7)]\<rparr>\<rparr>" 7 64 10]
    by (auto simp: uring_IoExtra_def get_field_def quiet_world_def)
qed

end
